(* ===== verification/Rust_Text.thy ===== *)
theory Rust_Text
  imports Prelude "HOL-Library.Char_ord" "HOL-Library.List_Lexorder"
begin

text \<open>
  The string operations of the standard library that the code calls, on \<open>string\<close> (a list
  of bytes, so \<open>length\<close> is \<open>str::len\<close>), with their laws. White space is the ASCII white
  space: the texts the code splits and trims (procfs files, the output of \<open>ping\<close>,
  \<open>systemctl\<close> and \<open>id\<close>) are ASCII. The round trips are between decimal printing and
  parsing, and between joining lines and splitting them.
\<close>

named_theorems text_simps

abbreviation nl :: char where "nl \<equiv> CHR 0x0A"
abbreviation cr :: char where "cr \<equiv> CHR 0x0D"

section \<open>Prefixes, suffixes and search\<close>

definition starts_with :: "string \<Rightarrow> string \<Rightarrow> bool" where
  "starts_with s p \<longleftrightarrow> take (length p) s = p"

definition strip_prefix :: "string \<Rightarrow> string \<Rightarrow> string option" where
  "strip_prefix s p = (if starts_with s p then Some (drop (length p) s) else None)"

definition strip_suffix :: "string \<Rightarrow> string \<Rightarrow> string option" where
  "strip_suffix s p = map_option rev (strip_prefix (rev s) (rev p))"

text \<open>\<open>str::find\<close>: the byte index of the first occurrence.\<close>

fun find_sub :: "string \<Rightarrow> string \<Rightarrow> nat option" where
  "find_sub [] p = (if p = [] then Some 0 else None)"
| "find_sub (c # s) p =
     (if starts_with (c # s) p then Some 0 else map_option Suc (find_sub s p))"

lemma starts_with_iff: "starts_with s p \<longleftrightarrow> (\<exists>t. s = p @ t)"
  by (auto simp: starts_with_def) (metis append_take_drop_id)

lemma strip_prefix_Some_iff [text_simps]: "strip_prefix s p = Some t \<longleftrightarrow> s = p @ t"
  by (auto simp: strip_prefix_def starts_with_iff)

lemma strip_prefix_None_iff: "strip_prefix s p = None \<longleftrightarrow> \<not> starts_with s p"
  by (simp add: strip_prefix_def)

lemma strip_prefix_append [simp]: "strip_prefix (p @ t) p = Some t"
  by (simp add: strip_prefix_Some_iff)

lemma strip_suffix_Some_iff [text_simps]: "strip_suffix s p = Some t \<longleftrightarrow> s = t @ p"
proof -
  have "strip_suffix s p = Some t \<longleftrightarrow> strip_prefix (rev s) (rev p) = Some (rev t)"
    by (auto simp: strip_suffix_def)
  also have "\<dots> \<longleftrightarrow> s = t @ p"
    by (metis rev_append rev_rev_ident strip_prefix_Some_iff)
  finally show ?thesis .
qed

lemma strip_suffix_append [simp]: "strip_suffix (t @ p) p = Some t"
  by (simp add: strip_suffix_Some_iff)

lemma find_sub_Some:
  "find_sub s p = Some i \<Longrightarrow> i + length p \<le> length s \<and> take (length p) (drop i s) = p"
proof (induction s arbitrary: i)
  case Nil
  then show ?case by (simp split: if_splits)
next
  case (Cons c s)
  show ?case
  proof (cases "starts_with (c # s) p")
    case True
    then obtain t where "c # s = p @ t" by (auto simp: starts_with_iff)
    moreover from True Cons.prems have "i = 0" by simp
    ultimately show ?thesis by simp
  next
    case False
    with Cons.prems obtain j where "find_sub s p = Some j" "i = Suc j" by auto
    with Cons.IH show ?thesis by simp
  qed
qed

section \<open>White space and trimming\<close>

definition is_whitespace :: "char \<Rightarrow> bool" where
  "is_whitespace c \<longleftrightarrow> c = CHR '' '' \<or> (9 \<le> (of_char c :: nat) \<and> (of_char c :: nat) \<le> 13)"

definition trim :: "string \<Rightarrow> string" where
  "trim s = rev (dropWhile is_whitespace (rev (dropWhile is_whitespace s)))"

fun split_whitespace :: "string \<Rightarrow> string list" where
  "split_whitespace [] = []"
| "split_whitespace (c # s) =
     (if is_whitespace c then split_whitespace s
      else case s of
        [] \<Rightarrow> [[c]]
      | d # _ \<Rightarrow>
          if is_whitespace d then [c] # split_whitespace s
          else (case split_whitespace s of [] \<Rightarrow> [[c]] | w # ws \<Rightarrow> (c # w) # ws))"

lemma trim_none:
  assumes "s = [] \<or> \<not> is_whitespace (hd s) \<and> \<not> is_whitespace (last s)"
  shows "trim s = s"
proof -
  have "dropWhile is_whitespace s = s"
    using assms by (cases s) auto
  moreover have "dropWhile is_whitespace (rev s) = rev s"
    using assms by (cases s rule: rev_cases) auto
  ultimately show ?thesis by (simp add: trim_def)
qed

lemma trim_leading: "\<forall>c \<in> set w. is_whitespace c \<Longrightarrow> trim (w @ s) = trim s"
  by (simp add: trim_def dropWhile_append2)

lemma trim_trailing:
  assumes "\<forall>c \<in> set w. is_whitespace c"
  shows "trim (s @ w) = trim s"
proof (cases "\<forall>c \<in> set s. is_whitespace c")
  case True
  with assms have "dropWhile is_whitespace (s @ w) = []" and "dropWhile is_whitespace s = []"
    by auto
  then show ?thesis by (simp only: trim_def)
next
  case False
  then have "dropWhile is_whitespace (s @ w) = dropWhile is_whitespace s @ w"
    by (auto simp: dropWhile_append1)
  moreover have "dropWhile is_whitespace (rev w @ t) = dropWhile is_whitespace t" for t
    by (rule dropWhile_append2) (use assms in auto)
  ultimately show ?thesis by (simp add: trim_def)
qed

lemma split_whitespace_word:
  assumes "w \<noteq> []" "\<forall>c \<in> set w. \<not> is_whitespace c" "is_whitespace d"
  shows "split_whitespace (w @ d # s) = w # split_whitespace s"
  using assms
proof (induction w)
  case Nil
  then show ?case by simp
next
  case (Cons c w)
  then show ?case by (cases w) auto
qed

section \<open>Lines\<close>

fun split_inclusive_nl :: "string \<Rightarrow> string list" where
  "split_inclusive_nl [] = []"
| "split_inclusive_nl (c # s) =
     (if c = nl then [c] # split_inclusive_nl s
      else case split_inclusive_nl s of [] \<Rightarrow> [[c]] | l # ls \<Rightarrow> (c # l) # ls)"

definition strip_line :: "string \<Rightarrow> string" where
  "strip_line l =
     (case strip_suffix l [nl] of
        None \<Rightarrow> l
      | Some l' \<Rightarrow> (case strip_suffix l' [cr] of None \<Rightarrow> l' | Some l'' \<Rightarrow> l''))"

definition lines :: "string \<Rightarrow> string list" where
  "lines s = map strip_line (split_inclusive_nl s)"

definition unlines :: "string list \<Rightarrow> string" where
  "unlines ls = concat (map (\<lambda>l. l @ [nl]) ls)"

definition plain_line :: "string \<Rightarrow> bool" where
  "plain_line l \<longleftrightarrow> nl \<notin> set l \<and> (l \<noteq> [] \<longrightarrow> last l \<noteq> cr)"

lemma split_inclusive_nl_line:
  "nl \<notin> set l \<Longrightarrow> split_inclusive_nl (l @ nl # s) = (l @ [nl]) # split_inclusive_nl s"
  by (induction l) auto

lemma strip_line_plain: "plain_line l \<Longrightarrow> strip_line (l @ [nl]) = l"
  by (auto simp: strip_line_def plain_line_def text_simps split: option.splits)

lemma lines_Cons: "plain_line l \<Longrightarrow> lines (l @ nl # s) = l # lines s"
  using strip_line_plain [of l]
  by (simp add: lines_def split_inclusive_nl_line plain_line_def)

lemma lines_unlines: "\<forall>l \<in> set ls. plain_line l \<Longrightarrow> lines (unlines ls) = ls"
proof (induction ls)
  case Nil
  then show ?case by (simp add: lines_def unlines_def)
next
  case (Cons l ls)
  then show ?case using lines_Cons [of l "unlines ls"] by (simp add: unlines_def)
qed

section \<open>Decimal numbers\<close>

definition digit_val :: "char \<Rightarrow> nat option" where
  "digit_val c =
     (let n = (of_char c :: nat) in if 48 \<le> n \<and> n \<le> 57 then Some (n - 48) else None)"

fun digits_val :: "nat \<Rightarrow> string \<Rightarrow> nat option" where
  "digits_val acc [] = Some acc"
| "digits_val acc (c # s) =
     (case digit_val c of None \<Rightarrow> None | Some d \<Rightarrow> digits_val (10 * acc + d) s)"

text \<open>
  \<open>str::parse::<u64>\<close>: an optional \<open>+\<close>, at least one digit, nothing else, and a value that
  fits 64 bits.
\<close>

definition parse_u64 :: "string \<Rightarrow> u64 option" where
  "parse_u64 s =
     (let ds = (case s of [] \<Rightarrow> [] | c # r \<Rightarrow> if c = CHR ''+'' then r else s) in
      if ds = [] then None
      else case digits_val 0 ds of
        None \<Rightarrow> None
      | Some n \<Rightarrow> if n < 2 ^ 64 then Some (of_nat n) else None)"

definition digit_char :: "nat \<Rightarrow> char" where
  "digit_char d = char_of (48 + d)"

fun show_nat :: "nat \<Rightarrow> string" where
  "show_nat n =
     (if n < 10 then [digit_char n] else show_nat (n div 10) @ [digit_char (n mod 10)])"

declare show_nat.simps [simp del]

lemma of_char_digit_char [simp]: "d < 10 \<Longrightarrow> (of_char (digit_char d) :: nat) = 48 + d"
  by (simp add: digit_char_def)

lemma digit_val_digit_char [simp]: "d < 10 \<Longrightarrow> digit_val (digit_char d) = Some d"
  by (simp add: digit_val_def)

lemma digits_val_append:
  "digits_val acc (s @ t) =
     (case digits_val acc s of None \<Rightarrow> None | Some n \<Rightarrow> digits_val n t)"
  by (induction acc s rule: digits_val.induct) (auto split: option.splits)

lemma digits_val_show_nat: "digits_val 0 (show_nat n) = Some n"
proof (induction n rule: show_nat.induct)
  case (1 n)
  then show ?case
    by (subst show_nat.simps) (auto simp: digits_val_append)
qed

lemma show_nat_digits: "c \<in> set (show_nat n) \<Longrightarrow> 48 \<le> (of_char c :: nat) \<and> (of_char c :: nat) \<le> 57"
proof (induction n rule: show_nat.induct)
  case (1 n)
  then show ?case
    by (subst (asm) (2) show_nat.simps) (auto split: if_splits)
qed

lemma show_nat_nonempty [simp]: "show_nat n \<noteq> []"
  by (subst show_nat.simps) simp

lemma parse_u64_show_nat:
  assumes "n < 2 ^ 64"
  shows "parse_u64 (show_nat n) = Some (of_nat n)"
proof -
  obtain c r where cr: "show_nat n = c # r"
    using show_nat_nonempty [of n] by (cases "show_nat n") auto
  then have "48 \<le> (of_char c :: nat)"
    using show_nat_digits [of c n] by simp
  then have "c \<noteq> CHR ''+''" by auto
  with cr assms digits_val_show_nat [of n] show ?thesis
    by (simp add: parse_u64_def)
qed

lemma show_nat_no_whitespace: "c \<in> set (show_nat n) \<Longrightarrow> \<not> is_whitespace c"
  using show_nat_digits [of c n] by (auto simp: is_whitespace_def)

lemma trim_show_nat: "trim (show_nat n) = show_nat n"
  using show_nat_no_whitespace [of _ n] by (intro trim_none) simp

definition is_ascii_alphanumeric :: "char \<Rightarrow> bool" where
  "is_ascii_alphanumeric c \<longleftrightarrow>
     (let n = (of_char c :: nat) in
      48 \<le> n \<and> n \<le> 57 \<or> 65 \<le> n \<and> n \<le> 90 \<or> 97 \<le> n \<and> n \<le> 122)"

end
