(* ===== verification/Rust_Io.thy ===== *)
theory Rust_Io
  imports Prelude
begin

text \<open>
  Input and output as the code sees it: the kinds of \<open>std::io::Error\<close> it tells apart, the
  transport causes such an error can carry, and byte streams. A stream belongs to the
  environment: a reader is the bytes it will still deliver and the error after them, a
  writer is what it has accepted, how much more it will accept, the error after that, and what
  flushing it answers.
\<close>

section \<open>I/O errors\<close>

datatype io_kind =
    ConnectionRefused | TimedOut | HostUnreachable | NetworkUnreachable
  | ConnectionReset | ConnectionAborted | NotConnected | BrokenPipe
  | NotFound | UnexpectedEof | OtherKind

text \<open>
  Why a QUIC connection ended, and why a stream operation on it failed, as far as the code
  distinguishes the variants of the transport library; a close code is a number.
\<close>

datatype connection_error =
    ApplicationClosed nat | ConnectionClosed | ConnectionTimedOut | ConnectionWasReset
  | LocallyClosed | OtherConnectionError

datatype stream_cause =
    ReadConnectionLost connection_error | ReadFailed
  | WriteConnectionLost connection_error | WriteFailed

record io_error =
  io_kind :: io_kind
  io_message :: string
  io_inner :: "stream_cause option"

definition plain_io :: "io_kind \<Rightarrow> io_error" where
  "plain_io k = \<lparr>io_kind = k, io_message = [], io_inner = None\<rparr>"

section \<open>Byte streams\<close>

record reader =
  rd_bytes :: "u8 list"
  rd_end :: io_error

record writer =
  wr_sent :: "u8 list"
  wr_room :: "nat option"
  wr_error :: io_error
  wr_flush :: "(unit, io_error) result"

fun read_exact :: "nat \<Rightarrow> reader \<Rightarrow> (u8 list, io_error) result \<times> reader" where
  "read_exact n r =
     (if n \<le> length (rd_bytes r)
      then (Ok (take n (rd_bytes r)), r\<lparr>rd_bytes := drop n (rd_bytes r)\<rparr>)
      else (Err (rd_end r), r\<lparr>rd_bytes := []\<rparr>))"

fun write_all :: "u8 list \<Rightarrow> writer \<Rightarrow> (unit, io_error) result \<times> writer" where
  "write_all bs w =
     (case wr_room w of
        None \<Rightarrow> (Ok (), w\<lparr>wr_sent := wr_sent w @ bs\<rparr>)
      | Some n \<Rightarrow>
          if length bs \<le> n
          then (Ok (), w\<lparr>wr_sent := wr_sent w @ bs, wr_room := Some (n - length bs)\<rparr>)
          else (Err (wr_error w), w\<lparr>wr_sent := wr_sent w @ take n bs, wr_room := Some 0\<rparr>))"

declare read_exact.simps [simp del] write_all.simps [simp del]

definition reader_of :: "u8 list \<Rightarrow> reader" where
  "reader_of bs = \<lparr>rd_bytes = bs, rd_end = plain_io UnexpectedEof\<rparr>"

definition open_writer :: writer where
  "open_writer = \<lparr>wr_sent = [], wr_room = None, wr_error = plain_io BrokenPipe,
                  wr_flush = Ok ()\<rparr>"

lemma read_exact_append:
  "rd_bytes r = bs @ rest \<Longrightarrow> n = length bs \<Longrightarrow>
     read_exact n r = (Ok bs, r\<lparr>rd_bytes := rest\<rparr>)"
  by (simp add: read_exact.simps)

lemma read_exact_short:
  "length (rd_bytes r) < n \<Longrightarrow> read_exact n r = (Err (rd_end r), r\<lparr>rd_bytes := []\<rparr>)"
  by (simp add: read_exact.simps)

lemma write_all_open:
  "wr_room w = None \<Longrightarrow> write_all bs w = (Ok (), w\<lparr>wr_sent := wr_sent w @ bs\<rparr>)"
  by (simp add: write_all.simps)

section \<open>Big-endian 32-bit integers\<close>

definition u32_to_be :: "u32 \<Rightarrow> u8 list" where
  "u32_to_be n = map (\<lambda>i. word_of_nat (unat n div 256 ^ i)) [3, 2, 1, 0]"

definition u32_from_be :: "u8 list \<Rightarrow> u32" where
  "u32_from_be bs = word_of_nat (foldl (\<lambda>acc b. 256 * acc + unat b) 0 bs)"

lemma length_u32_to_be [simp]: "length (u32_to_be n) = 4"
  by (simp add: u32_to_be_def)

lemma be_digits:
  fixes n :: nat
  assumes "n < 2 ^ 32"
  shows "256 * (256 * (256 * (n div 16777216 mod 256) + n div 65536 mod 256)
           + n div 256 mod 256) + n mod 256 = n"
proof -
  have step: "256 * (m div 256) + m mod 256 = m" for m :: nat
    by (rule mult_div_mod_eq)
  have d2: "n div 65536 = n div 256 div 256" and d3: "n div 16777216 = n div 256 div 256 div 256"
    by (simp_all flip: div_mult2_eq)
  have "n div 256 div 256 div 256 < 256"
    using assms by (simp flip: div_mult2_eq)
  then have "n div 256 div 256 div 256 mod 256 = n div 256 div 256 div 256" by simp
  then show ?thesis by (simp only: d2 d3 step)
qed

lemma u32_from_to_be: "u32_from_be (u32_to_be n) = n"
proof -
  have "unat n < 2 ^ 32" using unsigned_less [of n] by simp
  then have "foldl (\<lambda>acc b. 256 * acc + unat b) 0 (u32_to_be n) = unat n"
    using be_digits [of "unat n"]
    by (simp add: u32_to_be_def unat_word_ariths unsigned_of_nat unsigned_ucast_eq take_bit_eq_mod)
  then show ?thesis by (simp add: u32_from_be_def)
qed

lemma unat_of_nat_u32: "n < 2 ^ 32 \<Longrightarrow> unat (word_of_nat n :: u32) = n"
  by (simp add: unsigned_of_nat take_bit_nat_eq_self)

end
