(* ===== verification/Rust_Path.thy ===== *)
theory Rust_Path
  imports Rust_Text Rust_Io
begin

text \<open>
  \<open>std::path::Path\<close> as the code uses it: whether a path is absolute, and its components.
  Repeated and trailing separators and \<open>.\<close> components do not show, as in
  \<open>Path::components\<close>, by which paths are compared.
\<close>

datatype path = Path (is_absolute: bool) (components: "string list")

definition path_parent :: "path \<Rightarrow> path option" where
  "path_parent p =
     (if components p = [] then None else Some (Path (is_absolute p) (butlast (components p))))"

definition path_file_name :: "path \<Rightarrow> string option" where
  "path_file_name p =
     (if components p = [] \<or> last (components p) = ''..'' then None else Some (last (components p)))"

definition path_join :: "path \<Rightarrow> path \<Rightarrow> path" where
  "path_join p q =
     (if is_absolute q then q else Path (is_absolute p) (components p @ components q))"

definition path_strip_prefix :: "path \<Rightarrow> path \<Rightarrow> path option" where
  "path_strip_prefix p base =
     (if is_absolute p = is_absolute base
         \<and> take (length (components base)) (components p) = components base
      then Some (Path False (drop (length (components base)) (components p))) else None)"

text \<open>The part of a file name before its last dot; a leading dot does not count.\<close>

definition file_stem :: "string \<Rightarrow> string" where
  "file_stem f =
     (let ext = takeWhile (\<lambda>c. c \<noteq> CHR ''.'') (rev f);
          stem = take (length f - length ext - 1) f
      in if length ext = length f \<or> stem = [] then f else stem)"

definition with_extension :: "path \<Rightarrow> string \<Rightarrow> path" where
  "with_extension p ext =
     (case path_file_name p of
        None \<Rightarrow> p
      | Some f \<Rightarrow>
          Path (is_absolute p)
            (butlast (components p) @ [if ext = [] then file_stem f else file_stem f @ ''.'' @ ext]))"

text \<open>The text of a path, whose length bounds what fits into a socket address.\<close>

definition path_text :: "path \<Rightarrow> string" where
  "path_text p =
     (if is_absolute p then ''/'' else []) @ (case components p of [] \<Rightarrow> [] | c # cs \<Rightarrow> c @ concat (map (\<lambda>d. CHR ''/'' # d) cs))"

text \<open>
  A path written as text. Empty components are dropped, and \<open>.\<close> components except a leading one
  of a relative path.
\<close>

fun split_char :: "char \<Rightarrow> string \<Rightarrow> string list" where
  "split_char d [] = [[]]"
| "split_char d (c # s) =
     (if c = d then [] # split_char d s
      else case split_char d s of [] \<Rightarrow> [[c]] | w # ws \<Rightarrow> (c # w) # ws)"

definition path_of :: "string \<Rightarrow> path" where
  "path_of s =
     (case split_char (CHR ''/'') s of
        [] \<Rightarrow> Path False []
      | p # ps \<Rightarrow>
          Path (starts_with s ''/'') (filter (\<lambda>c. c \<noteq> []) [p] @ filter (\<lambda>c. c \<noteq> [] \<and> c \<noteq> ''.'') ps))"

text \<open>
  The files: what reading a path answers, and the text that a completed write leaves.
\<close>

type_synonym files = "path \<Rightarrow> (string, io_error) result"

lemma path_eqI: "is_absolute p = is_absolute q \<Longrightarrow> components p = components q \<Longrightarrow> p = q"
  by (cases p; cases q) simp

text \<open>A path below \<open>base\<close>, stored relative to it, joins back to the same path.\<close>

lemma join_strip_prefix: "path_strip_prefix p base = Some q \<Longrightarrow> path_join base q = p"
  by (auto simp: path_strip_prefix_def path_join_def split: if_splits intro!: path_eqI)
     (metis append_take_drop_id)+

lemma strip_prefix_relative: "path_strip_prefix p base = Some q \<Longrightarrow> \<not> is_absolute q"
  by (auto simp: path_strip_prefix_def split: if_splits)

lemma strip_prefix_join:
  "\<not> is_absolute q \<Longrightarrow> path_strip_prefix (path_join base q) base = Some q"
  by (auto simp: path_strip_prefix_def path_join_def intro!: path_eqI)

lemma file_stem_extended:
  assumes "CHR ''.'' \<notin> set ext" "s \<noteq> []"
  shows "file_stem (s @ ''.'' @ ext) = s"
proof -
  have "takeWhile (\<lambda>c. c \<noteq> CHR ''.'') (rev ext @ CHR ''.'' # rev s) = rev ext"
    using assms(1) by (subst takeWhile_append2) auto
  then show ?thesis using assms(2) by (simp add: file_stem_def Let_def)
qed

lemma with_extension_parent:
  "path_parent (with_extension p ext) = path_parent p"
  by (simp add: with_extension_def path_parent_def path_file_name_def)

lemma with_extension_inj:
  assumes "path_file_name p \<noteq> None" "with_extension p e1 = with_extension p e2"
    "e1 \<noteq> []" "e2 \<noteq> []"
  shows "e1 = e2"
  using assms by (auto simp: with_extension_def)

end
