(* ===== verification/Rust_Map.thy ===== *)
theory Rust_Map
  imports Prelude
begin

text \<open>
  The ordered map of the standard library (\<open>BTreeMap\<close>), which the configuration, the
  history and the endpoint cache use: its interface as the locale \<open>ordered_map\<close>, the
  client lemmas proved in it, and the association list with strictly ascending keys that
  provides it. Iteration order is observable in the code (the order of checks, of query
  results and of the first offending key in a validation), so the map is a list and not a
  function.
\<close>

section \<open>The interface\<close>

locale ordered_map =
  fixes get :: "'m \<Rightarrow> 'k::linorder \<Rightarrow> 'v option"
    and put :: "'k \<Rightarrow> 'v \<Rightarrow> 'm \<Rightarrow> 'm"
    and del :: "'k \<Rightarrow> 'm \<Rightarrow> 'm"
    and entries :: "'m \<Rightarrow> ('k \<times> 'v) list"
    and wf :: "'m \<Rightarrow> bool"
  assumes get_put: "wf m \<Longrightarrow> get (put k v m) j = (if j = k then Some v else get m j)"
    and get_del: "wf m \<Longrightarrow> get (del k m) j = (if j = k then None else get m j)"
    and wf_put: "wf m \<Longrightarrow> wf (put k v m)"
    and wf_del: "wf m \<Longrightarrow> wf (del k m)"
    and entries_ascending: "wf m \<Longrightarrow> sorted_wrt (<) (map fst (entries m))"
    and entries_get: "wf m \<Longrightarrow> (k, v) \<in> set (entries m) \<longleftrightarrow> get m k = Some v"
begin

lemma get_put_same: "wf m \<Longrightarrow> get (put k v m) k = Some v"
  by (simp add: get_put)

lemma get_put_other: "wf m \<Longrightarrow> j \<noteq> k \<Longrightarrow> get (put k v m) j = get m j"
  by (simp add: get_put)

lemma keys_distinct: "wf m \<Longrightarrow> distinct (map fst (entries m))"
  using entries_ascending strict_sorted_iff by blast

text \<open>Two maps with the same lookups are iterated alike.\<close>

lemma entries_ext:
  assumes "wf m" "wf n" "\<And>k. get m k = get n k"
  shows "entries m = entries n"
proof (rule map_sorted_distinct_set_unique)
  have sets: "set (entries m) = set (entries n)"
    using assms by (auto simp: entries_get)
  then show "set (entries m) = set (entries n)" .
  show "inj_on fst (set (entries m) \<union> set (entries n))"
    using keys_distinct [OF assms(1)] by (simp add: sets [symmetric] distinct_map)
qed (use assms entries_ascending strict_sorted_iff in auto)

text \<open>Removing a key that was just added to a map without it gives the map back.\<close>

lemma del_put_fresh:
  assumes "wf m" "get m k = None"
  shows "entries (del k (put k v m)) = entries m"
  using assms by (intro entries_ext) (auto simp: wf_put wf_del get_put get_del)

lemma value_in_entries: "wf m \<Longrightarrow> get m k = Some v \<Longrightarrow> v \<in> snd ` set (entries m)"
  using entries_get by (metis image_eqI snd_conv)

lemma ball_entries_put:
  assumes "wf m" "\<forall>(j, w) \<in> set (entries m). P j w" "P k v"
  shows "\<forall>(j, w) \<in> set (entries (put k v m)). P j w"
  using assms by (auto simp: entries_get wf_put get_put split: if_splits)

end

section \<open>The association list that provides it\<close>

type_synonym ('k, 'v) btree_map = "('k \<times> 'v) list"

definition bt_empty :: "('k, 'v) btree_map" where
  "bt_empty = []"

definition bt_get :: "('k, 'v) btree_map \<Rightarrow> 'k \<Rightarrow> 'v option" where
  "bt_get m k = map_of m k"

fun bt_insert :: "'k::linorder \<Rightarrow> 'v \<Rightarrow> ('k, 'v) btree_map \<Rightarrow> ('k, 'v) btree_map" where
  "bt_insert k v [] = [(k, v)]"
| "bt_insert k v ((a, b) # m) =
     (if k < a then (k, v) # (a, b) # m
      else if k = a then (k, v) # m
      else (a, b) # bt_insert k v m)"

fun bt_remove :: "'k \<Rightarrow> ('k, 'v) btree_map \<Rightarrow> ('k, 'v) btree_map" where
  "bt_remove k [] = []"
| "bt_remove k ((a, b) # m) = (if k = a then m else (a, b) # bt_remove k m)"

definition bt_contains_key :: "('k, 'v) btree_map \<Rightarrow> 'k \<Rightarrow> bool" where
  "bt_contains_key m k \<longleftrightarrow> bt_get m k \<noteq> None"

definition bt_keys :: "('k, 'v) btree_map \<Rightarrow> 'k list" where
  "bt_keys m = map fst m"

definition bt_values :: "('k, 'v) btree_map \<Rightarrow> 'v list" where
  "bt_values m = map snd m"

definition bt_wf :: "('k::linorder, 'v) btree_map \<Rightarrow> bool" where
  "bt_wf m \<longleftrightarrow> sorted_wrt (<) (map fst m)"

lemma bt_wf_empty [simp]: "bt_wf bt_empty"
  by (simp add: bt_wf_def bt_empty_def)

lemma bt_wf_Nil [simp]: "bt_wf []"
  by (simp add: bt_wf_def)

lemma bt_get_empty [simp]: "bt_get bt_empty k = None"
  by (simp add: bt_get_def bt_empty_def)

lemma bt_wf_Cons: "bt_wf ((a, b) # m) \<longleftrightarrow> (\<forall>x \<in> set m. a < fst x) \<and> bt_wf m"
  by (auto simp: bt_wf_def)

lemma bt_get_above: "bt_wf ((a, b) # m) \<Longrightarrow> k \<le> a \<Longrightarrow> map_of m k = None"
  by (auto simp: bt_wf_Cons map_of_eq_None_iff)

lemma bt_insert_keys: "fst ` set (bt_insert k v m) = insert k (fst ` set m)"
  by (induction k v m rule: bt_insert.induct) auto

lemma bt_remove_subset: "set (bt_remove k m) \<subseteq> set m"
  by (induction k m rule: bt_remove.induct) auto

lemma bt_wf_insert: "bt_wf m \<Longrightarrow> bt_wf (bt_insert k v m)"
proof (induction m)
  case Nil
  then show ?case by (simp add: bt_wf_def)
next
  case (Cons p m)
  obtain a b where p: "p = (a, b)" by fastforce
  have "\<forall>x \<in> fst ` set (bt_insert k v m). a < x" if "a < k"
    using that Cons.prems by (simp add: p bt_wf_Cons bt_insert_keys)
  then show ?case
    using Cons by (auto simp: p bt_wf_Cons not_less dest: less_trans)
qed

lemma bt_wf_remove: "bt_wf m \<Longrightarrow> bt_wf (bt_remove k m)"
proof (induction m)
  case Nil
  then show ?case by simp
next
  case (Cons p m)
  then show ?case
    using bt_remove_subset [of k m] by (cases p) (auto simp: bt_wf_Cons)
qed

lemma bt_get_insert: "map_of (bt_insert k v m) j = (if j = k then Some v else map_of m j)"
  by (induction k v m rule: bt_insert.induct) auto

lemma bt_get_remove:
  "bt_wf m \<Longrightarrow> map_of (bt_remove k m) j = (if j = k then None else map_of m j)"
proof (induction m)
  case Nil
  then show ?case by simp
next
  case (Cons p m)
  obtain a b where p: "p = (a, b)" by fastforce
  have "map_of m a = None"
    using Cons.prems bt_get_above [of a b m a] by (simp add: p)
  then show ?case
    using Cons by (auto simp: p bt_wf_Cons)
qed

interpretation btree: ordered_map bt_get bt_insert bt_remove "\<lambda>m. m" bt_wf
proof unfold_locales
  fix m :: "('k::linorder \<times> 'v) list" and k v
  assume wf: "bt_wf m"
  then have "distinct (map fst m)"
    by (simp add: bt_wf_def strict_sorted_iff)
  then show "(k, v) \<in> set m \<longleftrightarrow> bt_get m k = Some v"
    by (simp add: bt_get_def)
qed (auto simp: bt_get_def bt_get_insert bt_get_remove bt_wf_insert bt_wf_remove, simp add: bt_wf_def)

lemma bt_contains_key_insert [simp]:
  "bt_wf m \<Longrightarrow> bt_contains_key (bt_insert k v m) j \<longleftrightarrow> j = k \<or> bt_contains_key m j"
  by (simp add: bt_contains_key_def btree.get_put)

lemma bt_get_in_values: "bt_get m k = Some v \<Longrightarrow> v \<in> set (bt_values m)"
  by (force simp: bt_get_def bt_values_def dest: map_of_SomeD)

lemma bt_get_in_keys: "bt_get m k = Some v \<Longrightarrow> k \<in> set (bt_keys m)"
  by (force simp: bt_get_def bt_keys_def dest: map_of_SomeD)

end
