(* ===== verification/Protocol.thy ===== *)
theory Protocol
  imports Rust_Map Rust_Text Rust_Io "HOL-Library.Product_Lexorder"
begin

text \<open>
  The crate \<open>sshe-protocol\<close>: the constants of \<open>limits.rs\<close>, the messages of \<open>message.rs\<close> and
  the framing of \<open>codec.rs\<close>. The JSON serialiser (\<open>serde_json\<close>) is not part of the
  repository; the codec takes it as a pair of functions.
\<close>

section \<open>Limits (limits.rs)\<close>

definition MAX_FRAME :: usize where
  "MAX_FRAME = 4 * 1024 * 1024"

definition OUTPUT_LIMIT :: usize where
  "OUTPUT_LIMIT = 256 * 1024"

definition MAX_EXEC_SECONDS :: u64 where
  "MAX_EXEC_SECONDS = 60"

definition MAX_HISTORY_QUERY :: usize where
  "MAX_HISTORY_QUERY = 1000"

lemmas limit_defs = MAX_FRAME_def OUTPUT_LIMIT_def MAX_EXEC_SECONDS_def MAX_HISTORY_QUERY_def

section \<open>Messages (message.rs)\<close>

datatype probe_kind = Host | Lan | Wan | Services | Peers

definition ALL_KINDS :: "probe_kind list" where
  "ALL_KINDS = [Host, Lan, Wan, Services, Peers]"

fun probe_kind_as_str :: "probe_kind \<Rightarrow> string" where
  "probe_kind_as_str Host = ''host''"
| "probe_kind_as_str Lan = ''lan''"
| "probe_kind_as_str Wan = ''wan''"
| "probe_kind_as_str Services = ''services''"
| "probe_kind_as_str Peers = ''peers''"

text \<open>The derived order of the enum is the order of its variants.\<close>

fun probe_kind_index :: "probe_kind \<Rightarrow> nat" where
  "probe_kind_index Host = 0"
| "probe_kind_index Lan = 1"
| "probe_kind_index Wan = 2"
| "probe_kind_index Services = 3"
| "probe_kind_index Peers = 4"

lemma probe_kind_index_inj: "probe_kind_index a = probe_kind_index b \<Longrightarrow> a = b"
  by (cases a; cases b) auto

instantiation probe_kind :: linorder
begin

definition less_eq_probe_kind :: "probe_kind \<Rightarrow> probe_kind \<Rightarrow> bool" where
  "a \<le> b \<longleftrightarrow> probe_kind_index a \<le> probe_kind_index b"

definition less_probe_kind :: "probe_kind \<Rightarrow> probe_kind \<Rightarrow> bool" where
  "a < b \<longleftrightarrow> probe_kind_index a < probe_kind_index b"

instance
  by standard
    (auto simp: less_eq_probe_kind_def less_probe_kind_def intro: probe_kind_index_inj)

end

lemma ALL_KINDS_complete: "k \<in> set ALL_KINDS"
  by (cases k) (simp_all add: ALL_KINDS_def)

lemma ALL_KINDS_distinct: "distinct ALL_KINDS"
  by (simp add: ALL_KINDS_def)

datatype failure_kind =
    Timeout | NoAddress | Refused | Unreachable | Unauthorized
  | ConnectionLost | Dns | Remote | Other

fun failure_kind_as_str :: "failure_kind \<Rightarrow> string" where
  "failure_kind_as_str Timeout = ''timeout''"
| "failure_kind_as_str NoAddress = ''no_address''"
| "failure_kind_as_str Refused = ''refused''"
| "failure_kind_as_str Unreachable = ''unreachable''"
| "failure_kind_as_str Unauthorized = ''unauthorized''"
| "failure_kind_as_str ConnectionLost = ''connection_lost''"
| "failure_kind_as_str Dns = ''dns''"
| "failure_kind_as_str Remote = ''remote''"
| "failure_kind_as_str Other = ''other''"

text \<open>The structured data of a record: the shapes the probes build.\<close>

datatype json_value =
    JString string
  | JNumber nat
  | JFloat string
  | JArray "json_value list"
  | JObject "(string \<times> json_value) list"

record check_record =
  r_kind :: probe_kind
  r_target :: string
  r_label :: "string option"
  r_method :: string
  r_observed_at :: u64
  r_duration_ms :: u64
  r_success :: bool
  r_error :: "string option"
  r_error_kind :: "failure_kind option"
  r_last_success_at :: "u64 option"
  r_data :: "json_value option"

datatype request =
    Health
  | Probe probe_kind
  | History "probe_kind option" "string option" usize
  | Exec string "string list" u64

record health =
  h_endpoint_id :: string
  h_status :: string
  h_version :: string

record probe_report =
  pr_observer :: string
  pr_kind :: probe_kind
  pr_records :: "check_record list"

record history_report =
  hr_observer :: string
  hr_queried_at :: u64
  hr_records :: "check_record list"

record exec_result =
  x_stdout :: "u8 list"
  x_stderr :: "u8 list"
  x_exit_code :: "i32 option"
  x_signal :: "i32 option"
  x_duration_ms :: u64

datatype response =
    HealthResponse health
  | ProbeResponse probe_report
  | HistoryResponse history_report
  | ExecResponse exec_result
  | ErrorResponse string

lemma probe_kind_as_str_inj: "probe_kind_as_str a = probe_kind_as_str b \<Longrightarrow> a = b"
  by (cases a; cases b) simp_all

lemma failure_kind_as_str_inj: "failure_kind_as_str a = failure_kind_as_str b \<Longrightarrow> a = b"
  by (cases a; cases b) simp_all

end
