(* ===== verification/Measure.thy ===== *)
theory Measure
  imports Protocol
begin

text \<open>
  \<open>sshe-core\<close>: its errors (\<open>error.rs\<close>), the trait \<open>Classify\<close> as the locale \<open>classify\<close>, the
  clock (\<open>time.rs\<close>), and \<open>measure\<close> (\<open>probe/measurement.rs\<close>), which turns one bounded check into a record whatever
  its outcome.
\<close>

section \<open>Errors (error.rs)\<close>

datatype core_error =
    CoreIo io_error | System string | CoreJson string | CoreTimeout | OutputLimit
  | InvalidTimeout | DnsError string | Inactive string | CoreInvalid string

fun core_error_display :: "core_error \<Rightarrow> string" where
  "core_error_display (CoreIo e) = ''I/O: '' @ io_message e"
| "core_error_display (System m) = ''system call: '' @ m"
| "core_error_display (CoreJson m) = ''serialization: '' @ m"
| "core_error_display CoreTimeout = ''command timed out; process group terminated''"
| "core_error_display OutputLimit =
     ''command output exceeded '' @ show_nat OUTPUT_LIMIT
       @ '' bytes per stream; process group terminated''"
| "core_error_display InvalidTimeout =
     ''invalid timeout: must be 1..='' @ show_nat (unat MAX_EXEC_SECONDS) @ '' seconds''"
| "core_error_display (DnsError m) = ''DNS: '' @ m"
| "core_error_display (Inactive m) = m"
| "core_error_display (CoreInvalid m) = m"

fun io_failure_kind :: "io_error \<Rightarrow> failure_kind" where
  "io_failure_kind e =
     (case io_kind e of
        ConnectionRefused \<Rightarrow> Refused
      | TimedOut \<Rightarrow> Timeout
      | HostUnreachable \<Rightarrow> Unreachable
      | NetworkUnreachable \<Rightarrow> Unreachable
      | ConnectionReset \<Rightarrow> ConnectionLost
      | ConnectionAborted \<Rightarrow> ConnectionLost
      | NotConnected \<Rightarrow> ConnectionLost
      | BrokenPipe \<Rightarrow> ConnectionLost
      | _ \<Rightarrow> Other)"

fun core_failure_kind :: "core_error \<Rightarrow> failure_kind" where
  "core_failure_kind (CoreIo e) = io_failure_kind e"
| "core_failure_kind CoreTimeout = Timeout"
| "core_failure_kind (DnsError m) = Dns"
| "core_failure_kind (Inactive m) = Remote"
| "core_failure_kind _ = Other"

section \<open>The clock (time.rs)\<close>

text \<open>The system time is nanoseconds since the epoch, before which the code answers 0.\<close>

definition unix_seconds :: "int \<Rightarrow> u64" where
  "unix_seconds nanos = (if nanos < 0 then 0 else word_of_int (nanos div 1000000000))"

lemma unix_seconds_mono:
  assumes "a \<le> b" "b < 1000000000 * 2 ^ 64"
  shows "unix_seconds a \<le> unix_seconds b"
proof (cases "a < 0")
  case False
  have "b div 1000000000 < 2 ^ 64" using assms(2) by simp
  moreover have "a div 1000000000 \<le> b div 1000000000" using assms(1) by (intro zdiv_mono1) simp_all
  moreover have "0 \<le> a div 1000000000" using False by (intro pos_imp_zdiv_nonneg_iff [THEN iffD2]) simp_all
  ultimately show ?thesis
    using False assms(1) by (simp add: unix_seconds_def word_le_def unsigned_of_int take_bit_int_eq_self)
qed (simp add: unix_seconds_def)

section \<open>Measured checks (probe/measurement.rs)\<close>

text \<open>
  \<open>outcome\<close> is what \<open>timeout(limit, f)\<close> answered, \<open>at\<close> the clock when it did and
  \<open>elapsed\<close> the milliseconds since the start, which the code truncates from 128 to 64 bits.
\<close>

definition measure_check ::
  "('e \<Rightarrow> failure_kind) \<Rightarrow> ('e \<Rightarrow> string) \<Rightarrow> probe_kind \<Rightarrow> string \<Rightarrow> string option \<Rightarrow> string
   \<Rightarrow> (json_value option, 'e) result timed \<Rightarrow> u64 \<Rightarrow> u128 \<Rightarrow> check_record" where
  "measure_check failure_kind display kind target label meth outcome at elapsed =
     (let (error, data) =
        (case outcome of
           Completed (Ok data) \<Rightarrow> (None, data)
         | Completed (Err e) \<Rightarrow> (Some (failure_kind e, display e), None)
         | Elapsed \<Rightarrow> (Some (Timeout, ''timeout''), None))
      in \<lparr>r_kind = kind, r_target = target, r_label = label, r_method = meth,
          r_observed_at = at,
          r_duration_ms = ucast elapsed,
          r_success = (error = None),
          r_error = map_option snd error,
          r_error_kind = map_option fst error,
          r_last_success_at = (if error = None then Some at else None),
          r_data = data\<rparr>)"

text \<open>
  What every consumer of a record relies on: success, the absence of an error and the
  absence of an error class agree; a failure carries no data and no success time.
\<close>

definition fresh_record :: "check_record \<Rightarrow> bool" where
  "fresh_record r \<longleftrightarrow>
     r_success r = (r_error r = None) \<and> r_success r = (r_error_kind r = None)
     \<and> r_last_success_at r = (if r_success r then Some (r_observed_at r) else None)
     \<and> (\<not> r_success r \<longrightarrow> r_data r = None)"

section \<open>The trait Classify\<close>

text \<open>
  \<open>measure\<close> is generic over errors that can say why a check failed. A provider also has a
  timeout of its own, which must be classed like the one \<open>measure\<close> reports itself.
\<close>

locale classify =
  fixes failure_kind :: "'e \<Rightarrow> failure_kind"
    and display :: "'e \<Rightarrow> string"
    and timed_out :: 'e
  assumes timed_out_kind: "failure_kind timed_out = Timeout"
begin

abbreviation checked ::
  "probe_kind \<Rightarrow> string \<Rightarrow> string option \<Rightarrow> string
   \<Rightarrow> (json_value option, 'e) result timed \<Rightarrow> u64 \<Rightarrow> u128 \<Rightarrow> check_record" where
  "checked \<equiv> measure_check failure_kind display"

lemma checked_fresh: "fresh_record (checked kind target label meth outcome at elapsed)"
  by (simp add: measure_check_def fresh_record_def split: timed.splits result.splits)

lemma checked_identity:
  "r_kind (checked kind target label meth outcome at elapsed) = kind"
  "r_target (checked kind target label meth outcome at elapsed) = target"
  "r_label (checked kind target label meth outcome at elapsed) = label"
  "r_method (checked kind target label meth outcome at elapsed) = meth"
  "r_observed_at (checked kind target label meth outcome at elapsed) = at"
  by (simp_all add: measure_check_def split_def Let_def)

lemma checked_success_iff:
  "r_success (checked kind target label meth outcome at elapsed) \<longleftrightarrow>
     (\<exists>data. outcome = Completed (Ok data))"
  by (simp add: measure_check_def split: timed.splits result.splits)

lemma checked_data:
  "r_data (checked kind target label meth (Completed (Ok data)) at elapsed) = data"
  by (simp add: measure_check_def)

lemma checked_error:
  "r_error (checked kind target label meth (Completed (Err e)) at elapsed) = Some (display e)"
  "r_error_kind (checked kind target label meth (Completed (Err e)) at elapsed) = Some (failure_kind e)"
  by (simp_all add: measure_check_def)

text \<open>The limit of the check and the timeout of the work inside it are told alike.\<close>

lemma both_timeouts_alike:
  "r_error_kind (checked kind target label meth Elapsed at elapsed) =
   r_error_kind (checked kind target label meth (Completed (Err timed_out)) at elapsed)"
  by (simp add: measure_check_def timed_out_kind)

end

interpretation core: classify core_failure_kind core_error_display CoreTimeout
  by unfold_locales simp

abbreviation core_check ::
  "probe_kind \<Rightarrow> string \<Rightarrow> string option \<Rightarrow> string
   \<Rightarrow> (json_value option, core_error) result timed \<Rightarrow> u64 \<Rightarrow> u128 \<Rightarrow> check_record" where
  "core_check \<equiv> measure_check core_failure_kind core_error_display"

end
