(* ===== verification/Exec.thy ===== *)
theory Exec
  imports Measure
begin

text \<open>
  Bounded command execution (\<open>exec.rs\<close>). The child process is the environment: what spawning
  answers, what its pipes deliver, and in which order its three futures (stdout, stderr,
  exit) and the deadline become ready. The definition returns the result, \<open>None\<close> when the
  future was dropped before it had one, together with the effects on processes.
\<close>

section \<open>Reading the output\<close>

text \<open>A pipe delivers its bytes and then end of file, or an error.\<close>

record pipe =
  p_bytes :: "u8 list"
  p_error :: "io_error option"

text \<open>\<open>take(OUTPUT_LIMIT + 1)\<close> stops before an error that lies behind the limit.\<close>

definition read_to_end :: "nat \<Rightarrow> pipe \<Rightarrow> (u8 list, core_error) result" where
  "read_to_end n p =
     (if length (p_bytes p) < n then
        (case p_error p of Some e \<Rightarrow> Err (CoreIo e) | None \<Rightarrow> Ok (p_bytes p))
      else Ok (take n (p_bytes p)))"

definition read_output :: "pipe \<Rightarrow> (u8 list, core_error) result" where
  "read_output p =
     and_then (read_to_end (OUTPUT_LIMIT + 1) p)
       (\<lambda>bytes. if length bytes > OUTPUT_LIMIT then Err OutputLimit else Ok bytes)"

lemma read_output_Ok_iff:
  "read_output p = Ok bs \<longleftrightarrow>
     bs = p_bytes p \<and> length bs \<le> OUTPUT_LIMIT \<and> p_error p = None"
  by (auto simp: read_output_def read_to_end_def split: option.splits if_splits)

section \<open>Waiting for the three futures\<close>

record exit_status =
  st_code :: "i32 option"
  st_signal :: "i32 option"

datatype join_event =
    StdoutDone | StderrDone | WaitDone "(exit_status, io_error) result" | Deadline

type_synonym joined = "u8 list option \<times> u8 list option \<times> exit_status option"

text \<open>
  \<open>timeout(.., try_join!(..))\<close>: the first error or the deadline ends it, and so does the
  last of the three successes. \<open>None\<close>: still waiting after these events.
\<close>

fun run_join ::
  "pipe \<Rightarrow> pipe \<Rightarrow> joined \<Rightarrow> join_event list
   \<Rightarrow> (u8 list \<times> u8 list \<times> exit_status, core_error) result option" where
  "run_join out err (Some a, Some b, Some s) es = Some (Ok (a, b, s))"
| "run_join out err (a, b, s) [] = None"
| "run_join out err (a, b, s) (StdoutDone # es) =
     (case read_output out of
        Err e \<Rightarrow> Some (Err e)
      | Ok bs \<Rightarrow> run_join out err (Some bs, b, s) es)"
| "run_join out err (a, b, s) (StderrDone # es) =
     (case read_output err of
        Err e \<Rightarrow> Some (Err e)
      | Ok bs \<Rightarrow> run_join out err (a, Some bs, s) es)"
| "run_join out err (a, b, s) (WaitDone w # es) =
     (case w of
        Err e \<Rightarrow> Some (Err (CoreIo e))
      | Ok st \<Rightarrow> run_join out err (a, b, Some st) es)"
| "run_join out err (a, b, s) (Deadline # es) = Some (Err CoreTimeout)"

section \<open>execute\<close>

record exec_env =
  ev_spawn :: "(nat, io_error) result"
  ev_stdout :: pipe
  ev_stderr :: pipe
  ev_order :: "join_event list"
  ev_elapsed :: u128

datatype exec_effect = Spawned nat string "string list" | KillGroup nat

text \<open>
  The process group is guarded from the spawn on: its \<open>Drop\<close> runs on every way out, also
  when the future itself is dropped.
\<close>

definition execute ::
  "exec_env \<Rightarrow> string \<Rightarrow> string list \<Rightarrow> u64
   \<Rightarrow> (exec_result, core_error) result option \<times> exec_effect list" where
  "execute env program args timeout_secs =
     (if \<not> (1 \<le> timeout_secs \<and> timeout_secs \<le> MAX_EXEC_SECONDS)
      then (Some (Err InvalidTimeout), [])
      else case ev_spawn env of
        Err e \<Rightarrow> (Some (Err (CoreIo e)), [])
      | Ok pid \<Rightarrow>
          (map_option
             (map_ok (\<lambda>(out, err, st).
                \<lparr>x_stdout = out, x_stderr = err, x_exit_code = st_code st,
                 x_signal = st_signal st, x_duration_ms = ucast (ev_elapsed env)\<rparr>))
             (run_join (ev_stdout env) (ev_stderr env) (None, None, None) (ev_order env)),
           [Spawned pid program args, KillGroup pid]))"

definition joined_ok :: "pipe \<Rightarrow> pipe \<Rightarrow> joined \<Rightarrow> bool" where
  "joined_ok out err j \<longleftrightarrow>
     (case j of (a, b, s) \<Rightarrow>
        (\<forall>x. a = Some x \<longrightarrow> read_output out = Ok x) \<and> (\<forall>x. b = Some x \<longrightarrow> read_output err = Ok x))"

lemma run_join_Ok:
  assumes "run_join out err j es = Some (Ok (x, y, st))" "joined_ok out err j"
  shows "read_output out = Ok x \<and> read_output err = Ok y"
  using assms
  by (induction out err j es rule: run_join.induct)
    (auto simp: joined_ok_def split: result.splits)

text \<open>
  Without an error and before the deadline, the order in which the three futures become
  ready does not show in the result.
\<close>

definition pending_events :: "joined \<Rightarrow> exit_status \<Rightarrow> join_event set" where
  "pending_events j st =
     (case j of (a, b, s) \<Rightarrow>
        (if a = None then {StdoutDone} else {}) \<union> (if b = None then {StderrDone} else {})
        \<union> (if s = None then {WaitDone (Ok st)} else {}))"

lemma run_join_any_order:
  assumes "read_output out = Ok x" "read_output err = Ok y"
    and "joined_ok out err j" "\<forall>s. snd (snd j) = Some s \<longrightarrow> s = st"
    and "set es \<subseteq> {StdoutDone, StderrDone, WaitDone (Ok st)}" "pending_events j st \<subseteq> set es"
  shows "run_join out err j es = Some (Ok (x, y, st))"
  using assms
  by (induction out err j es rule: run_join.induct)
    (auto simp: joined_ok_def pending_events_def split: if_splits option.splits)

section \<open>Properties\<close>


definition sample_env :: exec_env where
  "sample_env =
     \<lparr>ev_spawn = Ok 41, ev_stdout = \<lparr>p_bytes = [104, 105], p_error = None\<rparr>,
      ev_stderr = \<lparr>p_bytes = [], p_error = None\<rparr>,
      ev_order = [WaitDone (Ok \<lparr>st_code = Some 7, st_signal = None\<rparr>), StderrDone, StdoutDone],
      ev_elapsed = 3\<rparr>"


text \<open>
  When all three futures succeed before the deadline, in whatever order and with
  repetitions, the result is the complete contents of both pipes and the exit status; and a
  result that is returned always holds the complete pipe contents, each within
  \<open>OUTPUT_LIMIT\<close>: output is never cut short silently.
\<close>

theorem exec_output_complete:
  "(1 \<le> secs \<and> secs \<le> MAX_EXEC_SECONDS \<and> ev_spawn env = Ok pid
     \<and> p_error (ev_stdout env) = None \<and> length (p_bytes (ev_stdout env)) \<le> OUTPUT_LIMIT
     \<and> p_error (ev_stderr env) = None \<and> length (p_bytes (ev_stderr env)) \<le> OUTPUT_LIMIT
     \<and> set (ev_order env) = {StdoutDone, StderrDone, WaitDone (Ok st)} \<longrightarrow>
       fst (execute env prog argv secs) = Some (Ok
         \<lparr>x_stdout = p_bytes (ev_stdout env), x_stderr = p_bytes (ev_stderr env),
          x_exit_code = st_code st, x_signal = st_signal st,
          x_duration_ms = ucast (ev_elapsed env)\<rparr>))
   \<and> (fst (execute env prog argv secs) = Some (Ok res) \<longrightarrow>
       x_stdout res = p_bytes (ev_stdout env) \<and> length (x_stdout res) \<le> OUTPUT_LIMIT
       \<and> x_stderr res = p_bytes (ev_stderr env) \<and> length (x_stderr res) \<le> OUTPUT_LIMIT)"
proof (intro conjI impI, goal_cases)
  case 1
  then have "run_join (ev_stdout env) (ev_stderr env) (None, None, None) (ev_order env) =
      Some (Ok (p_bytes (ev_stdout env), p_bytes (ev_stderr env), st))"
    by (intro run_join_any_order)
      (auto simp: read_output_Ok_iff joined_ok_def pending_events_def)
  with 1 show ?case by (simp add: execute_def)
next
  case 2
  then obtain st where
    "run_join (ev_stdout env) (ev_stderr env) (None, None, None) (ev_order env) =
       Some (Ok (x_stdout res, x_stderr res, st))"
    by (auto simp: execute_def result_simps split: if_splits result.splits)
  from run_join_Ok [OF this] have "read_output (ev_stdout env) = Ok (x_stdout res)"
    "read_output (ev_stderr env) = Ok (x_stderr res)"
    by (simp_all add: joined_ok_def)
  then show "x_stdout res = p_bytes (ev_stdout env)" "length (x_stdout res) \<le> OUTPUT_LIMIT"
    "x_stderr res = p_bytes (ev_stderr env)" "length (x_stderr res) \<le> OUTPUT_LIMIT"
    by (auto simp: read_output_Ok_iff)
qed

theorem exec_output_complete_witness:
  "fst (execute sample_env ''sh'' [] 2) = Some (Ok
     \<lparr>x_stdout = [104, 105], x_stderr = [], x_exit_code = Some 7, x_signal = None, x_duration_ms = 3\<rparr>)"
proof -
  have "fst (execute sample_env ''sh'' [] 2) = Some (Ok
         \<lparr>x_stdout = p_bytes (ev_stdout sample_env), x_stderr = p_bytes (ev_stderr sample_env),
          x_exit_code = st_code \<lparr>st_code = Some 7, st_signal = None\<rparr>,
          x_signal = st_signal \<lparr>st_code = Some 7, st_signal = None\<rparr>,
          x_duration_ms = ucast (ev_elapsed sample_env)\<rparr>)"
    by (rule exec_output_complete [of 2 sample_env 41, THEN conjunct1, THEN mp])
      (auto simp: sample_env_def limit_defs)
  then show ?thesis by (simp add: sample_env_def)
qed

text \<open>The same work without concurrency: one future after the other.\<close>

definition joined_in_turn ::
  "pipe \<Rightarrow> pipe \<Rightarrow> (exit_status, io_error) result
   \<Rightarrow> (u8 list \<times> u8 list \<times> exit_status, core_error) result" where
  "joined_in_turn out err waited =
     and_then (read_output out) (\<lambda>a.
     and_then (read_output err) (\<lambda>b. map_ok (\<lambda>s. (a, b, s)) (map_err CoreIo waited)))"

lemma run_join_error_cause:
  assumes "run_join out err j es = Some (Err e)" "set es \<subseteq> {StdoutDone, StderrDone, WaitDone w}"
  shows "read_output out = Err e \<or> read_output err = Err e \<or> map_err CoreIo w = Err e"
  using assms
  by (induction out err j es rule: run_join.induct) (auto split: result.splits)

text \<open>A future that fails never delivers, so the join ends with an error.\<close>

lemma run_join_stdout_fails:
  "StdoutDone \<in> set es \<Longrightarrow> read_output out = Err x \<Longrightarrow> fst j = None \<Longrightarrow>
     \<exists>e. run_join out err j es = Some (Err e)"
  by (induction out err j es rule: run_join.induct) (auto split: result.split)

lemma run_join_stderr_fails:
  "StderrDone \<in> set es \<Longrightarrow> read_output err = Err x \<Longrightarrow> fst (snd j) = None \<Longrightarrow>
     \<exists>e. run_join out err j es = Some (Err e)"
  by (induction out err j es rule: run_join.induct) (auto split: result.split)

lemma run_join_wait_fails:
  "WaitDone (Err x) \<in> set es \<Longrightarrow> \<forall>st. WaitDone (Ok st) \<notin> set es \<Longrightarrow> snd (snd j) = None \<Longrightarrow>
     \<exists>e. run_join out err j es = Some (Err e)"
  by (induction out err j es rule: run_join.induct) (auto split: result.split)

text \<open>
  C23. Reading both pipes and waiting for the child at the same time is the same as doing one
  after the other: whatever the order in which the three finish, the command succeeds exactly
  when all three do, with the same result; and when it fails, with the error of one of them.
\<close>

theorem exec_agrees_with_in_turn:
  assumes "set (ev_order env) = {StdoutDone, StderrDone, WaitDone w}"
    and "ev_spawn env = Ok pid" "1 \<le> secs" "secs \<le> MAX_EXEC_SECONDS"
  shows "case joined_in_turn (ev_stdout env) (ev_stderr env) w of
      Ok (out, err, st) \<Rightarrow> fst (execute env prog argv secs) = Some (Ok
         \<lparr>x_stdout = out, x_stderr = err, x_exit_code = st_code st, x_signal = st_signal st,
          x_duration_ms = ucast (ev_elapsed env)\<rparr>)
    | Err _ \<Rightarrow> (\<exists>e. fst (execute env prog argv secs) = Some (Err e)
         \<and> (read_output (ev_stdout env) = Err e \<or> read_output (ev_stderr env) = Err e
            \<or> map_err CoreIo w = Err e))"
proof (cases "joined_in_turn (ev_stdout env) (ev_stderr env) w")
  case (Ok v)
  then obtain out err st where v: "read_output (ev_stdout env) = Ok out"
    "read_output (ev_stderr env) = Ok err" "w = Ok st" "v = (out, err, st)"
    by (auto simp: joined_in_turn_def result_simps split: result.splits)
  have "run_join (ev_stdout env) (ev_stderr env) (None, None, None) (ev_order env) =
      Some (Ok (out, err, st))"
    by (rule run_join_any_order [OF v(1,2)])
      (use assms(1) v(3) in \<open>auto simp: joined_ok_def pending_events_def\<close>)
  then show ?thesis using Ok v(4) assms by (simp add: execute_def)
next
  case (Err x)
  then have "(\<exists>y. read_output (ev_stdout env) = Err y) \<or> (\<exists>y. read_output (ev_stderr env) = Err y)
      \<or> (\<exists>y. w = Err y)"
    by (auto simp: joined_in_turn_def result_simps split: result.splits)
  then obtain e where e:
    "run_join (ev_stdout env) (ev_stderr env) (None, None, None) (ev_order env) = Some (Err e)"
    using run_join_stdout_fails [of "ev_order env" "ev_stdout env" _ "(None, None, None)" "ev_stderr env"]
      run_join_stderr_fails [of "ev_order env" "ev_stderr env" _ "(None, None, None)" "ev_stdout env"]
      run_join_wait_fails [of _ "ev_order env" "(None, None, None)" "ev_stdout env" "ev_stderr env"]
      assms(1) by fastforce
  from run_join_error_cause [OF e, of w] assms(1) have
    "read_output (ev_stdout env) = Err e \<or> read_output (ev_stderr env) = Err e \<or> map_err CoreIo w = Err e"
    by auto
  then show ?thesis using Err e assms by (simp add: execute_def)
qed

theorem exec_agrees_with_in_turn_witness:
  "\<exists>x. fst (execute sample_env ''sh'' [] 2) = Some (Ok x) \<and> x_stdout x = [104, 105]"
proof -
  let ?st = "\<lparr>st_code = Some 7, st_signal = None\<rparr>"
  have "joined_in_turn (ev_stdout sample_env) (ev_stderr sample_env) (Ok ?st) = Ok ([104, 105], [], ?st)"
    by (simp add: joined_in_turn_def read_output_def read_to_end_def sample_env_def limit_defs)
  moreover have "set (ev_order sample_env) = {StdoutDone, StderrDone, WaitDone (Ok ?st)}"
    by (auto simp: sample_env_def)
  ultimately show ?thesis
    using exec_agrees_with_in_turn [of sample_env "Ok ?st" 41 2 "''sh''" "[]"]
    by (simp add: limit_defs sample_env_def)
qed

end
