(* ===== verification/Checks.thy ===== *)
theory Checks
  imports Exec
begin

text \<open>
  The immediate checks of \<open>sshe-core\<close>: their configuration (\<open>config.rs\<close>), the network group
  (\<open>probe/network.rs\<close>), the service group (\<open>probe/services.rs\<close>) and the host check
  (\<open>probe/host.rs\<close>) with its procfs parsers. Each check sees the environment through an
  observation: what the awaited work answered within the limit, and when.
\<close>

section \<open>Configuration (config.rs)\<close>

definition MAX_PROBE_TIMEOUT_SECS :: u64 where
  "MAX_PROBE_TIMEOUT_SECS = 10"

definition MAX_PEER_TIMEOUT_SECS :: u64 where
  "MAX_PEER_TIMEOUT_SECS = 45"

record network_targets =
  domains :: "string list"
  tcp :: "string list"

record probe_config =
  timeout_secs :: u64
  peer_timeout_secs :: u64
  wan :: network_targets
  lan :: network_targets
  services :: "(string, string) btree_map"

definition network_targets_default :: network_targets where
  "network_targets_default = \<lparr>domains = [], tcp = []\<rparr>"

definition probe_config_default :: probe_config where
  "probe_config_default =
     \<lparr>timeout_secs = 5, peer_timeout_secs = 15, wan = network_targets_default,
      lan = network_targets_default, services = bt_empty\<rparr>"

definition probe_timeout :: "probe_config \<Rightarrow> duration" where
  "probe_timeout c = from_secs (unat (timeout_secs c))"

definition peer_timeout :: "probe_config \<Rightarrow> duration" where
  "peer_timeout c = from_secs (unat (peer_timeout_secs c))"

section \<open>Network checks (probe/network.rs)\<close>

record 'a observation =
  ob_answer :: "'a timed"
  ob_at :: u64
  ob_elapsed :: u128

fun map_timed :: "('a \<Rightarrow> 'b) \<Rightarrow> 'a timed \<Rightarrow> 'b timed" where
  "map_timed f Elapsed = Elapsed"
| "map_timed f (Completed x) = Completed (f x)"

record net_env =
  lookup_host :: "string \<Rightarrow> (string list, string) result observation"
  connect_tcp :: "string \<Rightarrow> (unit, io_error) result observation"

definition dns_answer :: "(string list, string) result \<Rightarrow> (json_value option, core_error) result" where
  "dns_answer r =
     and_then (map_err DnsError r)
       (\<lambda>addresses.
          if addresses = [] then Err (DnsError ''no addresses returned'')
          else Ok (Some (JArray (map JString addresses))))"

definition dns_check :: "net_env \<Rightarrow> probe_kind \<Rightarrow> string \<Rightarrow> check_record" where
  "dns_check env kind domain =
     (let ob = lookup_host env domain in
      core_check kind domain None ''dns'' (map_timed dns_answer (ob_answer ob))
        (ob_at ob) (ob_elapsed ob))"

definition tcp_check :: "net_env \<Rightarrow> probe_kind \<Rightarrow> string \<Rightarrow> check_record" where
  "tcp_check env kind target =
     (let ob = connect_tcp env target in
      core_check kind target None ''tcp''
        (map_timed (\<lambda>r. map_ok (\<lambda>_. None) (map_err CoreIo r)) (ob_answer ob))
        (ob_at ob) (ob_elapsed ob))"

definition network :: "net_env \<Rightarrow> network_targets \<Rightarrow> probe_kind \<Rightarrow> check_record list" where
  "network env targets kind =
     map (dns_check env kind) (domains targets) @ map (tcp_check env kind) (tcp targets)"

section \<open>Service checks (probe/services.rs)\<close>

text \<open>
  \<open>sv_connect\<close> and \<open>sv_process\<close> are the environment of one check; \<open>sv_expired\<close> says that the
  limit of the check passed before its work was done. \<open>sv_text\<close> is \<open>from_utf8_lossy\<close>.
\<close>

record service_env =
  sv_connect :: "string \<Rightarrow> (unit, io_error) result"
  sv_process :: "string \<Rightarrow> exec_env"
  sv_expired :: "string \<Rightarrow> bool"
  sv_at :: "string \<Rightarrow> u64"
  sv_elapsed :: "string \<Rightarrow> u128"
  sv_text :: "u8 list \<Rightarrow> string"

definition systemctl_timeout :: "duration \<Rightarrow> u64" where
  "systemctl_timeout limit = word_of_nat (max (as_secs limit) 1)"

definition service_work ::
  "service_env \<Rightarrow> string \<Rightarrow> duration \<Rightarrow> (json_value option, core_error) result option" where
  "service_work env target limit =
     (case strip_prefix target ''tcp:'' of
        Some address \<Rightarrow> Some (map_ok (\<lambda>_. None) (map_err CoreIo (sv_connect env address)))
      | None \<Rightarrow>
          (case strip_prefix target ''systemd:'' of
             Some u \<Rightarrow>
               map_option
                 (\<lambda>r. and_then r
                    (\<lambda>output.
                       if x_exit_code output \<noteq> Some 0
                       then Err (Inactive (''unit inactive: '' @ trim (sv_text env (x_stdout output))))
                       else Ok None))
                 (fst (execute (sv_process env u) ''systemctl'' [''is-active'', ''--'', u]
                         (systemctl_timeout limit)))
           | None \<Rightarrow> Some (Err (CoreInvalid (''unsupported service check: '' @ target)))))"

definition service_check :: "service_env \<Rightarrow> duration \<Rightarrow> string \<times> string \<Rightarrow> check_record" where
  "service_check env limit =
     (\<lambda>(name, target).
        core_check Services target (Some name) ''service''
          (if sv_expired env name then Elapsed
           else case service_work env target limit of None \<Rightarrow> Elapsed | Some r \<Rightarrow> Completed r)
          (sv_at env name) (sv_elapsed env name))"

definition check_services ::
  "service_env \<Rightarrow> (string, string) btree_map \<Rightarrow> duration \<Rightarrow> check_record list" where
  "check_services env svcs limit = map (service_check env limit) svcs"

section \<open>The host check (probe/host.rs)\<close>

record 'f load_avg =
  la_one :: 'f
  la_five :: 'f
  la_fifteen :: 'f

record memory =
  total_bytes :: u64
  available_bytes :: u64
  swap_total_bytes :: u64
  swap_free_bytes :: u64

record disk =
  disk_total_bytes :: u64
  disk_available_bytes :: u64

record 'f host_info =
  hostname :: string
  uptime_seconds :: 'f
  loadavg :: "'f load_avg"
  memory :: memory
  root_disk :: disk

text \<open>Floating-point numbers are opaque: \<open>parse_f64\<close> stands for \<open>str::parse::<f64>\<close>.\<close>

definition invalid :: "string \<Rightarrow> core_error" where
  "invalid what = CoreInvalid (''unexpected '' @ what @ '' format'')"

definition parse_uptime :: "(string \<Rightarrow> 'f option) \<Rightarrow> string \<Rightarrow> ('f, core_error) result" where
  "parse_uptime parse_f64 text =
     ok_or
       (case split_whitespace text of [] \<Rightarrow> None | s # _ \<Rightarrow> parse_f64 s)
       (invalid ''/proc/uptime'')"

text \<open>The iterator of fields, and the closure that takes the next one.\<close>

definition next_field ::
  "(string \<Rightarrow> 'f option) \<Rightarrow> string list \<Rightarrow> ('f \<times> string list, core_error) result" where
  "next_field parse_f64 fs =
     (case fs of
        [] \<Rightarrow> Err (invalid ''/proc/loadavg'')
      | s # rest \<Rightarrow> map_ok (\<lambda>v. (v, rest)) (ok_or (parse_f64 s) (invalid ''/proc/loadavg'')))"

definition parse_loadavg ::
  "(string \<Rightarrow> 'f option) \<Rightarrow> string \<Rightarrow> ('f load_avg, core_error) result" where
  "parse_loadavg parse_f64 text =
     and_then (next_field parse_f64 (split_whitespace text)) (\<lambda>(a, fs).
     and_then (next_field parse_f64 fs) (\<lambda>(b, fs).
     and_then (next_field parse_f64 fs) (\<lambda>(c, fs).
       Ok \<lparr>la_one = a, la_five = b, la_fifteen = c\<rparr>)))"

fun find_map :: "('a \<Rightarrow> 'b option) \<Rightarrow> 'a list \<Rightarrow> 'b option" where
  "find_map f [] = None"
| "find_map f (x # xs) = (case f x of None \<Rightarrow> find_map f xs | Some y \<Rightarrow> Some y)"

text \<open>The multiplication by 1024 wraps in the release profile.\<close>

definition meminfo_field :: "string \<Rightarrow> string \<Rightarrow> (u64, core_error) result" where
  "meminfo_field text name =
     ok_or
       (map_option (\<lambda>kib. kib * 1024)
          (Option.bind
             (find_map
                (\<lambda>line. Option.bind (strip_prefix line name) (\<lambda>rest. strip_prefix rest '':''))
                (lines text))
             (\<lambda>v. Option.bind (strip_suffix (trim v) ''kB'') (\<lambda>n. parse_u64 (trim n)))))
       (CoreInvalid (''/proc/meminfo lacks '' @ name))"

definition parse_meminfo :: "string \<Rightarrow> (memory, core_error) result" where
  "parse_meminfo text =
     and_then (meminfo_field text ''MemTotal'') (\<lambda>total.
     and_then (meminfo_field text ''MemAvailable'') (\<lambda>available.
     and_then (meminfo_field text ''SwapTotal'') (\<lambda>swap_total.
     and_then (meminfo_field text ''SwapFree'') (\<lambda>swap_free.
       Ok \<lparr>total_bytes = total, available_bytes = available,
           swap_total_bytes = swap_total, swap_free_bytes = swap_free\<rparr>))))"

record statvfs =
  sf_blocks :: u64
  sf_blocks_available :: u64
  sf_fragment_size :: u64

record host_files =
  f_hostname :: "(string, io_error) result"
  f_uptime :: "(string, io_error) result"
  f_loadavg :: "(string, io_error) result"
  f_meminfo :: "(string, io_error) result"
  f_statvfs :: "(statvfs, string) result"

definition host ::
  "(string \<Rightarrow> 'f option) \<Rightarrow> host_files \<Rightarrow> ('f host_info, core_error) result" where
  "host parse_f64 files =
     and_then (map_err CoreIo (f_hostname files)) (\<lambda>hostname_text.
     and_then (map_err CoreIo (f_uptime files)) (\<lambda>uptime.
     and_then (map_err CoreIo (f_loadavg files)) (\<lambda>load.
     and_then (map_err CoreIo (f_meminfo files)) (\<lambda>meminfo.
     and_then (map_err System (f_statvfs files)) (\<lambda>d.
     and_then (parse_uptime parse_f64 uptime) (\<lambda>up.
     and_then (parse_loadavg parse_f64 load) (\<lambda>avg.
     and_then (parse_meminfo meminfo) (\<lambda>mem.
       Ok \<lparr>hostname = trim hostname_text, uptime_seconds = up, loadavg = avg, memory = mem,
           root_disk =
             \<lparr>disk_total_bytes = sf_blocks d * sf_fragment_size d,
              disk_available_bytes = sf_blocks_available d * sf_fragment_size d\<rparr>\<rparr>))))))))"

text \<open>\<open>to_value\<close> is the serialiser; \<open>expired\<close> says that the limit passed first.\<close>

definition host_probe ::
  "('f host_info \<Rightarrow> (json_value, string) result) \<Rightarrow> (string \<Rightarrow> 'f option) \<Rightarrow> host_files
   \<Rightarrow> bool \<Rightarrow> u64 \<Rightarrow> u128 \<Rightarrow> check_record list" where
  "host_probe to_value parse_f64 files expired at elapsed =
     [core_check Host ''host'' None ''procfs''
        (if expired then Elapsed
         else Completed
           (and_then (host parse_f64 files)
              (\<lambda>info. map_ok Some (map_err CoreJson (to_value info)))))
        at elapsed]"

section \<open>Lemmas\<close>

lemmas check_defs = network_def dns_check_def tcp_check_def check_services_def service_check_def
  host_probe_def Let_def

lemma service_check_identity:
  "r_target (service_check env limit p) = snd p"
  "r_label (service_check env limit p) = Some (fst p)"
  "r_kind (service_check env limit p) = Services"
  by (simp_all add: service_check_def split_def core.checked_identity)

lemma service_check_fresh: "fresh_record (service_check env limit p)"
  by (simp add: service_check_def split_def core.checked_fresh)

lemma systemctl_timeout_range:
  assumes "1 \<le> timeout_secs c" "timeout_secs c \<le> MAX_PROBE_TIMEOUT_SECS"
  shows "systemctl_timeout (probe_timeout c) = timeout_secs c"
proof -
  have "1 \<le> unat (timeout_secs c)"
    using assms(1) by (simp add: word_le_nat_alt)
  then show ?thesis by (simp add: systemctl_timeout_def probe_timeout_def max_def)
qed

lemma execute_not_invalid:
  assumes "1 \<le> secs" "secs \<le> MAX_EXEC_SECONDS"
  shows "fst (execute env prog argv secs) \<noteq> Some (Err InvalidTimeout)"
proof -
  have ro: "read_output p \<noteq> Err InvalidTimeout" for p
    by (auto simp: read_output_def read_to_end_def split: option.splits)
  have "run_join out err j es \<noteq> Some (Err InvalidTimeout)" for out err j es
    by (induction out err j es rule: run_join.induct) (auto simp: ro split: result.splits)
  then show ?thesis
    using assms by (auto simp: execute_def result_simps split: result.splits)
qed

subsection \<open>Reading meminfo\<close>

text \<open>A line as the kernel prints it: name, colon, padding, kibibytes.\<close>

definition meminfo_line :: "string \<times> nat \<times> nat \<Rightarrow> string" where
  "meminfo_line = (\<lambda>(name, pad, n). name @ '':'' @ replicate pad CHR '' '' @ show_nat n @ '' kB'')"

definition meminfo_name :: "string \<Rightarrow> bool" where
  "meminfo_name name \<longleftrightarrow> CHR '':'' \<notin> set name \<and> nl \<notin> set name"

lemma append_separator_eq:
  assumes "c \<notin> set a" "c \<notin> set b" "a @ c # s = b @ c # t"
  shows "a = b \<and> s = t"
  using assms by (induction a arbitrary: b) (auto simp: Cons_eq_append_conv append_eq_Cons_conv)

lemma meminfo_line_plain: "meminfo_name (fst e) \<Longrightarrow> plain_line (meminfo_line e)"
  using show_nat_no_whitespace [of nl "snd (snd e)"]
  by (auto simp: meminfo_line_def plain_line_def meminfo_name_def split_def is_whitespace_def)

lemma meminfo_line_strip:
  assumes "meminfo_name name" "meminfo_name (fst e)"
  shows "Option.bind (strip_prefix (meminfo_line e) name) (\<lambda>rest. strip_prefix rest '':'') =
      (if fst e = name then Some (replicate (fst (snd e)) CHR '' '' @ show_nat (snd (snd e)) @ '' kB'')
       else None)" (is "?l = ?r")
proof -
  obtain a pad n where e: "e = (a, pad, n)" by (metis surj_pair)
  have "?l = Some t \<longleftrightarrow> ?r = Some t" for t
  proof -
    have "?l = Some t \<longleftrightarrow> meminfo_line e = name @ CHR '':'' # t"
      by (auto simp: bind_eq_Some_conv text_simps)
    also have "\<dots> \<longleftrightarrow> a = name \<and> t = replicate pad CHR '' '' @ show_nat n @ '' kB''"
      using assms append_separator_eq [of "CHR '':''" a name]
      by (auto simp: meminfo_line_def e meminfo_name_def)
    finally show ?thesis by (auto simp: e)
  qed
  then show ?thesis by (metis option.exhaust)
qed

lemma meminfo_value:
  "Option.bind (strip_suffix (trim (replicate pad CHR '' '' @ show_nat n @ '' kB'')) ''kB'')
     (\<lambda>v. parse_u64 (trim v)) = parse_u64 (show_nat n)"
proof -
  have ws: "is_whitespace CHR '' ''" by (simp add: is_whitespace_def)
  have "trim (replicate pad CHR '' '' @ show_nat n @ '' kB'') = trim ((show_nat n @ '' '') @ ''kB'')"
    using ws by (simp add: trim_leading)
  also have "\<dots> = (show_nat n @ '' '') @ ''kB''"
  proof (rule trim_none)
    have "hd (show_nat n @ '' kB'') = hd (show_nat n)" by simp
    moreover have "\<not> is_whitespace (hd (show_nat n))"
      using show_nat_no_whitespace [of "hd (show_nat n)" n] by simp
    ultimately show "(show_nat n @ '' '') @ ''kB'' = [] \<or>
        \<not> is_whitespace (hd ((show_nat n @ '' '') @ ''kB'')) \<and>
        \<not> is_whitespace (last ((show_nat n @ '' '') @ ''kB''))"
      by (simp add: is_whitespace_def)
  qed
  finally have "strip_suffix (trim (replicate pad CHR '' '' @ show_nat n @ '' kB'')) ''kB'' =
      Some (show_nat n @ '' '')"
    by (simp only: strip_suffix_append)
  moreover have "trim (show_nat n @ '' '') = show_nat n"
    using trim_trailing [of "'' ''" "show_nat n"] ws by (simp add: trim_show_nat)
  ultimately show ?thesis by simp
qed

lemma find_map_lines:
  assumes "meminfo_name name" "\<forall>e \<in> set es. meminfo_name (fst e)"
  shows "find_map (\<lambda>line. Option.bind (strip_prefix line name) (\<lambda>rest. strip_prefix rest '':''))
            (map meminfo_line es) =
         map_option (\<lambda>(pad, n). replicate pad CHR '' '' @ show_nat n @ '' kB'') (map_of es name)"
  using assms(2)
proof (induction es)
  case Nil
  then show ?case by simp
next
  case (Cons e es)
  with assms(1) show ?case by (cases e) (simp add: meminfo_line_strip split_def)
qed

lemma meminfo_field_lines:
  assumes "meminfo_name name" "\<forall>e \<in> set es. meminfo_name (fst e)"
  shows "meminfo_field (unlines (map meminfo_line es)) name =
      (case map_of es name of
         Some (pad, n) \<Rightarrow>
           ok_or (map_option (\<lambda>k. k * 1024) (parse_u64 (show_nat n)))
             (CoreInvalid (''/proc/meminfo lacks '' @ name))
       | None \<Rightarrow> Err (CoreInvalid (''/proc/meminfo lacks '' @ name)))"
proof -
  have "lines (unlines (map meminfo_line es)) = map meminfo_line es"
    using assms(2) by (intro lines_unlines) (auto simp: meminfo_line_plain)
  then show ?thesis
    using assms
    by (auto simp: meminfo_field_def find_map_lines meminfo_value split: option.splits)
qed

section \<open>Properties\<close>

text \<open>
  Every group of checks reports exactly one record per configured item, in the order of
  the configuration (DNS before TCP, services by name), under the right kind, target and
  label, and every record is well formed: success, error and error class agree, and a
  failure carries neither data nor a success time. A DNS answer without addresses is a
  failure of class \<open>Dns\<close>, not an empty success.
\<close>

theorem check_groups_report_every_item:
  "map r_target (network nenv targets kind) = domains targets @ tcp targets
   \<and> map r_method (network nenv targets kind) =
       replicate (length (domains targets)) ''dns'' @ replicate (length (tcp targets)) ''tcp''
   \<and> (\<forall>r \<in> set (network nenv targets kind). r_kind r = kind \<and> fresh_record r)
   \<and> map r_target (check_services senv svcs limit) = map snd svcs
   \<and> map r_label (check_services senv svcs limit) = map (\<lambda>p. Some (fst p)) svcs
   \<and> (\<forall>r \<in> set (check_services senv svcs limit). r_kind r = Services \<and> fresh_record r)
   \<and> (\<forall>r \<in> set (host_probe to_value parse_f64 files expired at elapsed).
        r_kind r = Host \<and> fresh_record r)
   \<and> (ob_answer (lookup_host nenv d) = Completed (Ok []) \<longrightarrow>
        r_error_kind (dns_check nenv kind d) = Some Dns)"
proof (intro conjI impI)
  assume "ob_answer (lookup_host nenv d) = Completed (Ok [])"
  then show "r_error_kind (dns_check nenv kind d) = Some Dns"
    by (simp add: dns_check_def dns_answer_def core.checked_error Let_def)
qed (auto simp: check_defs core.checked_identity core.checked_fresh comp_def map_replicate_const
        split_def)

definition quiet_net :: net_env where
  "quiet_net =
     \<lparr>lookup_host = (\<lambda>_. \<lparr>ob_answer = Completed (Ok []), ob_at = 9, ob_elapsed = 1\<rparr>),
      connect_tcp = (\<lambda>_. \<lparr>ob_answer = Elapsed, ob_at = 9, ob_elapsed = 1\<rparr>)\<rparr>"

theorem check_groups_report_every_item_witness:
  "r_error_kind (dns_check quiet_net Wan ''example.com'') = Some Dns"
proof -
  have "ob_answer (lookup_host quiet_net ''example.com'') = Completed (Ok [])"
    by (simp add: quiet_net_def)
  with check_groups_report_every_item [where nenv = quiet_net and d = "''example.com''" and kind = Wan]
  show ?thesis by blast
qed

text \<open>
  For every service limit the configuration allows, the \<open>systemctl\<close> call gets exactly
  that limit as its own timeout, which \<open>execute\<close> accepts: a service check never fails because
  its timeout is out of range.
\<close>

theorem systemctl_timeout_accepted:
  assumes "1 \<le> timeout_secs c" "timeout_secs c \<le> MAX_PROBE_TIMEOUT_SECS"
  shows "systemctl_timeout (probe_timeout c) = timeout_secs c
         \<and> fst (execute env prog argv (systemctl_timeout (probe_timeout c))) \<noteq> Some (Err InvalidTimeout)"
proof -
  have "timeout_secs c \<le> MAX_EXEC_SECONDS"
    using assms(2) by (rule order_trans) (simp add: MAX_PROBE_TIMEOUT_SECS_def MAX_EXEC_SECONDS_def)
  with assms show ?thesis by (simp add: systemctl_timeout_range execute_not_invalid)
qed

theorem systemctl_timeout_accepted_witness:
  "systemctl_timeout (probe_timeout probe_config_default) = timeout_secs probe_config_default
   \<and> fst (execute sample_env ''systemctl'' [''is-active'', ''--'', ''ssh'']
     (systemctl_timeout (probe_timeout probe_config_default))) \<noteq> Some (Err InvalidTimeout)"
  by (rule systemctl_timeout_accepted)
    (simp_all add: probe_config_default_def MAX_PROBE_TIMEOUT_SECS_def)

text \<open>
  \<open>parse_meminfo\<close> inverts the kernel's printing: from a \<open>/proc/meminfo\<close> of lines
  \<open>name: <padding> n kB\<close> it reads the four fields by their exact names, wherever they stand
  and whatever other lines there are, as bytes, without overflow below \<open>2 ^ 54\<close> kibibytes;
  a missing field is an error that names it.
\<close>

theorem parse_meminfo_inverts_print:
  assumes names: "\<forall>e \<in> set es. meminfo_name (fst e)"
  shows "(map_of es ''MemTotal'' = Some (p1, t) \<and> map_of es ''MemAvailable'' = Some (p2, a)
          \<and> map_of es ''SwapTotal'' = Some (p3, st) \<and> map_of es ''SwapFree'' = Some (p4, sf)
          \<and> max t (max a (max st sf)) < 2 ^ 54 \<longrightarrow>
            (\<exists>m. parse_meminfo (unlines (map meminfo_line es)) = Ok m
              \<and> unat (total_bytes m) = 1024 * t \<and> unat (available_bytes m) = 1024 * a
              \<and> unat (swap_total_bytes m) = 1024 * st \<and> unat (swap_free_bytes m) = 1024 * sf))
         \<and> (map_of es ''MemTotal'' = None \<longrightarrow>
            parse_meminfo (unlines (map meminfo_line es)) =
              Err (CoreInvalid ''/proc/meminfo lacks MemTotal''))"
proof (intro conjI impI, goal_cases)
  case 1
  have name: "meminfo_name ''MemTotal''" "meminfo_name ''MemAvailable''"
    "meminfo_name ''SwapTotal''" "meminfo_name ''SwapFree''"
    by (simp_all add: meminfo_name_def)
  have u: "unat (word_of_nat n * 1024 :: u64) = 1024 * n" if "n < 2 ^ 54" for n
    using that by (simp add: unat_word_ariths unsigned_of_nat take_bit_eq_mod mult.commute)
  from 1 have b: "t < 2 ^ 54" "a < 2 ^ 54" "st < 2 ^ 54" "sf < 2 ^ 54" by simp_all
  have p: "parse_u64 (show_nat n) = Some (word_of_nat n)" if "n < 2 ^ 54" for n
    using that by (intro parse_u64_show_nat) simp
  show ?case
    using 1 b by (simp add: parse_meminfo_def meminfo_field_lines [OF _ names] name p u)
next
  case 2
  then show ?case
    by (simp add: parse_meminfo_def meminfo_field_lines [OF _ names] meminfo_name_def)
qed

theorem parse_meminfo_inverts_print_witness:
  "\<exists>m. parse_meminfo (unlines (map meminfo_line
          [(''MemTotal'', 7, 16000), (''MemFree'', 2, 1), (''MemAvailable'', 4, 8000),
           (''SwapTotal'', 2, 0), (''SwapFree'', 2, 0)])) = Ok m
      \<and> unat (total_bytes m) = 1024 * 16000 \<and> unat (available_bytes m) = 1024 * 8000
      \<and> unat (swap_total_bytes m) = 1024 * 0 \<and> unat (swap_free_bytes m) = 1024 * 0"
  by (rule parse_meminfo_inverts_print [THEN conjunct1, THEN mp]) (simp_all add: meminfo_name_def)

end
