(* ===== verification/Codec.thy ===== *)
theory Codec
  imports Protocol
begin

text \<open>
  \<open>codec.rs\<close>: one message is a big-endian 32-bit length followed by that many bytes of
  JSON. \<open>to_json\<close> and \<open>from_json\<close> stand for \<open>serde_json::to_vec\<close> and \<open>from_slice\<close>. The lemmas
  give the exact bytes of a frame, the round trip of a sequence of frames on one stream, and
  the bound on what a reader takes in.
\<close>

datatype protocol_error = FrameTooLarge | FrameIo io_error | Json string

type_synonym 'a serialiser = "'a \<Rightarrow> (u8 list, string) result"
type_synonym 'a deserialiser = "u8 list \<Rightarrow> ('a, string) result"

definition read_frame ::
  "'a deserialiser \<Rightarrow> reader \<Rightarrow> ('a, protocol_error) result \<times> reader" where
  "read_frame from_json r =
     (case read_exact 4 r of
        (Err e, r1) \<Rightarrow> (Err (FrameIo e), r1)
      | (Ok header, r1) \<Rightarrow>
          let len = unat (u32_from_be header) in
          if len > MAX_FRAME then (Err FrameTooLarge, r1)
          else case read_exact len r1 of
            (Err e, r2) \<Rightarrow> (Err (FrameIo e), r2)
          | (Ok bytes, r2) \<Rightarrow> (map_err Json (from_json bytes), r2))"

definition write_frame ::
  "'a serialiser \<Rightarrow> 'a \<Rightarrow> writer \<Rightarrow> (unit, protocol_error) result \<times> writer" where
  "write_frame to_json v w =
     (case to_json v of
        Err e \<Rightarrow> (Err (Json e), w)
      | Ok bytes \<Rightarrow>
          if length bytes > MAX_FRAME then (Err FrameTooLarge, w)
          else case write_all (u32_to_be (word_of_nat (length bytes))) w of
            (Err e, w1) \<Rightarrow> (Err (FrameIo e), w1)
          | (Ok _, w1) \<Rightarrow>
              (case write_all bytes w1 of
                 (Err e, w2) \<Rightarrow> (Err (FrameIo e), w2)
               | (Ok _, w2) \<Rightarrow> (map_err FrameIo (wr_flush w2), w2)))"

definition frame_bytes :: "u8 list \<Rightarrow> u8 list" where
  "frame_bytes bytes = u32_to_be (word_of_nat (length bytes)) @ bytes"

definition serialises :: "'a serialiser \<Rightarrow> 'a deserialiser \<Rightarrow> 'a \<Rightarrow> u8 list \<Rightarrow> bool" where
  "serialises to_json from_json v bytes \<longleftrightarrow>
     to_json v = Ok bytes \<and> length bytes \<le> MAX_FRAME \<and> from_json bytes = Ok v"

lemma MAX_FRAME_fits_u32: "n \<le> MAX_FRAME \<Longrightarrow> unat (word_of_nat n :: u32) = n"
  by (simp add: unat_of_nat_u32 MAX_FRAME_def)

lemma write_frame_open:
  assumes "wr_room w = None" "wr_flush w = Ok ()" "to_json v = Ok bytes" "length bytes \<le> MAX_FRAME"
  shows "write_frame to_json v w = (Ok (), w\<lparr>wr_sent := wr_sent w @ frame_bytes bytes\<rparr>)"
  using assms by (simp add: write_frame_def write_all_open frame_bytes_def)

lemma read_frame_bytes:
  assumes "rd_bytes r = frame_bytes bytes @ rest" "length bytes \<le> MAX_FRAME"
  shows "read_frame from_json r = (map_err Json (from_json bytes), r\<lparr>rd_bytes := rest\<rparr>)"
proof -
  have "read_exact 4 r = (Ok (u32_to_be (word_of_nat (length bytes))), r\<lparr>rd_bytes := bytes @ rest\<rparr>)"
    using assms(1) by (intro read_exact_append) (simp_all add: frame_bytes_def)
  moreover have "read_exact (length bytes) (r\<lparr>rd_bytes := bytes @ rest\<rparr>) = (Ok bytes, r\<lparr>rd_bytes := rest\<rparr>)"
    by (subst read_exact_append [where bs = bytes and rest = rest]) simp_all
  ultimately show ?thesis
    using assms(2) by (simp add: read_frame_def u32_from_to_be MAX_FRAME_fits_u32)
qed

text \<open>Several messages on one stream, written one after the other and read back in order.\<close>

fun write_frames :: "'a serialiser \<Rightarrow> 'a list \<Rightarrow> writer \<Rightarrow> (unit, protocol_error) result \<times> writer" where
  "write_frames to_json [] w = (Ok (), w)"
| "write_frames to_json (v # vs) w =
     (case write_frame to_json v w of
        (Err e, w1) \<Rightarrow> (Err e, w1)
      | (Ok _, w1) \<Rightarrow> write_frames to_json vs w1)"

fun read_frames :: "'a deserialiser \<Rightarrow> nat \<Rightarrow> reader \<Rightarrow> ('a list, protocol_error) result \<times> reader" where
  "read_frames from_json 0 r = (Ok [], r)"
| "read_frames from_json (Suc n) r =
     (case read_frame from_json r of
        (Err e, r1) \<Rightarrow> (Err e, r1)
      | (Ok v, r1) \<Rightarrow>
          (case read_frames from_json n r1 of
             (Err e, r2) \<Rightarrow> (Err e, r2)
           | (Ok vs, r2) \<Rightarrow> (Ok (v # vs), r2)))"

lemma write_frames_open:
  assumes "wr_room w = None" "wr_flush w = Ok ()" "list_all2 (serialises to_json from_json) vs bs"
  shows "write_frames to_json vs w =
           (Ok (), w\<lparr>wr_sent := wr_sent w @ concat (map frame_bytes bs)\<rparr>)"
  using assms(3,1,2)
proof (induction vs bs arbitrary: w rule: list_all2_induct)
  case Nil
  then show ?case by simp
next
  case (Cons v vs b bs)
  then show ?case by (simp add: write_frame_open [where bytes = b] serialises_def)
qed

lemma read_frames_bytes:
  assumes "list_all2 (serialises to_json from_json) vs bs"
    and "rd_bytes r = concat (map frame_bytes bs) @ rest"
  shows "read_frames from_json (length vs) r = (Ok vs, r\<lparr>rd_bytes := rest\<rparr>)"
  using assms
proof (induction vs bs arbitrary: r rule: list_all2_induct)
  case Nil
  then show ?case by simp
next
  case (Cons v vs b bs)
  have "read_frame from_json r =
      (Ok v, r\<lparr>rd_bytes := concat (map frame_bytes bs) @ rest\<rparr>)"
    using Cons.prems Cons.hyps(1)
    by (subst read_frame_bytes [where bytes = b]) (simp_all add: serialises_def)
  then show ?case by (simp add: Cons.IH)
qed

text \<open>Whatever the stream holds, one read takes at most a header and a frame of it.\<close>

lemma read_exact_consumes: "length (rd_bytes r) - length (rd_bytes (snd (read_exact n r))) \<le> n"
  by (auto simp: read_exact.simps)

lemma read_exact_suffix: "\<exists>k. rd_bytes (snd (read_exact n r)) = drop k (rd_bytes r)"
  by (auto simp: read_exact.simps intro: exI [of _ n] exI [of _ "length (rd_bytes r)"])

lemma read_frame_consumes:
  assumes "read_frame from_json r = (res, r')"
  shows "length (rd_bytes r) - length (rd_bytes r') \<le> 4 + MAX_FRAME"
proof (cases "read_exact 4 r")
  case (Pair h r1)
  note one = read_exact_consumes [of r 4, unfolded Pair]
  show ?thesis
  proof (cases h)
    case (Err e)
    with assms Pair one show ?thesis by (auto simp: read_frame_def)
  next
    case (Ok header)
    let ?len = "unat (u32_from_be header)"
    have "length (rd_bytes r1) - length (rd_bytes r') \<le> MAX_FRAME"
    proof (cases "?len > MAX_FRAME")
      case True
      with assms Pair Ok show ?thesis by (auto simp: read_frame_def)
    next
      case False
      obtain b r2 where two: "read_exact ?len r1 = (b, r2)" by fastforce
      have "r' = r2"
        using assms Pair Ok False two by (auto simp: read_frame_def split: result.splits)
      with False read_exact_consumes [of r1 ?len] two show ?thesis by simp
    qed
    with one show ?thesis by simp
  qed
qed

section \<open>Properties\<close>

text \<open>
  C15. Messages written one after the other onto a stream that accepts them are read back in
  order, every one equal to what was sent, and the reader is left exactly at the bytes that
  follow. The serialiser is assumed to invert itself on the messages and to keep them
  within \<open>MAX_FRAME\<close> bytes.
\<close>

theorem frames_roundtrip:
  assumes "list_all2 (serialises to_json from_json) vs bs"
  shows "\<exists>sent. write_frames to_json vs open_writer = (Ok (), open_writer\<lparr>wr_sent := sent\<rparr>)
           \<and> read_frames from_json (length vs) (reader_of (sent @ rest)) = (Ok vs, reader_of rest)"
proof (intro exI conjI)
  show "write_frames to_json vs open_writer =
      (Ok (), open_writer\<lparr>wr_sent := concat (map frame_bytes bs)\<rparr>)"
    using write_frames_open [OF _ _ assms, of open_writer] by (simp add: open_writer_def)
  show "read_frames from_json (length vs) (reader_of (concat (map frame_bytes bs) @ rest)) =
      (Ok vs, reader_of rest)"
    using read_frames_bytes [OF assms, of "reader_of (concat (map frame_bytes bs) @ rest)" rest]
    by (simp add: reader_of_def)
qed

theorem frames_roundtrip_witness:
  "\<exists>sent. write_frames (\<lambda>v. Ok [v, 7]) [1, 2] open_writer =
        (Ok (), open_writer\<lparr>wr_sent := sent\<rparr>)
     \<and> read_frames (\<lambda>b. Ok (hd b)) (length [1, 2 :: u8]) (reader_of (sent @ [9])) =
        (Ok [1, 2], reader_of [9])"
  by (rule frames_roundtrip [where bs = "[[1, 7], [2, 7]]"]) (simp add: serialises_def MAX_FRAME_def)

text \<open>
  A frame whose header announces more than \<open>MAX_FRAME\<close> bytes is refused after the four
  header bytes, before any payload is taken from the stream; a message that serialises to
  more than \<open>MAX_FRAME\<close> bytes is refused before a single byte is sent; and whatever a peer
  sends, one read takes at most \<open>4 + MAX_FRAME\<close> bytes.
\<close>

theorem oversized_frames_refused:
  "(length header = 4 \<and> unat (u32_from_be header) > MAX_FRAME \<longrightarrow>
      read_frame from_json (reader_of (header @ payload)) = (Err FrameTooLarge, reader_of payload))
   \<and> (to_json v = Ok bytes \<and> length bytes > MAX_FRAME \<longrightarrow>
      write_frame to_json v w = (Err FrameTooLarge, w))
   \<and> length (rd_bytes r) - length (rd_bytes (snd (read_frame from_json r))) \<le> 4 + MAX_FRAME"
proof (intro conjI impI)
  assume h: "length header = 4 \<and> unat (u32_from_be header) > MAX_FRAME"
  then have "read_exact 4 (reader_of (header @ payload)) = (Ok header, reader_of payload)"
    using read_exact_append [of "reader_of (header @ payload)" header payload 4]
    by (simp add: reader_of_def)
  with h show "read_frame from_json (reader_of (header @ payload)) = (Err FrameTooLarge, reader_of payload)"
    by (simp add: read_frame_def)
next
  assume "to_json v = Ok bytes \<and> length bytes > MAX_FRAME"
  then show "write_frame to_json v w = (Err FrameTooLarge, w)"
    by (simp add: write_frame_def)
next
  show "length (rd_bytes r) - length (rd_bytes (snd (read_frame from_json r))) \<le> 4 + MAX_FRAME"
    by (rule read_frame_consumes) (rule prod.collapse [symmetric])
qed

theorem oversized_frames_refused_witness:
  "read_frame (\<lambda>b. Ok b) (reader_of ([255, 0, 0, 0] @ [1])) = (Err FrameTooLarge, reader_of [1])
   \<and> write_frame (\<lambda>n. Ok (replicate n 0)) (MAX_FRAME + 1) open_writer = (Err FrameTooLarge, open_writer)"
proof -
  note both = oversized_frames_refused [where header = "[255, 0, 0, 0]" and payload = "[1]"
      and from_json = "\<lambda>b. Ok b" and to_json = "\<lambda>n. Ok (replicate n 0)" and v = "MAX_FRAME + 1"
      and bytes = "replicate (MAX_FRAME + 1) 0" and w = open_writer and r = "reader_of []"]
  have "length [255, 0, 0, 0 :: u8] = 4 \<and> unat (u32_from_be [255, 0, 0, 0]) > MAX_FRAME"
    by (simp add: u32_from_be_def MAX_FRAME_def)
  then have "read_frame (\<lambda>b. Ok b) (reader_of ([255, 0, 0, 0] @ [1])) = (Err FrameTooLarge, reader_of [1])"
    by (rule both [THEN conjunct1, THEN mp])
  moreover have "write_frame (\<lambda>n. Ok (replicate n 0)) (MAX_FRAME + 1) open_writer
      = (Err FrameTooLarge, open_writer)"
    by (rule both [THEN conjunct2, THEN conjunct1, THEN mp])
      (simp only: length_replicate, simp)
  ultimately show ?thesis ..
qed

end
