(* ===== verification/Node_Error.thy ===== *)
theory Node_Error
  imports Codec Measure
begin

text \<open>
  The errors of \<open>sshe-node\<close> (\<open>error.rs\<close>): how a transport failure, at whatever depth it is
  wrapped, becomes a failure class. The errors of the transport library are the values it
  reports; how it prints one is the argument \<open>source_text\<close>.
\<close>

datatype connect_error =
    ConnectNoAddress
  | ConnectingConnectionError connection_error
  | ConnectConnectionError connection_error
  | OtherConnectError

datatype transport_source =
    SourceConnect connect_error | SourceConnection connection_error | SourceOther string

datatype node_error =
    NodeIo io_error
  | ConfigRead string
  | ConfigWrite string
  | ProtocolError protocol_error
  | CoreError core_error
  | Transport failure_kind transport_source
  | IdentityBusy string
  | NodeTimeout
  | OutcomeUnknown node_error
  | ProbeFailed node_error
  | ProbeCancelled
  | RemoteError string
  | Invalid string

definition UNAUTHORIZED :: nat where
  "UNAUTHORIZED = 1"

fun protocol_error_display :: "protocol_error \<Rightarrow> string" where
  "protocol_error_display FrameTooLarge = ''frame exceeds '' @ show_nat MAX_FRAME @ '' bytes''"
| "protocol_error_display (FrameIo e) = ''frame I/O: '' @ io_message e"
| "protocol_error_display (Json m) = ''invalid message: '' @ m"

fun node_error_display :: "(transport_source \<Rightarrow> string) \<Rightarrow> node_error \<Rightarrow> string" where
  "node_error_display src (NodeIo e) = ''I/O: '' @ io_message e"
| "node_error_display src (ConfigRead m) = ''config: '' @ m"
| "node_error_display src (ConfigWrite m) = ''config serialization: '' @ m"
| "node_error_display src (ProtocolError e) = protocol_error_display e"
| "node_error_display src (CoreError e) = core_error_display e"
| "node_error_display src (Transport kind s) = ''Iroh: '' @ src s"
| "node_error_display src (IdentityBusy m) =
     ''identity is in use by a running daemon or another sshe command: '' @ m"
| "node_error_display src NodeTimeout = ''operation timed out''"
| "node_error_display src (OutcomeUnknown e) =
     ''command outcome unknown after submission; not retried: '' @ node_error_display src e"
| "node_error_display src (ProbeFailed e) = node_error_display src e"
| "node_error_display src ProbeCancelled = ''probe cancelled before completion''"
| "node_error_display src (RemoteError m) = m"
| "node_error_display src (Invalid m) = m"

fun connection_kind :: "connection_error \<Rightarrow> failure_kind" where
  "connection_kind (ApplicationClosed code) =
     (if code = UNAUTHORIZED then Unauthorized else ConnectionLost)"
| "connection_kind ConnectionClosed = Refused"
| "connection_kind ConnectionTimedOut = Timeout"
| "connection_kind ConnectionWasReset = ConnectionLost"
| "connection_kind LocallyClosed = ConnectionLost"
| "connection_kind OtherConnectionError = Other"

fun connect_kind :: "connect_error \<Rightarrow> failure_kind" where
  "connect_kind ConnectNoAddress = NoAddress"
| "connect_kind (ConnectingConnectionError source) = connection_kind source"
| "connect_kind (ConnectConnectionError source) = connection_kind source"
| "connect_kind OtherConnectError = Other"

definition connect_failed :: "connect_error \<Rightarrow> node_error" where
  "connect_failed e = Transport (connect_kind e) (SourceConnect e)"

definition connection_lost :: "connection_error \<Rightarrow> node_error" where
  "connection_lost e = Transport (connection_kind e) (SourceConnection e)"

definition transport :: "string \<Rightarrow> node_error" where
  "transport e = Transport Other (SourceOther e)"

text \<open>The QUIC cause of a stream error, if there is one.\<close>

definition lost_connection :: "io_error \<Rightarrow> connection_error option" where
  "lost_connection e =
     (case io_inner e of
        Some (ReadConnectionLost c) \<Rightarrow> Some c
      | Some (WriteConnectionLost c) \<Rightarrow> Some c
      | _ \<Rightarrow> None)"

definition stream_io_kind :: "io_error \<Rightarrow> failure_kind" where
  "stream_io_kind e =
     (case lost_connection e of Some c \<Rightarrow> connection_kind c | None \<Rightarrow> io_failure_kind e)"

fun node_failure_kind :: "node_error \<Rightarrow> failure_kind" where
  "node_failure_kind (Transport kind s) = kind"
| "node_failure_kind NodeTimeout = Timeout"
| "node_failure_kind (ProtocolError (FrameIo e)) = stream_io_kind e"
| "node_failure_kind (NodeIo e) = stream_io_kind e"
| "node_failure_kind (CoreError e) = core_failure_kind e"
| "node_failure_kind (OutcomeUnknown e) = node_failure_kind e"
| "node_failure_kind (ProbeFailed e) = node_failure_kind e"
| "node_failure_kind (RemoteError m) = Remote"
| "node_failure_kind _ = Other"

interpretation node: classify node_failure_kind "node_error_display source_text" NodeTimeout
  for source_text
  by unfold_locales simp

lemma connection_kind_Unauthorized [simp]:
  "connection_kind c = Unauthorized \<longleftrightarrow> c = ApplicationClosed UNAUTHORIZED"
  by (cases c) auto

lemma io_failure_kind_not_Unauthorized [simp]: "io_failure_kind e \<noteq> Unauthorized"
  by (cases "io_kind e") auto

lemma core_failure_kind_not_Unauthorized [simp]: "core_failure_kind e \<noteq> Unauthorized"
  by (cases e) (auto simp del: io_failure_kind.simps)

lemma stream_io_kind_Unauthorized [simp]:
  "stream_io_kind e = Unauthorized \<longleftrightarrow> lost_connection e = Some (ApplicationClosed UNAUTHORIZED)"
  by (simp add: stream_io_kind_def del: io_failure_kind.simps split: option.splits)

end
