(* ===== verification/Transport.thy ===== *)
theory Transport
  imports Node_Error
begin

text \<open>
  Opening an endpoint and RPC over reused connections (\<open>transport.rs\<close>). One call makes one attempt and at most one
  more; an attempt is a connection phase, opening a stream, and the exchange of frames.
  The network, the clock and the other tasks that share the dialer are the environment: an
  \<open>attempt\<close> holds what they answer. Besides its result a call returns the trace of what it
  did: every bounded wait with its start and limit, every dial and every submission.
\<close>

section \<open>Timeouts\<close>

definition DIAL_SECS :: nat where "DIAL_SECS = 30"
definition IO_SECS :: nat where "IO_SECS = 15"
definition MARGIN_SECS :: nat where "MARGIN_SECS = 5"
definition RPC_SECS :: nat where "RPC_SECS = unat MAX_EXEC_SECONDS + MARGIN_SECS"

definition DIAL_TIMEOUT :: duration where "DIAL_TIMEOUT = from_secs DIAL_SECS"
definition IO_TIMEOUT :: duration where "IO_TIMEOUT = from_secs IO_SECS"
definition HANDSHAKE_TIMEOUT :: duration where "HANDSHAKE_TIMEOUT = from_secs 15"
definition RPC_TIMEOUT :: duration where "RPC_TIMEOUT = from_secs RPC_SECS"
definition CALL_TIMEOUT :: duration where
  "CALL_TIMEOUT = from_secs (DIAL_SECS + IO_SECS + RPC_SECS)"
definition LOCAL_TIMEOUT :: duration where
  "LOCAL_TIMEOUT = CALL_TIMEOUT + from_secs MARGIN_SECS"

lemmas timeout_defs = DIAL_SECS_def IO_SECS_def MARGIN_SECS_def RPC_SECS_def DIAL_TIMEOUT_def
  IO_TIMEOUT_def RPC_TIMEOUT_def CALL_TIMEOUT_def LOCAL_TIMEOUT_def MAX_EXEC_SECONDS_def from_secs_def

fun within :: "('a, node_error) result timed \<Rightarrow> ('a, node_error) result" where
  "within Elapsed = Err NodeTimeout"
| "within (Completed r) = r"

text \<open>\<open>answer\<close> is what the bounded wait gives if it is started at all.\<close>

definition within_deadline ::
  "instant \<Rightarrow> instant \<Rightarrow> ('a, node_error) result timed \<Rightarrow> ('a, node_error) result" where
  "within_deadline deadline now answer =
     (let remaining = deadline - now in
      if remaining = 0 then Err NodeTimeout else within answer)"

section \<open>Requests that must not run twice\<close>

fun is_exec :: "request \<Rightarrow> bool" where
  "is_exec (Exec program args secs) = True"
| "is_exec _ = False"

definition unknown_if_exec ::
  "request \<Rightarrow> ('a, node_error) result \<Rightarrow> ('a, node_error) result" where
  "unknown_if_exec request result =
     (if is_exec request then map_err OutcomeUnknown result else result)"

section \<open>Opening an endpoint\<close>

definition ALPN :: string where
  "ALPN = ''sshe/1''"

datatype ip_version = IPv4 | IPv6

text \<open>
  What the code asks of the transport library's builder, in order: the key, the protocol, and
  sockets on the unspecified address, with the default options or with whether the socket is
  required. The library answers each socket and the final \<open>bind\<close>; both may fail.
\<close>

datatype builder_call =
    SecretKeyIs "u8 list"
  | AlpnsAre "string list"
  | BindAddr ip_version u16
  | BindAddrWithOpts ip_version u16 bool

record endpoint_lib =
  el_accepts :: "builder_call list \<Rightarrow> builder_call \<Rightarrow> (unit, string) result"
  el_bind :: "builder_call list \<Rightarrow> (unit, string) result"

definition builder_add ::
  "endpoint_lib \<Rightarrow> builder_call \<Rightarrow> builder_call list \<Rightarrow> (builder_call list, string) result" where
  "builder_add lib c b = map_ok (\<lambda>_. b @ [c]) (el_accepts lib b c)"

definition fixed_port ::
  "endpoint_lib \<Rightarrow> builder_call list \<Rightarrow> u16 \<Rightarrow> (builder_call list, node_error) result" where
  "fixed_port lib builder port =
     map_err transport
       (and_then (builder_add lib (BindAddr IPv4 port) builder)
         (\<lambda>b. builder_add lib (BindAddrWithOpts IPv6 port False) b))"

definition endpoint ::
  "endpoint_lib \<Rightarrow> u8 list \<Rightarrow> u16 option \<Rightarrow> (unit, node_error) result" where
  "endpoint lib key bind_port =
     (let builder = [SecretKeyIs key, AlpnsAre [ALPN]]
      in and_then (case bind_port of None \<Rightarrow> Ok builder | Some port \<Rightarrow> fixed_port lib builder port)
           (\<lambda>b. map_err transport (el_bind lib b)))"

text \<open>
  A fixed port is asked for on both address families, and only IPv4 is required; without one
  the library's own sockets are kept.
\<close>

lemma builder_add_Ok: "builder_add lib c b = Ok b' \<Longrightarrow> b' = b @ [c]"
  by (simp add: builder_add_def result_simps)

lemma fixed_port_Ok:
  assumes "fixed_port lib b port = Ok b'"
  shows "b' = b @ [BindAddr IPv4 port, BindAddrWithOpts IPv6 port False]"
proof -
  obtain b1 where "builder_add lib (BindAddr IPv4 port) b = Ok b1"
      "builder_add lib (BindAddrWithOpts IPv6 port False) b1 = Ok b'"
    using assms by (simp add: fixed_port_def result_simps) blast
  then show ?thesis by (auto dest!: builder_add_Ok)
qed

lemma endpoint_Ok:
  assumes "endpoint lib key bind_port = Ok ()"
  shows "el_bind lib ([SecretKeyIs key, AlpnsAre [ALPN]] @
       (case bind_port of None \<Rightarrow> [] | Some port \<Rightarrow> [BindAddr IPv4 port, BindAddrWithOpts IPv6 port False])) = Ok ()"
proof (cases bind_port)
  case None
  with assms show ?thesis by (simp add: endpoint_def result_simps)
next
  case (Some port)
  then obtain b where "fixed_port lib [SecretKeyIs key, AlpnsAre [ALPN]] port = Ok b" "el_bind lib b = Ok ()"
    using assms by (simp add: endpoint_def result_simps) blast
  with Some show ?thesis by (auto dest!: fixed_port_Ok)
qed

lemma fixed_port_Err: "fixed_port lib b port = Err e \<Longrightarrow> \<exists>m. e = transport m"
  by (simp add: fixed_port_def result_simps) blast

lemma endpoint_Err:
  assumes "endpoint lib key bind_port = Err e"
  shows "\<exists>m. e = transport m"
proof (cases bind_port)
  case None
  with assms show ?thesis by (simp add: endpoint_def result_simps) blast
next
  case (Some port)
  with assms show ?thesis by (simp add: endpoint_def result_simps) (blast dest: fixed_port_Err)
qed

lemma endpoint_error_class:
  assumes "endpoint lib key bind_port = Err e"
  shows "node_failure_kind e = Other"
  using endpoint_Err [OF assms] by (auto simp: transport_def)

definition willing_lib :: endpoint_lib where
  "willing_lib = \<lparr>el_accepts = (\<lambda>_ _. Ok ()), el_bind = (\<lambda>_. Ok ())\<rparr>"

lemma endpoint_willing [simp]: "endpoint willing_lib key bind_port = Ok ()"
  by (cases bind_port)
    (simp_all add: endpoint_def fixed_port_def builder_add_def willing_lib_def result_simps)

section \<open>The dialer\<close>

type_synonym endpoint_id = string

record endpoint_addr =
  ea_id :: endpoint_id
  ea_addrs :: "string list"

text \<open>Per configured peer the cached outgoing connection, empty until the first request.\<close>

type_synonym 'c peers = "endpoint_id \<Rightarrow> 'c option option"

record 'c dialer =
  d_peers :: "'c peers"

definition dialer_new :: "endpoint_id list \<Rightarrow> 'c dialer" where
  "dialer_new ids = \<lparr>d_peers = (\<lambda>id. if id \<in> set ids then Some None else None)\<rparr>"

record 'c attempt =
  at_start :: instant
  at_others :: "'c option \<Rightarrow> 'c option"
  at_locked :: bool
  at_closed :: "'c \<Rightarrow> bool"
  at_dial :: "('c, connect_error) result timed"
  at_open_start :: instant
  at_open :: "(unit, connection_error) result timed"
  at_rpc_start :: instant
  at_rpc_expired :: bool
  at_writer :: writer
  at_finish :: "(unit, string) result"
  at_reader :: reader
  at_closed_after :: "'c \<Rightarrow> bool"

datatype 'c event = Wait instant duration | Dialled endpoint_id | Submitted 'c request

definition wait_event :: "instant \<Rightarrow> duration \<Rightarrow> instant \<Rightarrow> 'c event list" where
  "wait_event deadline phase_limit now =
     (if deadline - now = 0 then [] else [Wait now (min phase_limit (deadline - now))])"

section \<open>Getting a connection\<close>

definition connection ::
  "instant \<Rightarrow> 'c attempt \<Rightarrow> endpoint_addr \<Rightarrow> 'c dialer
   \<Rightarrow> ('c \<times> bool, node_error) result \<times> 'c dialer \<times> 'c event list" where
  "connection deadline env addr d =
     (let waited = wait_event deadline DIAL_TIMEOUT (at_start env) in
      if deadline - at_start env = 0 then (Err NodeTimeout, d, waited)
      else case d_peers d (ea_id addr) of
        None \<Rightarrow> (Err (Invalid (ea_id addr @ '' is not a configured peer'')), d, waited)
      | Some before \<Rightarrow>
          let cached = at_others env before;
              d1 = d\<lparr>d_peers := (d_peers d)(ea_id addr := Some cached)\<rparr>
          in if \<not> at_locked env then (Err NodeTimeout, d1, waited)
             else case (case cached of
                          Some c \<Rightarrow> if at_closed env c then None else Some c | None \<Rightarrow> None) of
               Some c \<Rightarrow> (Ok (c, True), d1, waited)
             | None \<Rightarrow>
                 (case at_dial env of
                    Elapsed \<Rightarrow> (Err NodeTimeout, d1, waited @ [Dialled (ea_id addr)])
                  | Completed (Err e) \<Rightarrow> (Err (connect_failed e), d1, waited @ [Dialled (ea_id addr)])
                  | Completed (Ok c) \<Rightarrow>
                      (Ok (c, False), d1\<lparr>d_peers := (d_peers d1)(ea_id addr := Some (Some c))\<rparr>,
                       waited @ [Dialled (ea_id addr)])))"

section \<open>One exchange\<close>

record failed =
  fl_submitted :: bool
  fl_error :: node_error

definition rpc_frames ::
  "request serialiser \<Rightarrow> response deserialiser \<Rightarrow> 'c attempt \<Rightarrow> request
   \<Rightarrow> (response, node_error) result" where
  "rpc_frames to_json from_json env request =
     and_then (map_err ProtocolError (fst (write_frame to_json request (at_writer env)))) (\<lambda>_.
     and_then (map_err transport (at_finish env)) (\<lambda>_.
       map_err ProtocolError (fst (read_frame from_json (at_reader env)))))"

definition exchange ::
  "request serialiser \<Rightarrow> response deserialiser \<Rightarrow> instant \<Rightarrow> 'c attempt \<Rightarrow> 'c \<Rightarrow> request
   \<Rightarrow> (response, failed) result \<times> 'c event list" where
  "exchange to_json from_json deadline env conn request =
     (let opening = wait_event deadline IO_TIMEOUT (at_open_start env) in
      case within_deadline deadline (at_open_start env)
             (case at_open env of Elapsed \<Rightarrow> Elapsed
              | Completed r \<Rightarrow> Completed (map_err connection_lost r)) of
        Err e \<Rightarrow> (Err \<lparr>fl_submitted = False, fl_error = e\<rparr>, opening)
      | Ok _ \<Rightarrow>
          let submitted = (deadline - at_rpc_start env \<noteq> 0);
              sending = wait_event deadline RPC_TIMEOUT (at_rpc_start env)
                          @ (if submitted then [Submitted conn request] else [])
          in (map_err (\<lambda>e. \<lparr>fl_submitted = submitted, fl_error = e\<rparr>)
                (within_deadline deadline (at_rpc_start env)
                   (if at_rpc_expired env then Elapsed
                    else Completed (rpc_frames to_json from_json env request))),
              opening @ sending))"

section \<open>One call\<close>

definition retry_safe :: "'c attempt \<Rightarrow> 'c \<Rightarrow> bool \<Rightarrow> request \<Rightarrow> failed \<Rightarrow> bool" where
  "retry_safe env conn reused request f \<longleftrightarrow>
     reused \<and> (\<not> fl_submitted f \<or> \<not> is_exec request)
     \<and> node_failure_kind (fl_error f) = ConnectionLost \<and> at_closed_after env conn"

definition finish_call ::
  "request \<Rightarrow> (response, failed) result \<Rightarrow> (response, node_error) result" where
  "finish_call request r =
     (case r of
        Ok response \<Rightarrow> Ok response
      | Err f \<Rightarrow>
          if fl_submitted f then unknown_if_exec request (Err (fl_error f)) else Err (fl_error f))"

definition call_until ::
  "request serialiser \<Rightarrow> response deserialiser \<Rightarrow> instant \<Rightarrow> 'c attempt \<times> 'c attempt
   \<Rightarrow> endpoint_addr \<Rightarrow> request \<Rightarrow> 'c dialer
   \<Rightarrow> (response, node_error) result \<times> 'c dialer \<times> 'c event list" where
  "call_until to_json from_json deadline envs addr request d =
     (case connection deadline (fst envs) addr d of
        (Err e, d1, tr1) \<Rightarrow> (Err e, d1, tr1)
      | (Ok (conn, reused), d1, tr1) \<Rightarrow>
          (case exchange to_json from_json deadline (fst envs) conn request of
             (Ok response, tr2) \<Rightarrow> (finish_call request (Ok response), d1, tr1 @ tr2)
           | (Err f, tr2) \<Rightarrow>
               if retry_safe (fst envs) conn reused request f then
                 (case connection deadline (snd envs) addr d1 of
                    (Err e, d2, tr3) \<Rightarrow> (Err e, d2, tr1 @ tr2 @ tr3)
                  | (Ok (conn2, _), d2, tr3) \<Rightarrow>
                      (case exchange to_json from_json deadline (snd envs) conn2 request of
                         (r, tr4) \<Rightarrow> (finish_call request r, d2, tr1 @ tr2 @ tr3 @ tr4)))
               else (finish_call request (Err f), d1, tr1 @ tr2)))"

text \<open>\<open>call\<close> fixes the deadline from the clock when it is entered.\<close>

definition call ::
  "request serialiser \<Rightarrow> response deserialiser \<Rightarrow> instant \<Rightarrow> 'c attempt \<times> 'c attempt
   \<Rightarrow> endpoint_addr \<Rightarrow> request \<Rightarrow> 'c dialer
   \<Rightarrow> (response, node_error) result \<times> 'c dialer \<times> 'c event list" where
  "call to_json from_json now envs addr request d =
     call_until to_json from_json (now + CALL_TIMEOUT) envs addr request d"

section \<open>What one attempt does\<close>

fun is_submission :: "'c event \<Rightarrow> bool" where
  "is_submission (Submitted c r) = True"
| "is_submission _ = False"

fun is_dial :: "'c event \<Rightarrow> bool" where
  "is_dial (Dialled peer) = True"
| "is_dial _ = False"

definition submissions :: "'c event list \<Rightarrow> nat" where
  "submissions tr = length (filter is_submission tr)"

definition dials :: "'c event list \<Rightarrow> nat" where
  "dials tr = length (filter is_dial tr)"

fun outcome_unknown :: "node_error \<Rightarrow> bool" where
  "outcome_unknown (OutcomeUnknown e) = True"
| "outcome_unknown _ = False"

text \<open>A wait that respects a call deadline: never empty, never past the deadline.\<close>

fun in_budget :: "instant \<Rightarrow> 'c event \<Rightarrow> bool" where
  "in_budget deadline (Wait start limit) \<longleftrightarrow>
     0 < limit \<and> limit \<le> RPC_TIMEOUT \<and> start + limit \<le> deadline"
| "in_budget deadline _ \<longleftrightarrow> True"

lemma trace_append [simp]:
  "submissions (tr1 @ tr2) = submissions tr1 + submissions tr2"
  "dials (tr1 @ tr2) = dials tr1 + dials tr2"
  "submissions [] = 0" "dials [] = 0"
  by (simp_all add: submissions_def dials_def)

lemma trace_Cons [simp]:
  "submissions (e # tr) = (if is_submission e then 1 else 0) + submissions tr"
  "dials (e # tr) = (if is_dial e then 1 else 0) + dials tr"
  by (simp_all add: submissions_def dials_def)

lemma wait_event_counts [simp]:
  "submissions (wait_event deadline limit now) = 0" "dials (wait_event deadline limit now) = 0"
  by (simp_all add: wait_event_def)

lemma wait_event_Nil [simp]: "wait_event deadline limit now = [] \<longleftrightarrow> deadline \<le> now"
  by (simp add: wait_event_def)

lemma wait_event_budget:
  "e \<in> set (wait_event deadline limit now) \<Longrightarrow> 0 < limit \<Longrightarrow> limit \<le> RPC_TIMEOUT \<Longrightarrow>
   in_budget deadline e"
  by (auto simp: wait_event_def split: if_splits)

lemma wait_event_submits [simp]: "Submitted c q \<notin> set (wait_event deadline limit now)"
  by (simp add: wait_event_def split: if_splits)

lemma phase_limits: "0 < DIAL_TIMEOUT" "DIAL_TIMEOUT \<le> RPC_TIMEOUT"
  "0 < IO_TIMEOUT" "IO_TIMEOUT \<le> RPC_TIMEOUT" "0 < RPC_TIMEOUT"
  by (simp_all add: timeout_defs)

lemma wait_event_phases:
  "e \<in> set (wait_event deadline DIAL_TIMEOUT now) \<Longrightarrow> in_budget deadline e"
  "e \<in> set (wait_event deadline IO_TIMEOUT now) \<Longrightarrow> in_budget deadline e"
  "e \<in> set (wait_event deadline RPC_TIMEOUT now) \<Longrightarrow> in_budget deadline e"
  by (rule wait_event_budget, assumption, simp_all add: phase_limits)+

lemma endpoint_known: "endpoint lib key bind_port = Err e \<Longrightarrow> \<not> outcome_unknown e"
  by (auto dest!: endpoint_Err simp: transport_def)

lemma connect_failed_known [simp]: "\<not> outcome_unknown (connect_failed e)"
  by (simp add: connect_failed_def)

lemma connection_trace:
  assumes "connection deadline env addr d = (r, d', tr)"
  shows "submissions tr = 0"
    and "dials tr \<le> 1"
    and "e \<in> set tr \<Longrightarrow> in_budget deadline e"
    and "r = Err err \<Longrightarrow> \<not> outcome_unknown err"
    and "dom (d_peers d') = dom (d_peers d)"
    and "peer \<noteq> ea_id addr \<Longrightarrow> d_peers d' peer = d_peers d peer"
    and "r = Ok (c, True) \<Longrightarrow> dials tr = 0 \<and> \<not> at_closed env c"
    and "r = Ok (c, reused) \<Longrightarrow> ea_id addr \<in> dom (d_peers d)
           \<and> d_peers d' (ea_id addr) = Some (Some c)"
    and "tr = [] \<longleftrightarrow> deadline \<le> at_start env"
  using assms
  by (auto simp: connection_def Let_def intro: wait_event_phases
      split: option.splits if_splits timed.splits result.splits)

lemma connection_unconfigured:
  assumes "d_peers d (ea_id addr) = None"
  shows "connection deadline env addr d =
     (Err (if deadline \<le> at_start env then NodeTimeout
           else Invalid (ea_id addr @ '' is not a configured peer'')), d,
      wait_event deadline DIAL_TIMEOUT (at_start env))"
  using assms by (simp add: connection_def Let_def)

lemma connection_reuses:
  assumes "at_start env < deadline" "d_peers d (ea_id addr) = Some before"
    and "at_others env before = Some c" "at_locked env" "\<not> at_closed env c"
  shows "connection deadline env addr d =
     (Ok (c, True), d\<lparr>d_peers := (d_peers d)(ea_id addr := Some (Some c))\<rparr>,
      wait_event deadline DIAL_TIMEOUT (at_start env))"
  using assms by (simp add: connection_def Let_def)

lemma exchange_trace:
  assumes "exchange to_json from_json deadline env conn request = (r, tr)"
  shows "submissions tr \<le> 1"
    and "dials tr = 0"
    and "e \<in> set tr \<Longrightarrow> in_budget deadline e"
    and "r = Ok x \<Longrightarrow> submissions tr = 1"
    and "r = Err f \<Longrightarrow> fl_submitted f = (submissions tr = 1)"
    and "Submitted c q \<in> set tr \<Longrightarrow> c = conn \<and> q = request"
  using assms
  by (auto simp: exchange_def Let_def within_deadline_def result_simps
      intro: wait_event_phases
      split: result.splits timed.splits if_splits)

lemma rpc_frames_known: "rpc_frames to_json from_json env request = Err e \<Longrightarrow> \<not> outcome_unknown e"
  by (auto simp: rpc_frames_def result_simps transport_def)

lemma exchange_error_known:
  assumes "exchange to_json from_json deadline env conn request = (Err f, tr)"
  shows "\<not> outcome_unknown (fl_error f)"
  using assms rpc_frames_known [of to_json from_json env request]
  by (auto simp: exchange_def Let_def within_deadline_def connection_lost_def result_simps
      split: result.splits timed.splits if_splits)

lemma exchange_answered:
  assumes "at_open_start env < deadline" "at_open env = Completed (Ok ())"
    and "at_rpc_start env < deadline" "\<not> at_rpc_expired env"
    and "rpc_frames to_json from_json env request = Ok response"
  shows "\<exists>tr. exchange to_json from_json deadline env conn request = (Ok response, tr)"
  using assms by (simp add: exchange_def Let_def within_deadline_def)

section \<open>What a call does\<close>

lemma call_until_cases:
  assumes "call_until to_json from_json deadline envs addr request d = (r, d', tr)"
  obtains
    (unreached) e where "connection deadline (fst envs) addr d = (Err e, d', tr)" "r = Err e"
  | (once) conn reused tr1 x tr2 where
      "connection deadline (fst envs) addr d = (Ok (conn, reused), d', tr1)"
      "exchange to_json from_json deadline (fst envs) conn request = (x, tr2)"
      "\<And>f. x = Err f \<Longrightarrow> \<not> retry_safe (fst envs) conn reused request f"
      "r = finish_call request x" "tr = tr1 @ tr2"
  | (unreached_again) conn d1 tr1 f tr2 e tr3 where
      "connection deadline (fst envs) addr d = (Ok (conn, True), d1, tr1)"
      "exchange to_json from_json deadline (fst envs) conn request = (Err f, tr2)"
      "retry_safe (fst envs) conn True request f"
      "connection deadline (snd envs) addr d1 = (Err e, d', tr3)"
      "r = Err e" "tr = tr1 @ tr2 @ tr3"
  | (twice) conn d1 tr1 f tr2 conn2 reused2 tr3 x tr4 where
      "connection deadline (fst envs) addr d = (Ok (conn, True), d1, tr1)"
      "exchange to_json from_json deadline (fst envs) conn request = (Err f, tr2)"
      "retry_safe (fst envs) conn True request f"
      "connection deadline (snd envs) addr d1 = (Ok (conn2, reused2), d', tr3)"
      "exchange to_json from_json deadline (snd envs) conn2 request = (x, tr4)"
      "r = finish_call request x" "tr = tr1 @ tr2 @ tr3 @ tr4"
proof -
  obtain c d1 tr1 where c: "connection deadline (fst envs) addr d = (c, d1, tr1)"
    by (metis prod_cases3)
  show thesis
  proof (cases c)
    case (Err e)
    with assms c show thesis by (intro unreached) (auto simp: call_until_def)
  next
    case (Ok p)
    then obtain conn reused where p: "c = Ok (conn, reused)" by (metis surj_pair)
    obtain x tr2 where x: "exchange to_json from_json deadline (fst envs) conn request = (x, tr2)"
      by fastforce
    show thesis
    proof (cases "\<exists>f. x = Err f \<and> retry_safe (fst envs) conn reused request f")
      case False
      with assms c p x show thesis
        by (intro once [of conn reused tr1 x tr2])
          (auto simp: call_until_def split: result.splits)
    next
      case True
      then obtain f where f: "x = Err f" "retry_safe (fst envs) conn reused request f" by blast
      then have reused: "reused" by (simp add: retry_safe_def)
      obtain c2 d2 tr3 where c2: "connection deadline (snd envs) addr d1 = (c2, d2, tr3)"
        by (metis prod_cases3)
      show thesis
      proof (cases c2)
        case (Err e)
        with assms c p x f reused c2 show thesis
          by (intro unreached_again [of conn d1 tr1 f tr2 e tr3]) (auto simp: call_until_def)
      next
        case (Ok q)
        then obtain conn2 reused2 where q: "c2 = Ok (conn2, reused2)" by (metis surj_pair)
        obtain y tr4 where y: "exchange to_json from_json deadline (snd envs) conn2 request = (y, tr4)"
          by fastforce
        from assms c p x f reused c2 q y show thesis
          by (intro twice [of conn d1 tr1 f tr2 conn2 reused2 tr3 y tr4])
            (auto simp: call_until_def)
      qed
    qed
  qed
qed

lemma finish_call_simps [simp]:
  "finish_call request (Ok x) = Ok x"
  "is_exec request \<Longrightarrow> finish_call request (Err f) =
     Err (if fl_submitted f then OutcomeUnknown (fl_error f) else fl_error f)"
  "\<not> is_exec request \<Longrightarrow> finish_call request (Err f) = Err (fl_error f)"
  by (auto simp: finish_call_def unknown_if_exec_def)

lemma finish_exchange_exec:
  assumes "is_exec request"
    and "exchange to_json from_json deadline env conn request = (x, tr)"
  shows "submissions tr = 0 \<longleftrightarrow> (\<exists>e. finish_call request x = Err e \<and> \<not> outcome_unknown e)"
proof (cases x)
  case (Ok y)
  with exchange_trace(4) [OF assms(2) Ok] show ?thesis by simp
next
  case (Err f)
  have "\<not> outcome_unknown (fl_error f)"
    using assms(2) Err by (intro exchange_error_known) simp
  moreover have "fl_submitted f = (submissions tr = 1)" "submissions tr \<le> 1"
    using exchange_trace(5) [OF assms(2) Err] exchange_trace(1) [OF assms(2)] by simp_all
  ultimately show ?thesis using Err assms(1) by auto
qed

lemma retry_unsubmitted:
  assumes "retry_safe env conn reused request f" "is_exec request"
    and "exchange to_json from_json deadline env conn request = (Err f, tr)"
  shows "submissions tr = 0"
  using assms exchange_trace(1,5) [OF assms(3)] by (auto simp: retry_safe_def)

lemma call_until_trace:
  assumes "call_until to_json from_json deadline envs addr request d = (r, d', tr)"
  shows "dials tr \<le> 1 \<and> submissions tr \<le> 2 \<and> (\<forall>e \<in> set tr. in_budget deadline e)
    \<and> dom (d_peers d') = dom (d_peers d)
    \<and> (\<forall>peer. peer \<noteq> ea_id addr \<longrightarrow> d_peers d' peer = d_peers d peer)"
  using assms
proof (cases rule: call_until_cases)
  case (unreached e)
  show ?thesis using connection_trace(1-3,5,6) [OF unreached(1)] by auto
next
  case (once conn reused tr1 x tr2)
  show ?thesis
    using connection_trace(1-3,5,6) [OF once(1)] exchange_trace(1-3) [OF once(2)] once(5) by auto
next
  case (unreached_again conn d1 tr1 f tr2 e tr3)
  note c = connection_trace [OF unreached_again(1)] and x = exchange_trace [OF unreached_again(2)]
    and c2 = connection_trace [OF unreached_again(4)]
  show ?thesis
    using c(1,3,5,6) c(7) [OF refl] x(1-3) c2(1-3,5,6) unreached_again(6) by auto
next
  case (twice conn d1 tr1 f tr2 conn2 reused2 tr3 x tr4)
  note c = connection_trace [OF twice(1)] and x = exchange_trace [OF twice(2)]
    and c2 = connection_trace [OF twice(4)] and x2 = exchange_trace [OF twice(5)]
  show ?thesis
    using c(1,3,5,6) c(7) [OF refl] x(1-3) c2(1-3,5,6) x2(1-3) twice(7) by auto
qed

lemma call_until_exec:
  assumes "is_exec request"
    and "call_until to_json from_json deadline envs addr request d = (r, d', tr)"
  shows "submissions tr \<le> 1 \<and>
    (submissions tr = 0 \<longleftrightarrow> (\<exists>e. r = Err e \<and> \<not> outcome_unknown e))"
  using assms(2)
proof (cases rule: call_until_cases)
  case (unreached e)
  then show ?thesis using connection_trace(1,4) [OF unreached(1)] by auto
next
  case (once conn reused tr1 x tr2)
  then show ?thesis
    using connection_trace(1) [OF once(1)] exchange_trace(1) [OF once(2)]
      finish_exchange_exec [OF assms(1) once(2)] by simp
next
  case (unreached_again conn d1 tr1 f tr2 e tr3)
  then show ?thesis
    using connection_trace(1) [OF unreached_again(1)] connection_trace(1,4) [OF unreached_again(4)]
      retry_unsubmitted [OF unreached_again(3) assms(1) unreached_again(2)] by auto
next
  case (twice conn d1 tr1 f tr2 conn2 reused2 tr3 x tr4)
  then show ?thesis
    using connection_trace(1) [OF twice(1)] connection_trace(1) [OF twice(4)]
      retry_unsubmitted [OF twice(3) assms(1) twice(2)] exchange_trace(1) [OF twice(5)]
      finish_exchange_exec [OF assms(1) twice(5)] by simp
qed

text \<open>A second submission is a second request on a connection that replaces a dead one.\<close>

lemma call_until_resubmits:
  assumes "call_until to_json from_json deadline envs addr request d = (r, d', tr)"
    and "submissions tr = 2"
  shows "\<not> is_exec request \<and>
    (\<exists>c. at_others (fst envs) (the (d_peers d (ea_id addr))) = Some c
       \<and> \<not> at_closed (fst envs) c \<and> at_closed_after (fst envs) c)"
  using assms(1)
proof (cases rule: call_until_cases)
  case (unreached e)
  then show ?thesis using assms(2) connection_trace(1) [OF unreached(1)] by simp
next
  case (once conn reused tr1 x tr2)
  then show ?thesis
    using assms(2) connection_trace(1) [OF once(1)] exchange_trace(1) [OF once(2)] by simp
next
  case (unreached_again conn d1 tr1 f tr2 e tr3)
  then show ?thesis
    using assms(2) connection_trace(1) [OF unreached_again(1)]
      connection_trace(1) [OF unreached_again(4)] exchange_trace(1) [OF unreached_again(2)] by simp
next
  case (twice conn d1 tr1 f tr2 conn2 reused2 tr3 x tr4)
  then have "submissions tr2 = 1"
    using assms(2) connection_trace(1) [OF twice(1)] connection_trace(1) [OF twice(4)]
      exchange_trace(1) [OF twice(2)] exchange_trace(1) [OF twice(5)] by simp
  moreover have "at_others (fst envs) (the (d_peers d (ea_id addr))) = Some conn"
    using twice(1) by (auto simp: connection_def Let_def
        split: option.splits if_splits timed.splits result.splits)
  ultimately show ?thesis
    using exchange_trace(5) [OF twice(2)] connection_trace(7) [OF twice(1)] twice(3)
    by (auto simp: retry_safe_def)
qed

lemma call_until_unconfigured:
  assumes "d_peers d (ea_id addr) = None"
  shows "call_until to_json from_json deadline envs addr request d =
     (Err (if deadline \<le> at_start (fst envs) then NodeTimeout
           else Invalid (ea_id addr @ '' is not a configured peer'')), d,
      wait_event deadline DIAL_TIMEOUT (at_start (fst envs)))"
  using assms by (simp add: call_until_def connection_unconfigured)

lemma rpc_frames_answered:
  assumes "at_writer env = open_writer" "at_finish env = Ok ()"
    and "to_json request = Ok q" "length q \<le> MAX_FRAME"
    and "at_reader env = reader_of (frame_bytes a @ rest)"
    and "from_json a = Ok response" "length a \<le> MAX_FRAME"
  shows "rpc_frames to_json from_json env request = Ok response"
  using assms
  by (simp add: rpc_frames_def write_frame_open open_writer_def reader_of_def
      read_frame_bytes [where bytes = a and rest = rest])

section \<open>The promise of an exec error\<close>

text \<open>
  Every way to have a request run elsewhere must keep two laws for an exec: it is handed over
  at most once, and an error other than \<open>OutcomeUnknown\<close> says that it was not handed over.
  An attempt answers the result, the new state and how often the request was handed over.
\<close>

type_synonym ('env, 's) attempts = "'env \<Rightarrow> request \<Rightarrow> 's \<Rightarrow> (response, node_error) result \<times> 's \<times> nat"

text \<open>A caller that repeats its request while the error says that it is safe to.\<close>

fun repeat_while_safe ::
  "('env, 's) attempts \<Rightarrow> 'env list \<Rightarrow> request \<Rightarrow> 's
   \<Rightarrow> (response, node_error) result option \<times> 's \<times> nat" where
  "repeat_while_safe attempt [] request s = (None, s, 0)"
| "repeat_while_safe attempt (env # envs) request s =
     (case attempt env request s of
        (Ok x, s', n) \<Rightarrow> (Some (Ok x), s', n)
      | (Err e, s', n) \<Rightarrow>
          if outcome_unknown e then (Some (Err e), s', n)
          else case repeat_while_safe attempt envs request s' of (r, s'', m) \<Rightarrow> (r, s'', n + m))"

locale exec_caller =
  fixes attempt :: "('env, 's) attempts"
  assumes at_most_once: "is_exec q \<Longrightarrow> attempt env q s = (r, s', n) \<Longrightarrow> n \<le> 1"
    and told: "is_exec q \<Longrightarrow> attempt env q s = (Err e, s', n) \<Longrightarrow> \<not> outcome_unknown e \<Longrightarrow> n = 0"
begin

lemma repeat_at_most_once:
  "is_exec q \<Longrightarrow> snd (snd (repeat_while_safe attempt envs q s)) \<le> 1"
proof (induction envs arbitrary: s)
  case Nil
  then show ?case by simp
next
  case (Cons env envs)
  obtain r s' n where a: "attempt env q s = (r, s', n)" by (metis prod_cases3)
  show ?case
  proof (cases r)
    case (Ok x)
    with a at_most_once [OF Cons.prems a] show ?thesis by simp
  next
    case (Err e)
    with a at_most_once [OF Cons.prems a] told [OF Cons.prems, of env s e s' n]
      Cons.IH [OF Cons.prems, of s'] show ?thesis
      by (auto split: prod.splits)
  qed
qed

lemma never_handed_over:
  "is_exec q \<Longrightarrow> repeat_while_safe attempt envs q s = (None, s', n) \<Longrightarrow> n = 0"
proof (induction envs arbitrary: s n)
  case Nil
  then show ?case by simp
next
  case (Cons env envs)
  obtain r t m where a: "attempt env q s = (r, t, m)" by (metis prod_cases3)
  with Cons.prems obtain e k where "r = Err e" "\<not> outcome_unknown e"
    "repeat_while_safe attempt envs q t = (None, s', k)" "n = m + k"
    by (auto split: result.splits if_splits prod.splits)
  with a told [OF Cons.prems(1), of env s e t m] Cons.IH [OF Cons.prems(1), of t k] show ?case
    by simp
qed

end

definition call_attempt ::
  "request serialiser \<Rightarrow> response deserialiser \<Rightarrow> endpoint_addr
   \<Rightarrow> (instant \<times> 'c attempt \<times> 'c attempt, 'c dialer) attempts" where
  "call_attempt to_json from_json addr env request d =
     (case call to_json from_json (fst env) (snd env) addr request d of
        (r, d', tr) \<Rightarrow> (r, d', submissions tr))"

interpretation dialer: exec_caller "call_attempt to_json from_json addr"
  for to_json from_json addr
proof
  fix q env s r s' n
  assume "is_exec q" "call_attempt to_json from_json addr env q s = (r, s', n)"
  then show "n \<le> 1"
    by (auto simp: call_attempt_def call_def dest: call_until_exec split: prod.splits)
next
  fix q env s e s' n
  assume "is_exec q" "call_attempt to_json from_json addr env q s = (Err e, s', n)"
    "\<not> outcome_unknown e"
  then show "n = 0"
    by (auto simp: call_attempt_def call_def dest: call_until_exec split: prod.splits)
qed

section \<open>Properties\<close>

text \<open>An environment for the examples: everything answers at once on connection 7.\<close>

definition sample_attempt :: "nat attempt" where
  "sample_attempt = \<lparr>at_start = 10, at_others = id, at_locked = True, at_closed = (\<lambda>_. False),
     at_dial = Completed (Ok 7), at_open_start = 20, at_open = Completed (Ok ()),
     at_rpc_start = 30, at_rpc_expired = False, at_writer = open_writer, at_finish = Ok (),
     at_reader = reader_of (frame_bytes [1]), at_closed_after = (\<lambda>_. False)\<rparr>"

definition sample_addr :: endpoint_addr where
  "sample_addr = \<lparr>ea_id = ''k'', ea_addrs = []\<rparr>"

definition sample_exec :: request where
  "sample_exec = Exec ''reboot'' [] 30"

definition sample_reply :: response where
  "sample_reply = ErrorResponse ''late''"

lemmas sample_defs = sample_attempt_def sample_addr_def sample_exec_def sample_reply_def
  dialer_new_def

text \<open>
  C1. A call hands an exec to the peer at most once, whatever the network does, whatever the
  other tasks do to the cached connection and however the reused connection dies. It was not
  handed over exactly when the call fails with an error other than \<open>OutcomeUnknown\<close>: such an
  error is a promise that the command did not run, and every other failure says that the
  outcome is unknown.
\<close>

theorem exec_submitted_at_most_once:
  assumes "is_exec request"
  shows "case call to_json from_json now envs addr request d of (r, d', tr) \<Rightarrow>
    submissions tr \<le> 1 \<and>
    (submissions tr = 0 \<longleftrightarrow> (\<exists>e. r = Err e \<and> \<not> outcome_unknown e))"
proof -
  obtain r d' tr where c: "call to_json from_json now envs addr request d = (r, d', tr)"
    by (metis prod_cases3)
  show ?thesis using call_until_exec [OF assms c [unfolded call_def]] c by simp
qed

theorem exec_submitted_at_most_once_witness:
  "(case call (\<lambda>_. Ok [0]) (\<lambda>_. Ok sample_reply) 0
      (sample_attempt\<lparr>at_rpc_expired := True\<rparr>, sample_attempt) sample_addr sample_exec
      (dialer_new [''k'']) of (r, d', tr) \<Rightarrow>
    submissions tr \<le> 1 \<and>
    (submissions tr = 0 \<longleftrightarrow> (\<exists>e. r = Err e \<and> \<not> outcome_unknown e)))
   \<and> fst (call (\<lambda>_. Ok [0]) (\<lambda>_. Ok sample_reply) 0
      (sample_attempt\<lparr>at_rpc_expired := True\<rparr>, sample_attempt) sample_addr sample_exec
      (dialer_new [''k''])) = Err (OutcomeUnknown NodeTimeout)"
proof
  show "fst (call (\<lambda>_. Ok [0]) (\<lambda>_. Ok sample_reply) 0
      (sample_attempt\<lparr>at_rpc_expired := True\<rparr>, sample_attempt) sample_addr sample_exec
      (dialer_new [''k''])) = Err (OutcomeUnknown NodeTimeout)"
    by (simp add: call_def call_until_def connection_def exchange_def within_deadline_def
        finish_call_def unknown_if_exec_def sample_defs timeout_defs retry_safe_def)
qed (rule exec_submitted_at_most_once, simp add: sample_exec_def)

text \<open>
  Repeating an exec for as long as its error is not \<open>OutcomeUnknown\<close> never runs it twice,
  over any number of calls and any behaviour of the network in between; and when every call
  was refused it has not run at all.
\<close>

theorem refused_exec_can_be_repeated:
  assumes "is_exec request"
  shows "case repeat_while_safe (call_attempt to_json from_json addr) envs request d of
    (r, d', n) \<Rightarrow> n \<le> 1 \<and> (r = None \<longrightarrow> n = 0)"
  using dialer.repeat_at_most_once [OF assms, of to_json from_json addr envs d]
    dialer.never_handed_over [OF assms, of to_json from_json addr envs d]
  by (auto split: prod.splits)

theorem refused_exec_can_be_repeated_witness:
  "case repeat_while_safe (call_attempt (\<lambda>_. Ok [0]) (\<lambda>_. Ok sample_reply) sample_addr)
     [(0, sample_attempt\<lparr>at_dial := Elapsed\<rparr>, sample_attempt),
      (0, sample_attempt\<lparr>at_rpc_expired := True\<rparr>, sample_attempt), (0, sample_attempt, sample_attempt)]
     sample_exec (dialer_new [''k'']) of
    (r, d', n) \<Rightarrow> n \<le> 1 \<and> (r = None \<longrightarrow> n = 0)"
  by (rule refused_exec_can_be_repeated) (simp add: sample_exec_def)

text \<open>
  C22. One deadline covers queueing, dialing, opening streams, the exchange and any retry:
  every wait a call starts has time left, keeps the limit of its phase and ends within
  \<open>CALL_TIMEOUT\<close> of the call; a call dials at most once and submits at most twice. That
  budget is the slowest exec plus 50 seconds, and the local client waits longer than it.
\<close>

theorem call_keeps_its_deadline:
  "(case call to_json from_json now envs addr request d of (r, d', tr) \<Rightarrow>
     list_all (in_budget (now + CALL_TIMEOUT)) tr \<and> dials tr \<le> 1 \<and> submissions tr \<le> 2)
   \<and> CALL_TIMEOUT = from_secs (unat MAX_EXEC_SECONDS + 50) \<and> CALL_TIMEOUT < LOCAL_TIMEOUT"
proof (intro conjI)
  show "case call to_json from_json now envs addr request d of (r, d', tr) \<Rightarrow>
     list_all (in_budget (now + CALL_TIMEOUT)) tr \<and> dials tr \<le> 1 \<and> submissions tr \<le> 2"
  proof -
    obtain r d' tr where c: "call to_json from_json now envs addr request d = (r, d', tr)"
      by (metis prod_cases3)
    show ?thesis using call_until_trace [OF c [unfolded call_def]] c by (simp add: list_all_iff)
  qed
qed (simp_all add: timeout_defs)

text \<open>
  A request is submitted a second time only if it is not an exec, and only because the
  cached connection, open when it was taken, has closed by the time the exchange on it failed.
\<close>

theorem only_dead_connections_resubmit:
  assumes "submissions (snd (snd (call to_json from_json now envs addr request d))) = 2"
  shows "\<not> is_exec request \<and>
    (\<exists>c. at_others (fst envs) (the (d_peers d (ea_id addr))) = Some c
       \<and> \<not> at_closed (fst envs) c \<and> at_closed_after (fst envs) c)"
  using assms call_until_resubmits unfolding call_def by (metis prod.collapse)

text \<open>In the example a health check finds its reused connection closed by the peer.\<close>

definition sample_dead :: "nat attempt" where
  "sample_dead = sample_attempt\<lparr>at_others := (\<lambda>_. Some 3), at_closed_after := (\<lambda>_. True),
     at_reader := \<lparr>rd_bytes = [],
       rd_end = \<lparr>io_kind = NotConnected, io_message = [],
                 io_inner = Some (ReadConnectionLost (ApplicationClosed 0))\<rparr>\<rparr>\<rparr>"

lemma sample_dead_submits_twice:
  "submissions (snd (snd (call (\<lambda>_. Ok [0]) (\<lambda>_. Ok sample_reply) 0
     (sample_dead, sample_attempt\<lparr>at_closed := (\<lambda>_. True)\<rparr>) sample_addr Health (dialer_new [''k''])))) = 2"
  by (simp add: call_def call_until_def connection_def exchange_def within_deadline_def
      sample_dead_def sample_defs timeout_defs retry_safe_def rpc_frames_def write_frame_def
      write_all.simps open_writer_def read_frame_def read_exact.simps reader_of_def
      stream_io_kind_def lost_connection_def UNAUTHORIZED_def Let_def wait_event_def
      MAX_FRAME_def split: result.splits)

theorem only_dead_connections_resubmit_witness:
  "\<not> is_exec Health \<and>
    (\<exists>c. at_others sample_dead (the (d_peers (dialer_new [''k'']) (ea_id sample_addr))) = Some c
       \<and> \<not> at_closed sample_dead c \<and> at_closed_after sample_dead c)"
  using only_dead_connections_resubmit [OF sample_dead_submits_twice] by simp

text \<open>
  With a live cached connection to the peer a call dials nothing: it sends the request on
  that connection and returns exactly the response the peer framed, and the connection stays
  cached. The peer's reply is any frame of at most \<open>MAX_FRAME\<close> bytes.
\<close>

theorem call_reuses_live_connection:
  assumes "d_peers d (ea_id addr) = Some before" "at_others env before = Some c"
    and "at_locked env" "\<not> at_closed env c" "at_open env = Completed (Ok ())"
    and "at_start env < now + CALL_TIMEOUT" "at_open_start env < now + CALL_TIMEOUT"
    and "at_rpc_start env < now + CALL_TIMEOUT" "\<not> at_rpc_expired env"
    and "at_writer env = open_writer" "at_finish env = Ok ()"
    and "to_json request = Ok q" "length q \<le> MAX_FRAME"
    and "at_reader env = reader_of (frame_bytes a @ rest)"
    and "from_json a = Ok response" "length a \<le> MAX_FRAME"
  shows "case call to_json from_json now (env, retry) addr request d of (r, d', tr) \<Rightarrow>
    r = Ok response \<and> d_peers d' (ea_id addr) = Some (Some c)
    \<and> dials tr = 0 \<and> filter is_submission tr = [Submitted c request]"
proof -
  have "rpc_frames to_json from_json env request = Ok response"
    by (rule rpc_frames_answered [of env to_json request q a rest]) (use assms in simp_all)
  with assms show ?thesis
    by (simp add: call_def call_until_def connection_reuses [where before = before and c = c]
        exchange_def Let_def within_deadline_def wait_event_def)
qed

theorem call_reuses_live_connection_witness:
  "case call (\<lambda>_. Ok [0]) (\<lambda>b. Ok sample_reply) 0
      (sample_attempt\<lparr>at_others := (\<lambda>_. Some 3)\<rparr>, sample_attempt) sample_addr sample_exec
      (dialer_new [''k'']) of (r, d', tr) \<Rightarrow>
    r = Ok sample_reply \<and> d_peers d' (ea_id sample_addr) = Some (Some 3)
    \<and> dials tr = 0 \<and> filter is_submission tr = [Submitted 3 sample_exec]"
  by (rule call_reuses_live_connection [where a = "[1]" and rest = "[]" and q = "[0]" and before = None])
    (simp_all add: sample_defs timeout_defs MAX_FRAME_def)

text \<open>
  A peer that is not configured is never dialed and is sent nothing; and a call changes
  at most the cached connection of the peer it is for.
\<close>

theorem unconfigured_peer_never_contacted:
  "case call to_json from_json now envs addr request d of (r, d', tr) \<Rightarrow>
     dom (d_peers d') = dom (d_peers d)
     \<and> (d_peers d')(ea_id addr := x) = (d_peers d)(ea_id addr := x)
     \<and> (if d_peers d (ea_id addr) = None
        then (\<exists>e. r = Err e) \<and> d' = d \<and> dials tr = 0 \<and> submissions tr = 0 else True)"
proof -
  obtain r d' tr where c: "call to_json from_json now envs addr request d = (r, d', tr)"
    by (metis prod_cases3)
  note t = call_until_trace [OF c [unfolded call_def]]
  have "(d_peers d')(ea_id addr := x) = (d_peers d)(ea_id addr := x)"
    using t by (auto simp: fun_eq_iff)
  then show ?thesis
    using c t by (auto simp: call_def call_until_unconfigured)
qed

section \<open>One call uses one cell\<close>

text \<open>
  A call reads and writes the cell of its own peer only: what it answers, does and leaves there
  is what it would on a dialer that has no other cell.
\<close>

definition only_cell :: "endpoint_id \<Rightarrow> 'c dialer \<Rightarrow> 'c dialer" where
  "only_cell p d = \<lparr>d_peers = (\<lambda>q. if q = p then d_peers d p else None)\<rparr>"

definition put_cell :: "endpoint_id \<Rightarrow> 'c dialer \<Rightarrow> 'c dialer \<Rightarrow> 'c dialer" where
  "put_cell p own d = d\<lparr>d_peers := (d_peers d)(p := d_peers own p)\<rparr>"

lemma put_only_cell: "put_cell p (only_cell p d) d = d"
  by (simp add: put_cell_def only_cell_def)

lemma only_put_cell: "only_cell p (put_cell p own d) = only_cell p own"
  by (auto simp: put_cell_def only_cell_def)

lemma put_cell_twice: "put_cell p b (put_cell p a d) = put_cell p b d"
  by (simp add: put_cell_def)

lemma same_cell: "d_peers d p = x \<Longrightarrow> d\<lparr>d_peers := (d_peers d)(p := x)\<rparr> = (d :: 'c dialer)"
  by (cases d) (simp add: fun_upd_idem)

lemma connection_one_cell:
  "connection deadline env addr d =
     (case connection deadline env addr (only_cell (ea_id addr) d) of
        (r, own, tr) \<Rightarrow> (r, put_cell (ea_id addr) own d, tr))"
  by (cases "d_peers d (ea_id addr)")
    (auto simp: connection_def only_cell_def put_cell_def Let_def same_cell
      split: option.split timed.split result.split)

lemma connection_only_cell:
  "connection deadline env addr (only_cell (ea_id addr) d) = (r, own, tr) \<Longrightarrow>
     only_cell (ea_id addr) own = own"
  by (cases "d_peers d (ea_id addr)")
    (auto simp: connection_def only_cell_def Let_def fun_eq_iff
      split: option.splits timed.splits result.splits if_splits)

lemma call_until_one_cell:
  "call_until to_json from_json deadline envs addr request d =
     (case call_until to_json from_json deadline envs addr request (only_cell (ea_id addr) d) of
        (r, own, tr) \<Rightarrow> (r, put_cell (ea_id addr) own d, tr))"
proof -
  let ?p = "ea_id addr"
  obtain r own tr where one: "connection deadline (fst envs) addr (only_cell ?p d) = (r, own, tr)"
    by (metis prod_cases3)
  then have full: "connection deadline (fst envs) addr d = (r, put_cell ?p own d, tr)"
    by (subst connection_one_cell) simp
  have again: "connection deadline (snd envs) addr (put_cell ?p own d) =
      (case connection deadline (snd envs) addr own of (r, own2, tr) \<Rightarrow> (r, put_cell ?p own2 d, tr))"
    by (subst connection_one_cell)
      (simp add: only_put_cell connection_only_cell [OF one] put_cell_twice split: prod.split)
  show ?thesis
    by (auto simp: call_until_def one full again split: result.split prod.split)
qed

end
