(* ===== verification/Node_Config.thy ===== *)
theory Node_Config
  imports Rust_Path Checks Transport
begin

text \<open>
  The configuration of a node (\<open>config.rs\<close>) and the files derived from its path
  (\<open>layout.rs\<close>). TOML is a pair of functions, as \<open>toml::from_str\<close> and
  \<open>toml::to_string_pretty\<close> are to the code; the temporary file that \<open>save\<close> and \<open>init\<close> write
  and rename is an environment that answers each of its calls.
\<close>

section \<open>Data\<close>

record peer =
  peer_id :: endpoint_id
  peer_addrs :: "string list"

record daemon_config =
  dc_interval_secs :: u64
  dc_history_size :: usize
  dc_probes :: "probe_kind list"
  dc_max_concurrent :: usize
  dc_bind_port :: "u16 option"

record config =
  cf_identity :: path
  cf_peers :: "(string, peer) btree_map"
  cf_probe :: probe_config
  cf_daemon :: daemon_config

definition daemon_config_default :: daemon_config where
  "daemon_config_default =
     \<lparr>dc_interval_secs = 60, dc_history_size = 64, dc_probes = [Wan, Peers], dc_max_concurrent = 16,
      dc_bind_port = None\<rparr>"

definition peer_addr :: "peer \<Rightarrow> endpoint_addr" where
  "peer_addr p = \<lparr>ea_id = peer_id p, ea_addrs = peer_addrs p\<rparr>"

section \<open>Files of one configuration (layout.rs)\<close>

record layout =
  ly_config :: path
  ly_default_identity :: path
  ly_socket :: path

definition layout_new :: "path \<Rightarrow> layout" where
  "layout_new config =
     \<lparr>ly_config = config, ly_default_identity = with_extension config ''key'',
      ly_socket = with_extension config ''sock''\<rparr>"

definition socket_fits :: "layout \<Rightarrow> bool" where
  "socket_fits l \<longleftrightarrow> length (path_text (ly_socket l)) < 108"

definition layout_dir :: "layout \<Rightarrow> path" where
  "layout_dir l =
     (case path_parent (ly_config l) of Some d \<Rightarrow> d | None \<Rightarrow> Path False [])"

definition identity_lock :: "path \<Rightarrow> path" where
  "identity_lock identity = with_extension identity ''lock''"

section \<open>Validation\<close>

definition alias_char :: "char \<Rightarrow> bool" where
  "alias_char c \<longleftrightarrow> is_ascii_alphanumeric c \<or> c \<in> set ''_-''"

definition validate_alias :: "string \<Rightarrow> (unit, node_error) result" where
  "validate_alias alias =
     (if alias = ''self'' \<or> alias = [] \<or> \<not> list_all alias_char alias
      then Err (Invalid
        ''peer alias must contain letters, digits, _ or -; self is reserved'')
      else Ok ())"

definition config_peer :: "config \<Rightarrow> string \<Rightarrow> (peer, node_error) result" where
  "config_peer cfg alias = ok_or (bt_get (cf_peers cfg) alias) (Invalid (''unknown peer: '' @ alias))"

definition too_many_checks :: "probe_config \<Rightarrow> bool" where
  "too_many_checks p \<longleftrightarrow>
     list_ex (\<lambda>t. length (domains t) + length (tcp t) > 16) [wan p, lan p]
     \<or> length (services p) > 16"

definition range_checks :: "config \<Rightarrow> (string \<times> nat \<times> nat \<times> nat) list" where
  "range_checks cfg =
     [(''probe.peer_timeout_secs'', unat (peer_timeout_secs (cf_probe cfg)), 1, unat MAX_PEER_TIMEOUT_SECS),
      (''probe.timeout_secs'', unat (timeout_secs (cf_probe cfg)), 1, unat MAX_PROBE_TIMEOUT_SECS),
      (''daemon.interval_secs'', unat (dc_interval_secs (cf_daemon cfg)), 5, 3600),
      (''daemon.history_size'', dc_history_size (cf_daemon cfg), 1, 1024),
      (''daemon.max_concurrent'', dc_max_concurrent (cf_daemon cfg), 1, 256)]"

fun range_check :: "string \<times> nat \<times> nat \<times> nat \<Rightarrow> (unit, node_error) result" where
  "range_check (name, v, low, high) =
     (if low \<le> v \<and> v \<le> high then Ok ()
      else Err (Invalid (name @ '' must be in '' @ show_nat low @ ''..='' @ show_nat high)))"

definition service_target_check :: "string \<Rightarrow> (unit, node_error) result" where
  "service_target_check service =
     (if \<not> starts_with service ''tcp:'' \<and> \<not> starts_with service ''systemd:''
      then Err (Invalid ''service must use tcp: or systemd:'') else Ok ())"

definition validate :: "config \<Rightarrow> (unit, node_error) result" where
  "validate cfg =
     and_then (try_each validate_alias (bt_keys (cf_peers cfg))) (\<lambda>_.
     and_then (if too_many_checks (cf_probe cfg)
               then Err (Invalid ''at most 16 checks per probe group'') else Ok ()) (\<lambda>_.
     and_then (try_each range_check (range_checks cfg)) (\<lambda>_.
       try_each service_target_check (bt_values (services (cf_probe cfg))))))"

section \<open>Reading and writing\<close>

definition read_config ::
  "(string \<Rightarrow> (config, string) result) \<Rightarrow> files \<Rightarrow> path \<Rightarrow> (config, node_error) result" where
  "read_config from_toml files path =
     and_then (map_err NodeIo (files path)) (\<lambda>text.
     and_then (map_err ConfigRead (from_toml text)) (\<lambda>cfg.
     and_then (validate cfg) (\<lambda>_.
       Ok (if is_absolute (cf_identity cfg) then cfg
           else cfg\<lparr>cf_identity := path_join (layout_dir (layout_new path)) (cf_identity cfg)\<rparr>))))"

text \<open>What the calls on the temporary file answer, in the order the code makes them.\<close>

record write_env =
  we_create :: "(unit, io_error) result"
  we_write :: "(unit, io_error) result"
  we_sync :: "(unit, io_error) result"
  we_persist :: "(unit, io_error) result"
  we_sync_dir :: "(unit, io_error) result"

text \<open>
  Write a new file beside the target, then rename it over the target; \<open>persist\<close> is the only
  call that changes what the target holds.
\<close>

definition write_renamed ::
  "write_env \<Rightarrow> path \<Rightarrow> (string, string) result \<Rightarrow> files \<Rightarrow> (unit, node_error) result \<times> files" where
  "write_renamed env path text files =
     (case and_then (map_err NodeIo (we_create env)) (\<lambda>_.
           and_then (map_err ConfigWrite text) (\<lambda>t.
           and_then (map_err NodeIo (we_write env)) (\<lambda>_.
           and_then (map_err NodeIo (we_sync env)) (\<lambda>_.
           and_then (map_err NodeIo (we_persist env)) (\<lambda>_. Ok t))))) of
        Err e \<Rightarrow> (Err e, files)
      | Ok t \<Rightarrow> (map_err NodeIo (we_sync_dir env), files(path := Ok t)))"

definition relative_identity :: "path \<Rightarrow> config \<Rightarrow> config" where
  "relative_identity dir cfg =
     (case path_strip_prefix (cf_identity cfg) dir of
        Some relative \<Rightarrow> cfg\<lparr>cf_identity := relative\<rparr> | None \<Rightarrow> cfg)"

definition save ::
  "(config \<Rightarrow> (string, string) result) \<Rightarrow> write_env \<Rightarrow> path \<Rightarrow> config \<Rightarrow> files
   \<Rightarrow> (unit, node_error) result \<times> files" where
  "save to_toml env path cfg files =
     (case validate cfg of
        Err e \<Rightarrow> (Err e, files)
      | Ok _ \<Rightarrow>
          write_renamed env path (to_toml (relative_identity (layout_dir (layout_new path)) cfg)) files)"

section \<open>What validation guarantees\<close>

definition valid_alias :: "string \<Rightarrow> bool" where
  "valid_alias alias \<longleftrightarrow> alias \<noteq> ''self'' \<and> alias \<noteq> [] \<and> (\<forall>c \<in> set alias. alias_char c)"

definition in_range :: "nat \<Rightarrow> nat \<Rightarrow> nat \<Rightarrow> bool" where
  "in_range low high v \<longleftrightarrow> low \<le> v \<and> v \<le> high"

text \<open>The limits the documentation of the configuration promises.\<close>

definition within_limits :: "config \<Rightarrow> bool" where
  "within_limits cfg \<longleftrightarrow>
     (\<forall>alias \<in> set (bt_keys (cf_peers cfg)). valid_alias alias)
     \<and> (\<forall>t \<in> {wan (cf_probe cfg), lan (cf_probe cfg)}. length (domains t) + length (tcp t) \<le> 16)
     \<and> length (services (cf_probe cfg)) \<le> 16
     \<and> in_range 1 45 (unat (peer_timeout_secs (cf_probe cfg)))
     \<and> in_range 1 10 (unat (timeout_secs (cf_probe cfg)))
     \<and> in_range 5 3600 (unat (dc_interval_secs (cf_daemon cfg)))
     \<and> in_range 1 1024 (dc_history_size (cf_daemon cfg))
     \<and> in_range 1 256 (dc_max_concurrent (cf_daemon cfg))
     \<and> (\<forall>s \<in> set (bt_values (services (cf_probe cfg))).
          starts_with s ''tcp:'' \<or> starts_with s ''systemd:'')"

lemma validate_alias_Ok_iff: "validate_alias alias = Ok u \<longleftrightarrow> valid_alias alias"
  by (simp add: validate_alias_def valid_alias_def list_all_iff)

lemma service_target_check_Ok_iff:
  "service_target_check s = Ok u \<longleftrightarrow> starts_with s ''tcp:'' \<or> starts_with s ''systemd:''"
  by (simp add: service_target_check_def)

lemma range_check_Ok_iff: "range_check (name, v, low, high) = Ok u \<longleftrightarrow> in_range low high v"
  by (simp add: in_range_def)

lemma validate_Ok_iff: "validate cfg = Ok u \<longleftrightarrow> within_limits cfg"
proof -
  have "validate cfg = Ok u \<longleftrightarrow>
      (\<forall>alias \<in> set (bt_keys (cf_peers cfg)). validate_alias alias = Ok ())
      \<and> \<not> too_many_checks (cf_probe cfg)
      \<and> (\<forall>c \<in> set (range_checks cfg). range_check c = Ok ())
      \<and> (\<forall>s \<in> set (bt_values (services (cf_probe cfg))). service_target_check s = Ok ())"
    by (auto simp: validate_def and_then_Ok_iff try_each_unit split: if_splits)
  then show ?thesis
    by (auto simp: within_limits_def validate_alias_Ok_iff service_target_check_Ok_iff
        too_many_checks_def range_checks_def range_check_Ok_iff not_less
        MAX_PEER_TIMEOUT_SECS_def MAX_PROBE_TIMEOUT_SECS_def simp del: range_check.simps)
qed

lemma validate_error_invalid: "validate cfg = Err e \<Longrightarrow> \<exists>m. e = Invalid m"
  by (auto simp: validate_def and_then_Err_iff try_each_Err_iff validate_alias_def
      service_target_check_def split: if_splits)

text \<open>No check depends on where the identity is.\<close>

lemma validate_identity [simp]: "validate (cfg\<lparr>cf_identity := p\<rparr>) = validate cfg"
  by (simp add: validate_def range_checks_def)

lemma validate_relative [simp]: "validate (relative_identity dir cfg) = validate cfg"
  by (simp add: relative_identity_def split: option.split)

lemma config_cong: "cf_identity cfg = p \<Longrightarrow> cfg\<lparr>cf_identity := p\<rparr> = cfg"
  by simp

text \<open>Storing the identity relative to the directory loses nothing.\<close>

lemma relative_identity_inverse:
  assumes "is_absolute (cf_identity cfg)"
  shows "(let c = relative_identity dir cfg
          in if is_absolute (cf_identity c) then c
             else c\<lparr>cf_identity := path_join dir (cf_identity c)\<rparr>) = cfg"
  using assms strip_prefix_relative join_strip_prefix
  by (fastforce simp: relative_identity_def Let_def split: option.split)

lemma write_renamed_cases:
  assumes "write_renamed env path t0 files = (r, files')"
  shows "files' = files \<and> (\<exists>e. r = Err e)
     \<or> (\<exists>t. t0 = Ok t \<and> we_persist env = Ok () \<and> files' = files(path := Ok t)
          \<and> (r = Ok () \<longleftrightarrow> we_sync_dir env = Ok ()))"
  using assms
  by (auto simp: write_renamed_def result_simps split: result.splits)

lemma write_renamed_Ok:
  assumes "we_create env = Ok ()" "we_write env = Ok ()" "we_sync env = Ok ()"
    "we_persist env = Ok ()" "we_sync_dir env = Ok ()" "t0 = Ok t"
  shows "write_renamed env path t0 files = (Ok (), files(path := Ok t))"
  using assms by (simp add: write_renamed_def)

text \<open>When every call succeeds, saving writes what reading gives back.\<close>

definition writes_succeed :: "write_env \<Rightarrow> bool" where
  "writes_succeed env \<longleftrightarrow> we_create env = Ok () \<and> we_write env = Ok () \<and> we_sync env = Ok ()
     \<and> we_persist env = Ok () \<and> we_sync_dir env = Ok ()"

lemma save_reads_back:
  assumes "validate cfg = Ok ()" "is_absolute (cf_identity cfg)" "writes_succeed env"
    and "to_toml (relative_identity (layout_dir (layout_new path)) cfg) = Ok stored"
    and "from_toml stored = Ok (relative_identity (layout_dir (layout_new path)) cfg)"
  shows "save to_toml env path cfg files = (Ok (), files(path := Ok stored))
     \<and> read_config from_toml (files(path := Ok stored)) path = Ok cfg"
  using assms relative_identity_inverse [of cfg "layout_dir (layout_new path)"]
  by (simp add: save_def write_renamed_Ok read_config_def Let_def writes_succeed_def)

lemma read_config_Ok:
  assumes "read_config from_toml files path = Ok cfg" "is_absolute path" "components path \<noteq> []"
  shows "validate cfg = Ok () \<and> is_absolute (cf_identity cfg)"
proof -
  from assms(1) obtain c where "validate c = Ok ()"
    "cfg = (if is_absolute (cf_identity c) then c
            else c\<lparr>cf_identity := path_join (layout_dir (layout_new path)) (cf_identity c)\<rparr>)"
    by (auto simp: read_config_def result_simps)
  then show ?thesis
    using assms(2,3) by (simp add: path_join_def layout_dir_def layout_new_def path_parent_def)
qed

section \<open>Properties\<close>

text \<open>
  C25. A configuration that was read is within every documented limit, whatever the file held:
  \<open>validate\<close> accepts exactly the configurations within the limits, refuses the others with
  \<open>Invalid\<close>, and what \<open>read\<close> returns has passed it and names its identity by an absolute path
  if the configuration itself does.
\<close>

theorem read_config_within_limits:
  assumes "read_config from_toml files path = Ok cfg"
  shows "within_limits cfg
     \<and> (is_absolute path \<and> components path \<noteq> [] \<longrightarrow> is_absolute (cf_identity cfg))
     \<and> (\<forall>c. if within_limits c then validate c = Ok () else \<exists>m. validate c = Err (Invalid m))"
proof (intro conjI impI allI)
  from assms obtain c where c: "validate c = Ok ()"
    "cfg = (if is_absolute (cf_identity c) then c
            else c\<lparr>cf_identity := path_join (layout_dir (layout_new path)) (cf_identity c)\<rparr>)"
    by (auto simp: read_config_def result_simps)
  then have "validate cfg = Ok ()" by simp
  then show "within_limits cfg" by (simp add: validate_Ok_iff)
  assume "is_absolute path \<and> components path \<noteq> []"
  then show "is_absolute (cf_identity cfg)"
    using c(2) by (simp add: path_join_def layout_dir_def layout_new_def path_parent_def)
next
  fix c
  show "if within_limits c then validate c = Ok () else \<exists>m. validate c = Err (Invalid m)"
    using validate_Ok_iff [of c] validate_error_invalid [of c] by (cases "validate c") auto
qed

definition sample_config :: config where
  "sample_config =
     \<lparr>cf_identity = Path True [''etc'', ''sshe'', ''config.key''],
      cf_peers = [(''vps'', \<lparr>peer_id = ''k'', peer_addrs = []\<rparr>)],
      cf_probe = probe_config_default, cf_daemon = daemon_config_default\<rparr>"

definition sample_path :: path where
  "sample_path = Path True [''etc'', ''sshe'', ''config.toml'']"

lemma sample_config_valid: "validate sample_config = Ok ()"
  by (simp add: validate_def sample_config_def bt_keys_def bt_values_def validate_alias_def
      alias_char_def is_ascii_alphanumeric_def too_many_checks_def probe_config_default_def
      network_targets_default_def daemon_config_default_def range_checks_def
      MAX_PEER_TIMEOUT_SECS_def MAX_PROBE_TIMEOUT_SECS_def bt_empty_def)

theorem read_config_within_limits_witness:
  "within_limits sample_config"
proof -
  have "read_config (\<lambda>_. Ok sample_config) (\<lambda>_. Ok []) sample_path = Ok sample_config"
    using sample_config_valid by (simp add: read_config_def sample_config_def)
  from read_config_within_limits [OF this] show ?thesis by blast
qed

text \<open>
  C26. Saving is all or nothing: whatever call fails, the file at \<open>path\<close> is either untouched or
  holds exactly the new text, no other file changes, an invalid configuration is never
  written, and success is reported only once the new text is in place.
\<close>

theorem save_all_or_nothing:
  "case save to_toml env path cfg files of (r, files') \<Rightarrow>
     (files' = files \<and> is_ok r = False)
     \<or> (\<exists>t. within_limits cfg \<and> to_toml (relative_identity (layout_dir (layout_new path)) cfg) = Ok t
          \<and> files' = files(path := Ok t) \<and> is_ok r = (we_sync_dir env = Ok ()))"
proof -
  obtain r files' where s: "save to_toml env path cfg files = (r, files')" by fastforce
  show ?thesis
  proof (cases "validate cfg")
    case (Ok u)
    then have "write_renamed env path (to_toml (relative_identity (layout_dir (layout_new path)) cfg)) files
        = (r, files')" "within_limits cfg"
      using s validate_Ok_iff [of cfg u] by (simp_all add: save_def)
    then show ?thesis
      using write_renamed_cases s by (fastforce simp: is_ok_iff)
  next
    case (Err e)
    then have "r = Err e" "files' = files" using s by (simp_all add: save_def)
    then show ?thesis using s by simp
  qed
qed

text \<open>
  C27. A saved configuration is read back unchanged, its identity included, although it is
  stored relative to the directory of the configuration whenever it lies below it. TOML is
  assumed to read back the text it printed for this configuration.
\<close>

theorem saved_config_reads_back:
  assumes "validate cfg = Ok ()" "is_absolute (cf_identity cfg)"
    and "to_toml (relative_identity (layout_dir (layout_new path)) cfg) = Ok stored"
    and "from_toml stored = Ok (relative_identity (layout_dir (layout_new path)) cfg)"
    and "we_create env = Ok ()" "we_write env = Ok ()" "we_sync env = Ok ()"
      "we_persist env = Ok ()" "we_sync_dir env = Ok ()"
  shows "case save to_toml env path cfg files of (r, files') \<Rightarrow>
     r = Ok () \<and> read_config from_toml files' path = Ok cfg"
  using save_reads_back [of cfg env to_toml path stored from_toml files] assms
  by (simp add: writes_succeed_def)

theorem saved_config_reads_back_witness:
  "case save (\<lambda>_. Ok ''text'')
      \<lparr>we_create = Ok (), we_write = Ok (), we_sync = Ok (), we_persist = Ok (), we_sync_dir = Ok ()\<rparr>
      sample_path sample_config (\<lambda>_. Err (plain_io NotFound)) of (r, files') \<Rightarrow>
     r = Ok () \<and>
     read_config (\<lambda>_. Ok (sample_config\<lparr>cf_identity := Path False [''config.key'']\<rparr>)) files' sample_path
       = Ok sample_config"
  by (rule saved_config_reads_back [where stored = "''text''"])
    (simp_all add: sample_config_valid, simp_all add: sample_config_def sample_path_def
      relative_identity_def path_strip_prefix_def layout_dir_def layout_new_def path_parent_def)

end
