(* ===== verification/Probing.thy ===== *)
theory Probing
  imports Node_Config "HOL-Library.Multiset"
begin

text \<open>
  One probe round (\<open>probe.rs\<close>): the checks of \<open>sshe-core\<close> with the configuration's targets,
  and a health check of every configured peer over the dialer. Peers are checked
  concurrently; the dialer is threaded through the checks in the order of their results,
  and what other tasks do to a cached connection is in the environment of each call.
\<close>

abbreviation node_check ::
  "(transport_source \<Rightarrow> string) \<Rightarrow> probe_kind \<Rightarrow> string \<Rightarrow> string option \<Rightarrow> string
   \<Rightarrow> (json_value option, node_error) result timed \<Rightarrow> u64 \<Rightarrow> u128 \<Rightarrow> check_record" where
  "node_check source_text \<equiv> measure_check node_failure_kind (node_error_display source_text)"

section \<open>Peer checks\<close>

text \<open>\<open>pc_expired\<close>: the limit of the check passed before the call was answered.\<close>

record 'c peer_check_env =
  pc_now :: instant
  pc_attempts :: "'c attempt \<times> 'c attempt"
  pc_expired :: bool
  pc_at :: u64
  pc_elapsed :: u128

record codecs =
  to_json_request :: "request serialiser"
  from_json_request :: "request deserialiser"
  to_json_response :: "response serialiser"
  from_json_response :: "response deserialiser"
  source_text_of :: "transport_source \<Rightarrow> string"

definition health_outcome :: "(response, node_error) result \<Rightarrow> (json_value option, node_error) result" where
  "health_outcome answer =
     and_then answer (\<lambda>r.
       case r of
         HealthResponse h \<Rightarrow>
           if h_status h = ''ok'' then Ok (Some (JObject [(''version'', JString (h_version h))]))
           else Err (RemoteError (''unhealthy: '' @ h_status h))
       | ErrorResponse e \<Rightarrow> Err (RemoteError e)
       | _ \<Rightarrow> Err (Invalid ''unexpected response''))"

definition check_peer ::
  "codecs \<Rightarrow> 'c peer_check_env \<Rightarrow> string \<Rightarrow> endpoint_addr \<Rightarrow> 'c dialer \<Rightarrow> check_record \<times> 'c dialer" where
  "check_peer cs env alias addr d =
     (case call (to_json_request cs) (from_json_response cs) (pc_now env) (pc_attempts env) addr Health d of
        (answer, d', tr) \<Rightarrow>
          (node_check (source_text_of cs) Peers (ea_id addr) (Some alias) ''iroh_health''
             (if pc_expired env then Elapsed else Completed (health_outcome answer))
             (pc_at env) (pc_elapsed env), d'))"

fun check_peers ::
  "codecs \<Rightarrow> (string \<Rightarrow> 'c peer_check_env) \<Rightarrow> (string \<times> peer) list \<Rightarrow> 'c dialer
   \<Rightarrow> check_record list \<times> 'c dialer" where
  "check_peers cs env [] d = ([], d)"
| "check_peers cs env ((alias, p) # ps) d =
     (case check_peer cs (env alias) alias (peer_addr p) d of
        (r, d1) \<Rightarrow> (case check_peers cs env ps d1 of (rs, d2) \<Rightarrow> (r # rs, d2)))"

section \<open>One round\<close>

record ('f, 'c) probe_env =
  pb_to_value :: "'f host_info \<Rightarrow> (json_value, string) result"
  pb_parse_f64 :: "string \<Rightarrow> 'f option"
  pb_files :: host_files
  pb_host_expired :: bool
  pb_host_at :: u64
  pb_host_elapsed :: u128
  pb_net :: net_env
  pb_services :: service_env
  pb_peers :: "string \<Rightarrow> 'c peer_check_env"

definition run_probe ::
  "codecs \<Rightarrow> ('f, 'c) probe_env \<Rightarrow> config \<Rightarrow> 'c dialer option \<Rightarrow> probe_kind
   \<Rightarrow> (check_record list, node_error) result \<times> 'c dialer option" where
  "run_probe cs env cfg dialer kind =
     (let p = cf_probe cfg in
      case kind of
        Host \<Rightarrow>
          (Ok (host_probe (pb_to_value env) (pb_parse_f64 env) (pb_files env) (pb_host_expired env)
                 (pb_host_at env) (pb_host_elapsed env)), dialer)
      | Wan \<Rightarrow> (Ok (network (pb_net env) (wan p) kind), dialer)
      | Lan \<Rightarrow> (Ok (network (pb_net env) (lan p) kind), dialer)
      | Services \<Rightarrow> (Ok (check_services (pb_services env) (services p) (probe_timeout p)), dialer)
      | Peers \<Rightarrow>
          (case dialer of
             None \<Rightarrow> (Err (Invalid ''peer probe requires an endpoint''), dialer)
           | Some d \<Rightarrow>
               (case check_peers cs (pb_peers env) (cf_peers cfg) d of
                  (rs, d') \<Rightarrow> (Ok rs, Some d'))))"

section \<open>Lemmas\<close>

lemma check_peer_record:
  "r_kind (fst (check_peer cs env alias addr d)) = Peers"
  "r_target (fst (check_peer cs env alias addr d)) = ea_id addr"
  "r_label (fst (check_peer cs env alias addr d)) = Some alias"
  "r_method (fst (check_peer cs env alias addr d)) = ''iroh_health''"
  "fresh_record (fst (check_peer cs env alias addr d))"
  by (simp_all add: check_peer_def split_def node.checked_identity node.checked_fresh)

lemma health_outcome_Ok:
  "(\<exists>data. health_outcome answer = Ok data) \<longleftrightarrow>
     (\<exists>h. answer = Ok (HealthResponse h) \<and> h_status h = ''ok'')"
proof (cases answer)
  case (Ok r)
  then show ?thesis by (cases r) (simp_all add: health_outcome_def)
qed (simp add: health_outcome_def)

lemma check_peer_success:
  "r_success (fst (check_peer cs env name addr d)) \<longleftrightarrow>
     \<not> pc_expired env \<and>
     (\<exists>h. fst (call (to_json_request cs) (from_json_response cs) (pc_now env) (pc_attempts env) addr Health d)
            = Ok (HealthResponse h) \<and> h_status h = ''ok'')"
proof -
  obtain answer d' tr where c: "call (to_json_request cs) (from_json_response cs) (pc_now env)
      (pc_attempts env) addr Health d = (answer, d', tr)" by (metis prod_cases3)
  show ?thesis
    using health_outcome_Ok [of answer]
    by (simp add: check_peer_def c node.checked_success_iff)
qed

lemma check_peer_dialer:
  "dom (d_peers (snd (check_peer cs env alias addr d))) = dom (d_peers d)"
proof -
  obtain r d' tr where c: "call (to_json_request cs) (from_json_response cs) (pc_now env) (pc_attempts env)
      addr Health d = (r, d', tr)" by (metis prod_cases3)
  then show ?thesis
    using call_until_trace [OF c [unfolded call_def]] by (simp add: check_peer_def)
qed

lemma ea_id_peer_addr [simp]: "ea_id (peer_addr p) = peer_id p"
  by (simp add: peer_addr_def)

lemma check_peers_records:
  "map r_target (fst (check_peers cs env ps d)) = map (\<lambda>(alias, p). peer_id p) ps
   \<and> map r_label (fst (check_peers cs env ps d)) = map (\<lambda>(alias, p). Some alias) ps
   \<and> (\<forall>r \<in> set (fst (check_peers cs env ps d)). r_kind r = Peers \<and> fresh_record r)
   \<and> dom (d_peers (snd (check_peers cs env ps d))) = dom (d_peers d)"
proof (induction cs env ps d rule: check_peers.induct)
  case (1 cs env d)
  then show ?case by simp
next
  case (2 cs env name p ps d)
  obtain r d1 where one: "check_peer cs (env name) name (peer_addr p) d = (r, d1)" by fastforce
  obtain rs d2 where rest: "check_peers cs env ps d1 = (rs, d2)" by fastforce
  show ?case
    using check_peer_record [of cs "env name" name "peer_addr p" d]
      check_peer_dialer [of cs "env name" name "peer_addr p" d] 2 [OF one [symmetric]]
    by (simp add: one rest)
qed

text \<open>A peer that refuses this node is recorded as such, whatever phase the refusal shows in.\<close>

lemma unauthorized_class:
  "node_failure_kind (connect_failed e) = Unauthorized \<longleftrightarrow>
     e = ConnectingConnectionError (ApplicationClosed UNAUTHORIZED)
     \<or> e = ConnectConnectionError (ApplicationClosed UNAUTHORIZED)"
  "node_failure_kind (connection_lost c) = Unauthorized \<longleftrightarrow> c = ApplicationClosed UNAUTHORIZED"
  by (cases e) (simp_all add: connect_failed_def connection_lost_def)

section \<open>Properties\<close>

text \<open>What a round of each kind is about, in the order of the configuration.\<close>

definition configured_targets :: "config \<Rightarrow> probe_kind \<Rightarrow> string list" where
  "configured_targets cfg kind =
     (case kind of
        Host \<Rightarrow> [''host'']
      | Wan \<Rightarrow> domains (wan (cf_probe cfg)) @ tcp (wan (cf_probe cfg))
      | Lan \<Rightarrow> domains (lan (cf_probe cfg)) @ tcp (lan (cf_probe cfg))
      | Services \<Rightarrow> bt_values (services (cf_probe cfg))
      | Peers \<Rightarrow> map peer_id (bt_values (cf_peers cfg)))"

text \<open>
  A round of any kind answers with exactly one record per configured target, in order,
  each well formed and of that kind, whatever the checks found; only a peer round without an
  endpoint fails, before any check. The dialer still knows exactly the same peers.
\<close>

theorem probe_round_reports_configuration:
  "case run_probe cs env cfg dialer kind of (answer, dialer') \<Rightarrow>
     if kind = Peers \<and> dialer = None
     then answer = Err (Invalid ''peer probe requires an endpoint'')
     else (\<exists>rs. answer = Ok rs \<and> map r_target rs = configured_targets cfg kind
             \<and> (\<forall>r \<in> set rs. r_kind r = kind \<and> fresh_record r)
             \<and> map_option (\<lambda>d. dom (d_peers d)) dialer' = map_option (\<lambda>d. dom (d_peers d)) dialer)"
proof (cases kind)
  case Host
  then show ?thesis
    by (simp add: run_probe_def configured_targets_def host_probe_def core.checked_identity
        core.checked_fresh)
next
  case Lan
  then show ?thesis
    by (auto simp: run_probe_def configured_targets_def check_defs core.checked_identity
        core.checked_fresh comp_def Let_def)
next
  case Wan
  then show ?thesis
    by (auto simp: run_probe_def configured_targets_def check_defs core.checked_identity
        core.checked_fresh comp_def Let_def)
next
  case Services
  then show ?thesis
    by (auto simp: run_probe_def configured_targets_def check_services_def bt_values_def
        service_check_identity service_check_fresh comp_def Let_def)
next
  case Peers
  show ?thesis
  proof (cases dialer)
    case None
    then show ?thesis using Peers by (simp add: run_probe_def Let_def)
  next
    case (Some d)
    obtain rs d' where p: "check_peers cs (pb_peers env) (cf_peers cfg) d = (rs, d')" by fastforce
    show ?thesis
      using check_peers_records [of cs "pb_peers env" "cf_peers cfg" d]
      by (simp add: run_probe_def Let_def Peers Some p configured_targets_def bt_values_def split_def comp_def)
  qed
qed

theorem probe_round_reports_configuration_witness:
  "\<forall>cs (env :: (nat, nat) probe_env) d.
     \<exists>r. fst (run_probe cs env sample_config (Some d) Peers) = Ok [r] \<and> r_target r = ''k'' \<and> fresh_record r"
proof (intro allI)
  fix cs and env :: "(nat, nat) probe_env" and d
  show "\<exists>r. fst (run_probe cs env sample_config (Some d) Peers) = Ok [r] \<and> r_target r = ''k'' \<and> fresh_record r"
    using probe_round_reports_configuration [where kind = Peers and dialer = "Some d"
        and cs = cs and env = env and cfg = sample_config]
    by (auto simp: split_def configured_targets_def sample_config_def bt_values_def map_eq_Cons_conv)
qed

text \<open>
  A peer check succeeds exactly if the peer answered its health request within the limit
  and reports the status \<open>ok\<close>; the record names the peer by its id and its alias; an answer
  that is an error or an unhealthy status is of class \<open>Remote\<close>, running out of time of class
  \<open>Timeout\<close>, and a failed call of the class of its error.
\<close>

theorem peer_check_verdict:
  "(let answer = fst (call (to_json_request cs) (from_json_response cs) (pc_now env) (pc_attempts env)
                        addr Health d);
        r = fst (check_peer cs env name addr d)
    in r_success r = (\<not> pc_expired env \<and> (\<exists>h. answer = Ok (HealthResponse h) \<and> h_status h = ''ok''))
     \<and> r_target r = ea_id addr \<and> r_label r = Some name
     \<and> (if pc_expired env then r_error_kind r = Some Timeout
        else case answer of
          Err e \<Rightarrow> r_error_kind r = Some (node_failure_kind e)
        | Ok (ErrorResponse m) \<Rightarrow> r_error_kind r = Some Remote \<and> r_error r = Some m
        | Ok (HealthResponse h) \<Rightarrow> r_error_kind r = (if h_status h = ''ok'' then None else Some Remote)
        | Ok _ \<Rightarrow> r_error_kind r = Some Other))"
proof -
  obtain answer d' tr where c: "call (to_json_request cs) (from_json_response cs) (pc_now env)
      (pc_attempts env) addr Health d = (answer, d', tr)" by (metis prod_cases3)
  show ?thesis
    using check_peer_success [of cs env name addr d]
    by (auto simp: c Let_def check_peer_record check_peer_def measure_check_def health_outcome_def
        split: result.split response.split)
qed

section \<open>Concurrent peer checks\<close>

lemma check_peer_one_cell:
  "check_peer cs env name addr d =
     (case check_peer cs env name addr (only_cell (ea_id addr) d) of
        (r, own) \<Rightarrow> (r, put_cell (ea_id addr) own d))"
proof -
  obtain r own tr where one: "call (to_json_request cs) (from_json_response cs) (pc_now env) (pc_attempts env)
      addr Health (only_cell (ea_id addr) d) = (r, own, tr)" by (metis prod_cases3)
  then have "call (to_json_request cs) (from_json_response cs) (pc_now env) (pc_attempts env) addr Health d
      = (r, put_cell (ea_id addr) own d, tr)"
    unfolding call_def by (subst call_until_one_cell) simp
  with one show ?thesis by (simp add: check_peer_def)
qed

lemma check_peer_cong:
  assumes "d_peers d (ea_id addr) = d_peers d' (ea_id addr)"
  shows "fst (check_peer cs env name addr d) = fst (check_peer cs env name addr d')"
    and "d_peers (snd (check_peer cs env name addr d)) (ea_id addr) =
         d_peers (snd (check_peer cs env name addr d')) (ea_id addr)"
    and "q \<noteq> ea_id addr \<Longrightarrow> d_peers (snd (check_peer cs env name addr d)) q = d_peers d q"
proof -
  have same: "only_cell (ea_id addr) d = only_cell (ea_id addr) d'"
    unfolding only_cell_def assms by (rule refl)
  note one = check_peer_one_cell [of cs env name addr]
  show "fst (check_peer cs env name addr d) = fst (check_peer cs env name addr d')"
    by (subst (1 2) one) (simp add: same split: prod.split)
  show "d_peers (snd (check_peer cs env name addr d)) (ea_id addr) =
         d_peers (snd (check_peer cs env name addr d')) (ea_id addr)"
    by (subst (1 2) one) (simp add: same put_cell_def split: prod.split)
  show "d_peers (snd (check_peer cs env name addr d)) q = d_peers d q" if "q \<noteq> ea_id addr"
    using that by (subst one) (simp add: put_cell_def split: prod.split)
qed

text \<open>The cell a check leaves behind, on the dialer the round began with.\<close>

definition cells_after ::
  "codecs \<Rightarrow> (string \<Rightarrow> 'c peer_check_env) \<Rightarrow> (string \<times> peer) list \<Rightarrow> 'c dialer \<Rightarrow> 'c peers" where
  "cells_after cs env ps d k =
     (case find (\<lambda>(alias, p). peer_id p = k) ps of
        None \<Rightarrow> d_peers d k
      | Some (alias, p) \<Rightarrow> d_peers (snd (check_peer cs (env alias) alias (peer_addr p) d)) k)"

lemma check_peers_alone:
  assumes "distinct (map (\<lambda>(alias, p). peer_id p) ps)"
  shows "fst (check_peers cs env ps d) = map (\<lambda>(alias, p). fst (check_peer cs (env alias) alias (peer_addr p) d)) ps
    \<and> d_peers (snd (check_peers cs env ps d)) = cells_after cs env ps d"
  using assms
proof (induction ps arbitrary: d)
  case Nil
  then show ?case by (simp add: cells_after_def fun_eq_iff)
next
  case (Cons e ps)
  obtain name p where e: "e = (name, p)" by fastforce
  obtain r d1 where one: "check_peer cs (env name) name (peer_addr p) d = (r, d1)" by fastforce
  obtain rs d2 where rest: "check_peers cs env ps d1 = (rs, d2)" by fastforce
  have keep: "d_peers d1 q = d_peers d q" if "q \<noteq> peer_id p" for q
    using check_peer_cong(3) [of d "peer_addr p" d q cs "env name" name] that by (simp add: one)
  have others: "peer_id p' \<noteq> peer_id p" if "(name', p') \<in> set ps" for name' p'
    using Cons.prems that by (force simp: e)
  have IH: "rs = map (\<lambda>(alias, p). fst (check_peer cs (env alias) alias (peer_addr p) d1)) ps"
    "d_peers d2 = cells_after cs env ps d1"
    using Cons.IH [of d1] Cons.prems by (simp_all add: e rest)
  have "rs = map (\<lambda>(alias, p). fst (check_peer cs (env alias) alias (peer_addr p) d)) ps"
    unfolding IH(1) using others keep by (auto intro!: check_peer_cong(1))
  moreover have "d_peers d2 k = cells_after cs env (e # ps) d k" for k
  proof (cases "peer_id p = k")
    case True
    then have "find (\<lambda>(alias, q). peer_id q = k) ps = None"
      using others by (auto simp: find_None_iff)
    then show ?thesis using True by (simp add: IH(2) cells_after_def e one)
  next
    case False
    have "d_peers (snd (check_peer cs (env a) a (peer_addr q) d1)) k
        = d_peers (snd (check_peer cs (env a) a (peer_addr q) d)) k"
      if "find (\<lambda>(alias, q). peer_id q = k) ps = Some (a, q)" for a q
    proof -
      have "peer_id q = k" using that by (auto simp: find_Some_iff)
      then show ?thesis
        using check_peer_cong(2) [of d1 "peer_addr q" d] keep [of k] False by simp
    qed
    then show ?thesis
      using False keep [of k] by (auto simp: IH(2) cells_after_def e split: option.split)
  qed
  ultimately show ?case by (simp add: e one rest fun_eq_iff)
qed

lemma find_unique:
  assumes "distinct (map f xs)" "mset ys = mset xs"
  shows "find (\<lambda>x. f x = k) ys = find (\<lambda>x. f x = k) xs"
proof -
  have same: "set ys = set xs" using assms(2) by (rule mset_eq_setD)
  have "distinct (map f ys)"
    using assms by (metis mset_map mset_eq_imp_distinct_iff)
  show ?thesis
  proof (cases "find (\<lambda>x. f x = k) xs")
    case None
    then have "find (\<lambda>x. f x = k) ys = None" by (simp add: find_None_iff same)
    then show ?thesis using None by simp
  next
    case (Some x)
    then have x: "x \<in> set xs" "f x = k" by (auto simp: find_Some_iff)
    then have "find (\<lambda>x. f x = k) ys \<noteq> None" by (auto simp: find_None_iff same)
    then obtain y where y: "find (\<lambda>x. f x = k) ys = Some y" by blast
    then have "y \<in> set xs" "f y = k" using same by (auto simp: find_Some_iff)
    then have "y = x" using x assms(1) by (auto simp: distinct_map dest: inj_onD)
    then show ?thesis using y Some by simp
  qed
qed

text \<open>
  C6. Checking peers concurrently is the same as checking each alone: when the peers are
  different nodes, every record is what the check would report on the dialer as the round
  found it, whatever the other checks do, and each cell is what its own check leaves; so the
  order in which the checks run, however they interleave per peer, does not matter.
\<close>

theorem peer_checks_are_independent:
  assumes "distinct (map (\<lambda>(alias, p). peer_id p) ps)"
  shows "fst (check_peers cs env ps d) = map (\<lambda>(alias, p). fst (check_peer cs (env alias) alias (peer_addr p) d)) ps
    \<and> d_peers (snd (check_peers cs env ps d)) = cells_after cs env ps d
    \<and> (mset qs = mset ps \<longrightarrow>
         mset (fst (check_peers cs env qs d)) = mset (fst (check_peers cs env ps d))
         \<and> d_peers (snd (check_peers cs env qs d)) = d_peers (snd (check_peers cs env ps d)))"
proof (intro conjI impI)
  show "fst (check_peers cs env ps d) = map (\<lambda>(alias, p). fst (check_peer cs (env alias) alias (peer_addr p) d)) ps"
    "d_peers (snd (check_peers cs env ps d)) = cells_after cs env ps d"
    using check_peers_alone [OF assms] by blast+
  assume order: "mset qs = mset ps"
  then have "distinct (map (\<lambda>(alias, p). peer_id p) qs)"
    using assms by (metis mset_map mset_eq_imp_distinct_iff)
  note alone = check_peers_alone [OF assms] check_peers_alone [OF this]
  show "mset (fst (check_peers cs env qs d)) = mset (fst (check_peers cs env ps d))"
    using order by (simp add: alone)
  have "find (\<lambda>(alias, p). peer_id p = k) qs = find (\<lambda>(alias, p). peer_id p = k) ps" for k
    using find_unique [OF assms order, of k] unfolding case_prod_unfold .
  then show "d_peers (snd (check_peers cs env qs d)) = d_peers (snd (check_peers cs env ps d))"
    by (simp add: alone cells_after_def fun_eq_iff)
qed

theorem peer_checks_are_independent_witness:
  "\<forall>cs (env :: string \<Rightarrow> nat peer_check_env) d.
     mset (fst (check_peers cs env [(''b'', \<lparr>peer_id = ''m'', peer_addrs = []\<rparr>), (''a'', \<lparr>peer_id = ''k'', peer_addrs = []\<rparr>)] d))
     = mset (fst (check_peers cs env [(''a'', \<lparr>peer_id = ''k'', peer_addrs = []\<rparr>), (''b'', \<lparr>peer_id = ''m'', peer_addrs = []\<rparr>)] d))"
proof (intro allI)
  fix cs and env :: "string \<Rightarrow> nat peer_check_env" and d
  let ?a = "(''a'', \<lparr>peer_id = ''k'', peer_addrs = []\<rparr>)" and ?b = "(''b'', \<lparr>peer_id = ''m'', peer_addrs = []\<rparr>)"
  have "distinct (map (\<lambda>(alias, p). peer_id p) [?a, ?b])" "mset [?b, ?a] = mset [?a, ?b]" by simp_all
  then show "mset (fst (check_peers cs env [?b, ?a] d)) = mset (fst (check_peers cs env [?a, ?b] d))"
    using peer_checks_are_independent [of "[?a, ?b]" cs env d "[?b, ?a]"] by blast
qed

end
