(* ===== verification/History.thy ===== *)
theory History
  imports Protocol "HOL-Library.Multiset"
begin

text \<open>
  The in-memory history of probe results (\<open>history.rs\<close>): bounded per series, with the time
  of the last success surviving eviction. The abstract view is the log of everything that
  was ever inserted; \<open>history_refines_log\<close> says what the bounded structure keeps of it. The
  locale \<open>record_store\<close> is the contract the sampler relies on.
\<close>

section \<open>State and operations\<close>

type_synonym series_key = "probe_kind \<times> string \<times> string"

record series =
  sr_records :: "check_record list"
  sr_last_success_at :: "u64 option"

record history =
  h_capacity :: usize
  h_series :: "(series_key, series) btree_map"

datatype transition = First | Failed | Recovered "u64 option" | Unchanged

definition series_default :: series where
  "series_default = \<lparr>sr_records = [], sr_last_success_at = None\<rparr>"

definition history_new :: "usize \<Rightarrow> history" where
  "history_new capacity = \<lparr>h_capacity = max capacity 1, h_series = bt_empty\<rparr>"

definition record_key :: "check_record \<Rightarrow> series_key" where
  "record_key r = (r_kind r, r_method r, r_target r)"

definition newest :: "'a list \<Rightarrow> 'a option" where
  "newest xs = (if xs = [] then None else Some (last xs))"

fun transition_of :: "bool option \<Rightarrow> bool \<Rightarrow> u64 option \<Rightarrow> transition" where
  "transition_of None success at = First"
| "transition_of (Some True) False at = Failed"
| "transition_of (Some False) True at = Recovered at"
| "transition_of _ _ at = Unchanged"

definition history_insert ::
  "history \<Rightarrow> check_record \<Rightarrow> transition \<times> check_record \<times> history" where
  "history_insert h r =
     (let key = record_key r;
          s = (case bt_get (h_series h) key of Some s \<Rightarrow> s | None \<Rightarrow> series_default);
          t = transition_of (map_option r_success (newest (sr_records s))) (r_success r)
                (sr_last_success_at s);
          last_ok = (if r_success r then Some (r_observed_at r) else sr_last_success_at s);
          r' = r\<lparr>r_last_success_at := last_ok\<rparr>;
          kept = (if length (sr_records s) = h_capacity h then tl (sr_records s) else sr_records s);
          s' = \<lparr>sr_records = kept @ [r'], sr_last_success_at = last_ok\<rparr>
      in (t, r', h\<lparr>h_series := bt_insert key s' (h_series h)\<rparr>))"

definition about_matches :: "string option \<Rightarrow> check_record \<Rightarrow> bool" where
  "about_matches about r \<longleftrightarrow>
     (case about of None \<Rightarrow> True | Some a \<Rightarrow> r_target r = a \<or> r_label r = Some a)"

definition kind_matches :: "probe_kind option \<Rightarrow> probe_kind \<Rightarrow> bool" where
  "kind_matches kind k \<longleftrightarrow> (case kind of None \<Rightarrow> True | Some k' \<Rightarrow> k' = k)"

definition matching_records ::
  "history \<Rightarrow> probe_kind option \<Rightarrow> string option \<Rightarrow> check_record list" where
  "matching_records h kind about =
     filter (about_matches about)
       (concat (map (\<lambda>(_, s). sr_records s)
          (filter (\<lambda>((k, _, _), _). kind_matches kind k) (h_series h))))"

text \<open>\<open>sort_by_key\<close> is stable, as \<open>sort_key\<close> is; \<open>split_off\<close> returns the tail.\<close>

definition history_query ::
  "history \<Rightarrow> probe_kind option \<Rightarrow> string option \<Rightarrow> usize \<Rightarrow> check_record list" where
  "history_query h kind about limit =
     (let records = sort_key r_observed_at (matching_records h kind about);
          keep = min limit MAX_HISTORY_QUERY
      in drop (length records - keep) records)"

text \<open>The loop of the sampler over one round's records.\<close>

fun insert_all ::
  "('h \<Rightarrow> check_record \<Rightarrow> transition \<times> check_record \<times> 'h) \<Rightarrow> 'h \<Rightarrow> check_record list
   \<Rightarrow> (transition \<times> check_record) list \<times> 'h" where
  "insert_all ins h [] = ([], h)"
| "insert_all ins h (r # rs) =
     (case ins h r of
        (t, r', h1) \<Rightarrow> (case insert_all ins h1 rs of (out, h2) \<Rightarrow> ((t, r') # out, h2)))"

lemma insert_all_Cons:
  "fst (insert_all ins h (r # rs)) =
     (fst (ins h r), fst (snd (ins h r))) # fst (insert_all ins (snd (snd (ins h r))) rs)"
  "snd (insert_all ins h (r # rs)) = snd (insert_all ins (snd (snd (ins h r))) rs)"
  by (simp_all add: split_def)

lemma insert_all_append:
  "insert_all ins h (rs @ qs) =
     (case insert_all ins h rs of
        (out, h1) \<Rightarrow> (case insert_all ins h1 qs of (out', h2) \<Rightarrow> (out @ out', h2)))"
  by (induction rs arbitrary: h) (auto split: prod.splits)

declare insert_all.simps(2) [simp del] insert_all_Cons [simp]

lemma insert_all_length: "length (fst (insert_all ins h rs)) = length rs"
  by (induction rs arbitrary: h) auto

section \<open>The contract of a record store\<close>

locale record_store =
  fixes ins :: "'h \<Rightarrow> check_record \<Rightarrow> transition \<times> check_record \<times> 'h"
    and stored :: "'h \<Rightarrow> series_key \<Rightarrow> check_record list"
    and inv :: "'h \<Rightarrow> bool"
  assumes inv_ins: "inv h \<Longrightarrow> ins h r = (t, r', h') \<Longrightarrow> inv h'"
    and ins_annotates: "ins h r = (t, r', h') \<Longrightarrow> \<exists>l. r' = r\<lparr>r_last_success_at := l\<rparr>"
    and ins_newest: "inv h \<Longrightarrow> ins h r = (t, r', h') \<Longrightarrow>
      stored h' (record_key r) \<noteq> [] \<and> last (stored h' (record_key r)) = r'"
    and ins_other: "inv h \<Longrightarrow> ins h r = (t, r', h') \<Longrightarrow> k \<noteq> record_key r \<Longrightarrow>
      stored h' k = stored h k"
begin

lemma ins_step:
  "inv h \<Longrightarrow> inv (snd (snd (ins h r)))"
  "\<exists>l. fst (snd (ins h r)) = r\<lparr>r_last_success_at := l\<rparr>"
  using inv_ins [of h r] ins_annotates [of h r] by (metis prod.collapse)+

lemma inv_insert_all: "inv h \<Longrightarrow> inv (snd (insert_all ins h rs))"
  by (induction rs arbitrary: h) (auto intro: ins_step)

text \<open>A round's records come newest with only the last-success time rewritten.\<close>

lemma insert_all_annotates:
  "list_all2 (\<lambda>r (t, r'). \<exists>l. r' = r\<lparr>r_last_success_at := l\<rparr>) rs (fst (insert_all ins h rs))"
  by (induction rs arbitrary: h) (auto intro: ins_step)

text \<open>Series that no record of the round belongs to are untouched.\<close>

lemma insert_all_other:
  "inv h \<Longrightarrow> k \<notin> record_key ` set rs \<Longrightarrow> stored (snd (insert_all ins h rs)) k = stored h k"
proof (induction rs arbitrary: h)
  case Nil
  then show ?case by simp
next
  case (Cons r rs)
  obtain t r' h1 where one: "ins h r = (t, r', h1)" by (metis surj_pair)
  have "stored (snd (insert_all ins h1 rs)) k = stored h1 k"
    using Cons one by (auto dest: inv_ins)
  also have "stored h1 k = stored h k"
    using Cons.prems one by (auto intro: ins_other)
  finally show ?case by (simp add: one)
qed

text \<open>The last record of a round is the newest of its series.\<close>

lemma insert_all_newest:
  assumes "inv h"
  shows "last (stored (snd (insert_all ins h (rs @ [r]))) (record_key r)) =
      snd (last (fst (insert_all ins h (rs @ [r]))))"
proof -
  obtain out h1 where a: "insert_all ins h rs = (out, h1)" by fastforce
  obtain t r' h2 where b: "ins h1 r = (t, r', h2)" by (metis surj_pair)
  have "inv h1" using inv_insert_all [OF assms, of rs] a by simp
  then show ?thesis using ins_newest [OF _ b] by (simp add: insert_all_append a b insert_all.simps)
qed

end

section \<open>What the history keeps of the log\<close>

definition success_step :: "u64 option \<Rightarrow> check_record \<Rightarrow> u64 option" where
  "success_step l r = (if r_success r then Some (r_observed_at r) else l)"

definition last_success :: "check_record list \<Rightarrow> u64 option" where
  "last_success rs = foldl success_step None rs"

fun annotate :: "u64 option \<Rightarrow> check_record list \<Rightarrow> check_record list" where
  "annotate l [] = []"
| "annotate l (r # rs) =
     r\<lparr>r_last_success_at := success_step l r\<rparr> # annotate (success_step l r) rs"

definition take_last :: "nat \<Rightarrow> 'a list \<Rightarrow> 'a list" where
  "take_last n xs = drop (length xs - n) xs"

definition of_series :: "series_key \<Rightarrow> check_record list \<Rightarrow> check_record list" where
  "of_series k log = filter (\<lambda>r. record_key r = k) log"

definition log_series :: "nat \<Rightarrow> check_record list \<Rightarrow> series_key \<Rightarrow> series option" where
  "log_series capacity log k =
     (if of_series k log = [] then None
      else Some \<lparr>sr_records = take_last capacity (annotate None (of_series k log)),
                 sr_last_success_at = last_success (of_series k log)\<rparr>)"

lemma annotate_snoc:
  "annotate l (rs @ [r]) = annotate l rs @ [r\<lparr>r_last_success_at := success_step (foldl success_step l rs) r\<rparr>]"
  by (induction rs arbitrary: l) auto

lemma annotate_eq_Nil [simp]: "annotate l rs = [] \<longleftrightarrow> rs = []"
  by (cases rs) auto

lemma length_annotate [simp]: "length (annotate l rs) = length rs"
  by (induction rs arbitrary: l) auto

lemma annotate_success: "map r_success (annotate l rs) = map r_success rs"
  by (induction rs arbitrary: l) auto

lemma last_success_snoc [simp]: "last_success (rs @ [r]) = success_step (last_success rs) r"
  by (simp add: last_success_def)

lemma length_take_last [simp]: "length (take_last n xs) = min n (length xs)"
  by (auto simp: take_last_def)

lemma take_last_snoc:
  assumes "1 \<le> n"
  shows "take_last n (xs @ [x]) =
     (if length (take_last n xs) = n then tl (take_last n xs) else take_last n xs) @ [x]"
proof (cases "n \<le> length xs")
  case True
  with assms have "Suc (length xs) - n = Suc (length xs - n)" by simp
  with True assms show ?thesis
    by (simp add: take_last_def min_def drop_Suc tl_drop)
next
  case False
  then show ?thesis by (simp add: take_last_def)
qed

lemma take_last_eq_Nil: "1 \<le> n \<Longrightarrow> take_last n xs = [] \<longleftrightarrow> xs = []"
  by (metis length_0_conv length_take_last min_0L min_0R nat_neq_iff not_less_eq_eq One_nat_def
      le_zero_eq min_def)

lemma last_take_last: "1 \<le> n \<Longrightarrow> xs \<noteq> [] \<Longrightarrow> last (take_last n xs) = last xs"
  by (simp add: take_last_def last_drop)

lemma of_series_snoc:
  "of_series k (log @ [r]) = (if record_key r = k then of_series k log @ [r] else of_series k log)"
  by (simp add: of_series_def)

text \<open>The state after a log: well formed, and every series is the log's.\<close>

definition represents :: "history \<Rightarrow> nat \<Rightarrow> check_record list \<Rightarrow> bool" where
  "represents h capacity log \<longleftrightarrow>
     bt_wf (h_series h) \<and> h_capacity h = capacity \<and> 1 \<le> capacity
     \<and> (\<forall>k. bt_get (h_series h) k = log_series capacity log k)"

lemma represents_new: "represents (history_new capacity) (max capacity 1) []"
  by (simp add: represents_def history_new_def log_series_def of_series_def)

lemma represents_previous:
  assumes "represents h capacity log"
  shows "(case bt_get (h_series h) k of Some s \<Rightarrow> s | None \<Rightarrow> series_default) =
     \<lparr>sr_records = take_last capacity (annotate None (of_series k log)),
      sr_last_success_at = last_success (of_series k log)\<rparr>"
proof -
  have "bt_get (h_series h) k = log_series capacity log k"
    using assms unfolding represents_def by blast
  then show ?thesis
    by (simp add: log_series_def series_default_def take_last_def last_success_def)
qed

definition previous_success :: "check_record list \<Rightarrow> bool option" where
  "previous_success rs = map_option r_success (newest rs)"

lemma previous_success_kept:
  assumes "1 \<le> n"
  shows "map_option r_success (newest (take_last n (annotate None rs))) = previous_success rs"
proof (cases "rs = []")
  case True
  then show ?thesis by (simp add: previous_success_def newest_def take_last_def)
next
  case False
  have "r_success (last (annotate None rs)) = last (map r_success (annotate None rs))"
    using False by (simp add: last_map)
  also have "\<dots> = r_success (last rs)"
    using False by (simp add: annotate_success last_map)
  finally show ?thesis
    using False assms
    by (simp add: previous_success_def newest_def take_last_eq_Nil last_take_last)
qed

lemma history_insert_log:
  assumes rep: "represents h capacity log"
    and ins: "history_insert h r = (t, r', h')"
  shows "represents h' capacity (log @ [r])"
    and "t = transition_of (previous_success (of_series (record_key r) log)) (r_success r)
               (last_success (of_series (record_key r) log))"
    and "r' = r\<lparr>r_last_success_at := last_success (of_series (record_key r) (log @ [r]))\<rparr>"
proof -
  let ?k = "record_key r"
  let ?rs = "of_series ?k log"
  from rep have cap: "h_capacity h = capacity" "1 \<le> capacity" and wf: "bt_wf (h_series h)"
    and get: "\<And>k. bt_get (h_series h) k = log_series capacity log k"
    by (auto simp: represents_def)
  have eq: "history_insert h r =
      (transition_of (previous_success ?rs) (r_success r) (last_success ?rs),
       r\<lparr>r_last_success_at := last_success (?rs @ [r])\<rparr>,
       h\<lparr>h_series := bt_insert ?k
         \<lparr>sr_records = take_last capacity (annotate None (?rs @ [r])),
          sr_last_success_at = last_success (?rs @ [r])\<rparr> (h_series h)\<rparr>)"
    unfolding history_insert_def represents_previous [OF rep] Let_def
    using cap
    by (simp add: previous_success_kept annotate_snoc take_last_snoc success_step_def
        last_success_def [symmetric])
  show t: "t = transition_of (previous_success ?rs) (r_success r) (last_success ?rs)"
    using ins by (simp add: eq)
  show r': "r' = r\<lparr>r_last_success_at := last_success (of_series ?k (log @ [r]))\<rparr>"
    using ins by (simp add: eq of_series_snoc)
  let ?s = "\<lparr>sr_records = take_last capacity (annotate None (?rs @ [r])),
             sr_last_success_at = last_success (?rs @ [r])\<rparr>"
  have h': "h' = h\<lparr>h_series := bt_insert ?k ?s (h_series h)\<rparr>"
    using ins by (simp add: eq)
  show "represents h' capacity (log @ [r])"
    using wf cap get
    by (auto simp: represents_def h' btree.wf_put btree.get_put log_series_def of_series_snoc)
qed

lemma insert_all_log:
  assumes "represents h capacity log"
  shows "represents (snd (insert_all history_insert h rs)) capacity (log @ rs)"
  using assms
proof (induction rs arbitrary: h log)
  case Nil
  then show ?case by simp
next
  case (Cons r rs)
  obtain t r' h1 where one: "history_insert h r = (t, r', h1)" by (metis surj_pair)
  from history_insert_log(1) [OF Cons.prems one] have "represents h1 capacity (log @ [r])" .
  from Cons.IH [OF this] show ?case by (simp add: one)
qed

lemma last_success_filter:
  "last_success rs =
     (case filter r_success rs of [] \<Rightarrow> None | s # ss \<Rightarrow> Some (r_observed_at (last (s # ss))))"
proof (induction rs rule: rev_induct)
  case Nil
  then show ?case by (simp add: last_success_def)
next
  case (snoc r rs)
  then show ?case by (auto simp: success_step_def split: list.splits)
qed

lemma insert_all_records:
  assumes "represents h capacity log" "i < length rs"
  shows "snd (fst (insert_all history_insert h rs) ! i) =
     (rs ! i)\<lparr>r_last_success_at :=
        last_success (of_series (record_key (rs ! i)) (log @ take (Suc i) rs))\<rparr>"
  using assms
proof (induction rs arbitrary: h log i)
  case Nil
  then show ?case by simp
next
  case (Cons r rs)
  obtain t r' h1 where one: "history_insert h r = (t, r', h1)" by (metis surj_pair)
  note step = history_insert_log [OF Cons.prems(1) one]
  show ?case
  proof (cases i)
    case 0
    then show ?thesis by (simp add: one step(3))
  next
    case (Suc j)
    with Cons.IH [OF step(1), of j] Cons.prems(2) show ?thesis by (simp add: one)
  qed
qed

section \<open>The history provides the contract\<close>

definition history_stored :: "history \<Rightarrow> series_key \<Rightarrow> check_record list" where
  "history_stored h k =
     (case bt_get (h_series h) k of None \<Rightarrow> [] | Some s \<Rightarrow> sr_records s)"

definition series_ok :: "usize \<Rightarrow> series_key \<Rightarrow> series \<Rightarrow> bool" where
  "series_ok capacity k s \<longleftrightarrow>
     sr_records s \<noteq> [] \<and> length (sr_records s) \<le> capacity
     \<and> (\<forall>r \<in> set (sr_records s). record_key r = k)
     \<and> r_last_success_at (last (sr_records s)) = sr_last_success_at s"

definition history_wf :: "history \<Rightarrow> bool" where
  "history_wf h \<longleftrightarrow>
     1 \<le> h_capacity h \<and> bt_wf (h_series h)
     \<and> (\<forall>k s. bt_get (h_series h) k = Some s \<longrightarrow> series_ok (h_capacity h) k s)"

lemma history_wfD:
  assumes "history_wf h"
  shows "bt_wf (h_series h)"
    and "bt_get (h_series h) k = Some s \<Longrightarrow> series_ok (h_capacity h) k s"
    and "1 \<le> h_capacity h"
  using assms unfolding history_wf_def by blast+

lemma history_wf_new: "history_wf (history_new capacity)"
  by (simp add: history_wf_def history_new_def)

lemma record_key_annotated [simp]: "record_key (r\<lparr>r_last_success_at := l\<rparr>) = record_key r"
  by (simp add: record_key_def)

lemma series_ok_push:
  assumes "s = series_default \<or> series_ok c (record_key r) s" "1 \<le> c"
  shows "series_ok c (record_key r)
     \<lparr>sr_records = (if length (sr_records s) = c then tl (sr_records s) else sr_records s)
                     @ [r\<lparr>r_last_success_at := l\<rparr>], sr_last_success_at = l\<rparr>"
  using assms by (auto simp: series_ok_def series_default_def dest: list.set_sel(2))

lemma history_wf_update:
  assumes "history_wf h" "series_ok (h_capacity h) k s"
  shows "history_wf (h\<lparr>h_series := bt_insert k s (h_series h)\<rparr>)"
  using assms history_wfD [OF assms(1)]
  by (simp add: history_wf_def btree.wf_put btree.get_put del: split_paired_All)

lemma history_insert_wf:
  assumes wf: "history_wf h" and ins: "history_insert h r = (t, r', h')"
  shows "history_wf h'"
proof -
  let ?s = "case bt_get (h_series h) (record_key r) of Some s \<Rightarrow> s | None \<Rightarrow> series_default"
  have "?s = series_default \<or> series_ok (h_capacity h) (record_key r) ?s"
    using history_wfD(2) [OF wf] by (auto split: option.split)
  note ok = series_ok_push [OF this history_wfD(3) [OF wf]]
  show ?thesis
    using history_wf_update [OF wf ok] ins by (auto simp: history_insert_def Let_def)
qed

interpretation store: record_store history_insert history_stored history_wf
proof unfold_locales
  fix h r t r' h'
  assume ins: "history_insert h r = (t, r', h')"
  show "\<exists>l. r' = r\<lparr>r_last_success_at := l\<rparr>"
    using ins by (auto simp: history_insert_def Let_def)
  assume wf: "history_wf h"
  show "history_wf h'"
    using wf ins by (rule history_insert_wf)
  show "history_stored h' (record_key r) \<noteq> [] \<and> last (history_stored h' (record_key r)) = r'"
    using wf ins
    by (auto simp: history_wf_def history_insert_def Let_def history_stored_def btree.get_put)
  fix k
  assume "k \<noteq> record_key r"
  then show "history_stored h' k = history_stored h k"
    using wf ins
    by (auto simp: history_wf_def history_insert_def Let_def history_stored_def btree.get_put)
qed

section \<open>Queries\<close>

lemma matching_records_iff:
  assumes "history_wf h"
  shows "r \<in> set (matching_records h kind about) \<longleftrightarrow>
     r \<in> set (history_stored h (record_key r)) \<and> kind_matches kind (r_kind r) \<and> about_matches about r"
proof
  assume "r \<in> set (matching_records h kind about)"
  then obtain k m t s where s: "((k, m, t), s) \<in> set (h_series h)" "r \<in> set (sr_records s)"
    and match: "kind_matches kind k" "about_matches about r"
    by (auto simp: matching_records_def)
  have get: "bt_get (h_series h) (k, m, t) = Some s"
    using s(1) by (simp add: btree.entries_get history_wfD(1) [OF assms])
  from history_wfD(2) [OF assms this] s(2) have "record_key r = (k, m, t)"
    by (simp add: series_ok_def)
  with get s(2) match show "r \<in> set (history_stored h (record_key r)) \<and>
      kind_matches kind (r_kind r) \<and> about_matches about r"
    by (auto simp: history_stored_def record_key_def)
next
  assume r: "r \<in> set (history_stored h (record_key r)) \<and> kind_matches kind (r_kind r) \<and> about_matches about r"
  then obtain s where s: "bt_get (h_series h) (record_key r) = Some s" "r \<in> set (sr_records s)"
    by (cases "bt_get (h_series h) (record_key r)") (simp_all add: history_stored_def)
  then have "(record_key r, s) \<in> set (h_series h)"
    by (simp add: btree.entries_get history_wfD(1) [OF assms])
  with r s(2) show "r \<in> set (matching_records h kind about)"
    by (force simp: matching_records_def record_key_def)
qed

lemma sorted_drop_later:
  assumes "sorted (map f xs)" "x \<in> set (take n xs)" "y \<in> set (drop n xs)"
  shows "f x \<le> f y"
proof -
  have "sorted (map f (take n xs) @ map f (drop n xs))"
    using assms(1) by (simp flip: map_append)
  with assms(2,3) show ?thesis by (auto simp: sorted_append)
qed

section \<open>Transitions along a series\<close>

text \<open>After the first record: a failure only from success, a recovery only from failure.\<close>

fun alternating :: "bool \<Rightarrow> transition list \<Rightarrow> bool" where
  "alternating up [] = True"
| "alternating up (First # ts) = False"
| "alternating up (Failed # ts) = (up \<and> alternating False ts)"
| "alternating up (Recovered l # ts) = (\<not> up \<and> alternating True ts)"
| "alternating up (Unchanged # ts) = alternating up ts"

definition series_transitions ::
  "series_key \<Rightarrow> (transition \<times> check_record) list \<Rightarrow> transition list" where
  "series_transitions k out = map fst (filter (\<lambda>(t, r). record_key r = k) out)"

lemma previous_success_snoc [simp]: "previous_success (rs @ [r]) = Some (r_success r)"
  by (simp add: previous_success_def newest_def)

lemma transitions_alternate:
  assumes "represents h capacity log" "previous_success (of_series k log) = Some up"
  shows "alternating up (series_transitions k (fst (insert_all history_insert h rs)))"
  using assms
proof (induction rs arbitrary: h log up)
  case Nil
  then show ?case by (simp add: series_transitions_def)
next
  case (Cons r rs)
  obtain t r' h1 where one: "history_insert h r = (t, r', h1)" by (metis surj_pair)
  note step = history_insert_log [OF Cons.prems(1) one]
  show ?case
  proof (cases "record_key r = k")
    case True
    have "alternating (r_success r) (series_transitions k (fst (insert_all history_insert h1 rs)))"
      using True by (intro Cons.IH [OF step(1)]) (simp add: of_series_snoc)
    moreover have "t = transition_of (Some up) (r_success r) (last_success (of_series k log))"
      using step(2) True Cons.prems(2) by simp
    ultimately show ?thesis
      using True step(3) by (cases up; cases "r_success r") (simp_all add: one series_transitions_def)
  next
    case False
    have "alternating up (series_transitions k (fst (insert_all history_insert h1 rs)))"
      using False Cons.prems(2) by (intro Cons.IH [OF step(1)]) (simp add: of_series_snoc)
    with False step(3) show ?thesis by (simp add: one series_transitions_def)
  qed
qed

lemma transitions_first:
  assumes "represents h capacity log" "of_series k log = []"
  shows "series_transitions k (fst (insert_all history_insert h rs)) = []
     \<or> (\<exists>up ts. series_transitions k (fst (insert_all history_insert h rs)) = First # ts
           \<and> alternating up ts)"
  using assms
proof (induction rs arbitrary: h log)
  case Nil
  then show ?case by (simp add: series_transitions_def)
next
  case (Cons r rs)
  obtain t r' h1 where one: "history_insert h r = (t, r', h1)" by (metis surj_pair)
  note step = history_insert_log [OF Cons.prems(1) one]
  show ?case
  proof (cases "record_key r = k")
    case True
    have "alternating (r_success r) (series_transitions k (fst (insert_all history_insert h1 rs)))"
      using True by (intro transitions_alternate [OF step(1)]) (simp add: of_series_snoc)
    moreover have "t = First"
      using step(2) True Cons.prems(2) by (simp add: previous_success_def newest_def)
    ultimately show ?thesis using True step(3) by (auto simp: one series_transitions_def)
  next
    case False
    have "series_transitions k (fst (insert_all history_insert h (r # rs))) =
        series_transitions k (fst (insert_all history_insert h1 rs))"
      using False step(3) by (simp add: one series_transitions_def)
    with Cons.IH [OF step(1)] False Cons.prems(2) show ?thesis
      by (simp add: of_series_snoc)
  qed
qed

text \<open>A series of the history is the end of what was handed back for it.\<close>

lemma represents_stored:
  assumes "represents h capacity log"
  shows "history_stored h k = take_last capacity (annotate None (of_series k log))"
proof -
  have "bt_get (h_series h) k = log_series capacity log k"
    using assms unfolding represents_def by blast
  then show ?thesis by (simp add: history_stored_def log_series_def take_last_def)
qed

lemma annotated_series:
  "filter (\<lambda>x. record_key x = k) (map snd (fst (insert_all history_insert (history_new capacity) log)))
     = annotate None (of_series k log)"
proof (induction log rule: rev_induct)
  case Nil
  show ?case by (simp add: of_series_def)
next
  case (snoc r log)
  let ?h = "snd (insert_all history_insert (history_new capacity) log)"
  have rep: "represents ?h (max capacity 1) log"
    using insert_all_log [OF represents_new, of capacity log] by simp
  obtain t r' h' where ins: "history_insert ?h r = (t, r', h')" by (metis surj_pair)
  have r': "r' = r\<lparr>r_last_success_at := last_success (of_series (record_key r) (log @ [r]))\<rparr>"
    by (rule history_insert_log(3) [OF rep ins])
  have "map snd (fst (insert_all history_insert (history_new capacity) (log @ [r])))
      = map snd (fst (insert_all history_insert (history_new capacity) log)) @ [r']"
    using ins by (simp add: insert_all_append split_def)
  then show ?case
    using snoc by (simp add: r' of_series_snoc annotate_snoc last_success_def [symmetric])
qed

lemma history_stored_log:
  "history_stored (snd (insert_all history_insert (history_new capacity) log)) k =
     take_last (max capacity 1)
       (filter (\<lambda>x. record_key x = k) (map snd (fst (insert_all history_insert (history_new capacity) log))))"
  using represents_stored [OF insert_all_log [OF represents_new, of capacity log], of k]
  by (simp add: annotated_series)

section \<open>Properties\<close>

text \<open>
  C11. The bounded history is exactly what its contract promises of the unbounded log: after
  any sequence of insertions, every series holds the most recent \<open>capacity\<close> records of that
  (kind, method, target), each annotated with the time of the last success up to it, and the
  time of the last success over the whole series, evicted records included; and the records
  handed back to the caller carry the same annotation.
\<close>

theorem history_refines_log:
  "(let (out, h) = insert_all history_insert (history_new capacity) log in
      bt_wf (h_series h)
      \<and> (\<forall>k. bt_get (h_series h) k = log_series (max capacity 1) log k)
      \<and> map snd out =
          map (\<lambda>i. (log ! i)\<lparr>r_last_success_at :=
                 last_success (of_series (record_key (log ! i)) (take (Suc i) log))\<rparr>) [0..<length log])"
proof -
  obtain out h where run: "insert_all history_insert (history_new capacity) log = (out, h)"
    by fastforce
  note new = represents_new [of capacity]
  have "represents h (max capacity 1) log"
    using insert_all_log [OF new, of log] by (simp add: run)
  moreover have "map snd out =
      map (\<lambda>i. (log ! i)\<lparr>r_last_success_at :=
             last_success (of_series (record_key (log ! i)) (take (Suc i) log))\<rparr>) [0..<length log]"
    using insert_all_records [OF new, of _ log] insert_all_length [of history_insert "history_new capacity" log]
    by (intro nth_equalityI) (simp_all add: run)
  ultimately show ?thesis
    unfolding represents_def run by simp
qed

text \<open>
  C12. A query returns the most recent \<open>min limit 1000\<close> of the matching records, oldest
  first: sorted by observation time, every returned record matches, exactly the matching
  records are considered, none that was left out is newer than one that was returned, and
  between records of the same second the order of the series is kept.
\<close>

theorem history_query_most_recent:
  fixes kind about limit
  assumes "history_wf h"
  defines "ms \<equiv> matching_records h kind about"
    and "out \<equiv> history_query h kind about limit"
  shows "sorted (map r_observed_at out)
    \<and> length out = min (length ms) (min limit MAX_HISTORY_QUERY)
    \<and> (\<forall>r. r \<in> set ms \<longleftrightarrow> r \<in> set (history_stored h (record_key r))
             \<and> kind_matches kind (r_kind r) \<and> about_matches about r)
    \<and> (\<exists>left_out. mset ms = mset left_out + mset out
         \<and> (\<forall>r \<in> set left_out. \<forall>r' \<in> set out. r_observed_at r \<le> r_observed_at r'))
    \<and> (\<exists>earlier. \<forall>at. filter (\<lambda>r. r_observed_at r = at) earlier
                 @ filter (\<lambda>r. r_observed_at r = at) out = filter (\<lambda>r. r_observed_at r = at) ms)"
proof (intro conjI)
  let ?s = "sort_key r_observed_at ms" and ?n = "length ms - min limit MAX_HISTORY_QUERY"
  have out: "out = drop ?n ?s"
    by (simp add: out_def ms_def history_query_def Let_def)
  have split: "take ?n ?s @ out = ?s"
    by (simp add: out)
  show "sorted (map r_observed_at out)"
    by (simp add: out flip: drop_map)
  show "length out = min (length ms) (min limit MAX_HISTORY_QUERY)"
    by (simp add: out min_def)
  show "\<forall>r. r \<in> set ms \<longleftrightarrow> r \<in> set (history_stored h (record_key r))
             \<and> kind_matches kind (r_kind r) \<and> about_matches about r"
    unfolding ms_def by (intro allI matching_records_iff assms(1))
  have "mset ms = mset (take ?n ?s) + mset out"
    by (metis mset_append mset_sort split)
  moreover have "\<forall>r \<in> set (take ?n ?s). \<forall>r' \<in> set out. r_observed_at r \<le> r_observed_at r'"
    unfolding out by (intro ballI sorted_drop_later [where xs = ?s]) simp_all
  ultimately show "\<exists>left_out. mset ms = mset left_out + mset out
      \<and> (\<forall>r \<in> set left_out. \<forall>r' \<in> set out. r_observed_at r \<le> r_observed_at r')"
    by blast
  show "\<exists>earlier. \<forall>at. filter (\<lambda>r. r_observed_at r = at) earlier
      @ filter (\<lambda>r. r_observed_at r = at) out = filter (\<lambda>r. r_observed_at r = at) ms"
    by (metis filter_append sort_key_stable split)
qed

definition sample_record :: "u64 \<Rightarrow> bool \<Rightarrow> check_record" where
  "sample_record at ok =
     \<lparr>r_kind = Peers, r_target = ''a'', r_label = Some ''a-alias'', r_method = ''iroh_health'',
      r_observed_at = at, r_duration_ms = 1, r_success = ok,
      r_error = (if ok then None else Some ''down''), r_error_kind = None,
      r_last_success_at = (if ok then Some at else None), r_data = None\<rparr>"

definition sample_history :: history where
  "sample_history = snd (insert_all history_insert (history_new 3) [sample_record 9 True, sample_record 5 False])"

lemma sample_history_wf: "history_wf sample_history"
proof -
  have step: "history_wf (snd (snd (history_insert h r)))" if "history_wf h" for h r
    using that history_insert_wf [of h r] by (metis prod.collapse)
  show ?thesis
    unfolding sample_history_def insert_all_Cons by (simp add: step history_wf_new)
qed

text \<open>Two records of one series match; the query for the last one is answered with one.\<close>

theorem history_query_most_recent_witness:
  "length (history_query sample_history (Some Peers) (Some ''a-alias'') 1) = 1"
proof -
  have "length (matching_records sample_history (Some Peers) (Some ''a-alias'')) = 2"
    by (simp add: matching_records_def sample_history_def history_insert_def Let_def history_new_def bt_empty_def
        bt_get_def record_key_def sample_record_def series_default_def kind_matches_def about_matches_def)
  then show ?thesis
    using history_query_most_recent [OF sample_history_wf, of "Some Peers" "Some ''a-alias''" 1]
    by (simp add: MAX_HISTORY_QUERY_def)
qed

text \<open>
  Outages are reported once: along a series, the first record is \<open>First\<close> and no later
  one is; after it, \<open>Failed\<close> comes only after a success and \<open>Recovered\<close> only after a failure,
  so the two alternate, and everything else is \<open>Unchanged\<close>. A recovery carries the time of
  the last success before it.
\<close>

theorem transitions_report_outages_once:
  "(let (out, h) = insert_all history_insert (history_new capacity) log;
        ts = series_transitions k out
    in (ts = [] \<or> (\<exists>up rest. ts = First # rest \<and> alternating up rest))
       \<and> (\<forall>r t r' h'. history_insert h r = (t, r', h') \<longrightarrow>
            t = transition_of (previous_success (of_series (record_key r) log)) (r_success r)
                  (case filter r_success (of_series (record_key r) log) of
                     [] \<Rightarrow> None | s # ss \<Rightarrow> Some (r_observed_at (last (s # ss))))))"
proof -
  obtain out h where run: "insert_all history_insert (history_new capacity) log = (out, h)"
    by fastforce
  note new = represents_new [of capacity]
  have rep: "represents h (max capacity 1) log"
    using insert_all_log [OF new, of log] by (simp add: run)
  have "series_transitions k out = []
      \<or> (\<exists>up rest. series_transitions k out = First # rest \<and> alternating up rest)"
    using transitions_first [OF new, of k log] by (simp add: of_series_def run)
  moreover have "t = transition_of (previous_success (of_series (record_key r) log)) (r_success r)
      (case filter r_success (of_series (record_key r) log) of
         [] \<Rightarrow> None | s # ss \<Rightarrow> Some (r_observed_at (last (s # ss))))"
    if "history_insert h r = (t, r', h')" for r t r' h'
    using history_insert_log(2) [OF rep that] by (simp only: last_success_filter)
  ultimately show ?thesis unfolding run Let_def by blast
qed

theorem transitions_report_outages_once_witness:
  "fst (history_insert (snd (insert_all history_insert (history_new 8)
          [sample_record 1 True, sample_record 2 False])) (sample_record 5 True)) = Recovered (Some 1)"
proof -
  let ?log = "[sample_record 1 True, sample_record 2 False]"
  let ?h = "snd (insert_all history_insert (history_new 8) ?log)"
  have "fst (history_insert ?h (sample_record 5 True)) =
      transition_of (previous_success (of_series (record_key (sample_record 5 True)) ?log))
        (r_success (sample_record 5 True))
        (case filter r_success (of_series (record_key (sample_record 5 True)) ?log) of
           [] \<Rightarrow> None | s # ss \<Rightarrow> Some (r_observed_at (last (s # ss))))"
    using transitions_report_outages_once [of 8 ?log] unfolding Let_def split_def
    by (metis prod.collapse)
  also have "\<dots> = Recovered (Some 1)"
    by (simp add: sample_record_def record_key_def of_series_def previous_success_def newest_def)
  finally show ?thesis .
qed

end
