(* ===== verification/Sampling.thy ===== *)
theory Sampling
  imports History Node_Config
begin

text \<open>
  The sampler (\<open>sampling.rs\<close>, \<open>sampling/log.rs\<close>): one round per kind at a time, shared by
  manual requests and the scheduler. Every call of \<open>sample\<close> is a task; between two awaits a
  task runs one of the operations below, and \<open>sampler_step\<close> interleaves the tasks in any
  order, with cancellation and the passing of time. A round is a watch channel: open while
  its leader is alive and has not published, closed once the leader was dropped.

  \<open>rt_recorded\<close>, \<open>rt_finished\<close> and the round in a \<open>Returned\<close> task record what happened and
  decide nothing.
\<close>

section \<open>The log (sampling/log.rs)\<close>

datatype log_level = Debug | Info | Warn

record log_line =
  lg_level :: log_level
  lg_message :: string
  lg_target :: string
  lg_since_last_ok_secs :: "u64 option"

definition log_record :: "check_record \<Rightarrow> transition \<Rightarrow> log_line" where
  "log_record r t =
     (let target = (case r_label r of Some l \<Rightarrow> l | None \<Rightarrow> r_target r);
          line = (\<lambda>level message since. \<lparr>lg_level = level, lg_message = message,
                    lg_target = target, lg_since_last_ok_secs = since\<rparr>)
      in case (t, r_success r) of
           (First, True) \<Rightarrow> line Info ''check ok'' None
         | (First, False) \<Rightarrow> line Warn ''check failed'' None
         | (Failed, False) \<Rightarrow> line Warn ''check failed'' None
         | (Recovered last_ok, _) \<Rightarrow>
             line Info ''check recovered''
               (map_option (\<lambda>at. saturating_sub (r_observed_at r) at) last_ok)
         | _ \<Rightarrow> line Debug ''check'' None)"

section \<open>State\<close>

type_synonym shared_result = "(check_record list, node_error) result"

datatype round = RoundOpen | RoundPublished shared_result | RoundClosed

record slot =
  sl_running :: "nat option"
  sl_next :: "instant option"

record sampler =
  sm_slots :: "probe_kind \<Rightarrow> slot"
  sm_interval :: duration
  sm_history :: history

definition slot_default :: slot where
  "slot_default = \<lparr>sl_running = None, sl_next = None\<rparr>"

definition sampler_new :: "daemon_config \<Rightarrow> sampler" where
  "sampler_new settings =
     \<lparr>sm_slots = (\<lambda>_. slot_default),
      sm_interval = from_secs (unat (dc_interval_secs settings)),
      sm_history = history_new (dc_history_size settings)\<rparr>"

text \<open>
  A leader works until its records are in the history and then publishes; a follower waits
  for the round it joined.
\<close>

datatype task =
    Leading probe_kind nat
  | Publishing probe_kind nat shared_result
  | Following nat
  | Returned "nat option" shared_result
  | TaskDropped

record runtime = sampler +
  rt_clock :: instant
  rt_rounds :: "round list"
  rt_tasks :: "task list"
  rt_recorded :: "(nat \<times> check_record list) list"
  rt_log :: "log_line list"
  rt_finished :: "probe_kind \<Rightarrow> instant option"

definition runtime_new :: "daemon_config \<Rightarrow> instant \<Rightarrow> runtime" where
  "runtime_new settings now =
     sampler.extend (sampler_new settings)
       \<lparr>rt_clock = now, rt_rounds = [], rt_tasks = [], rt_recorded = [], rt_log = [], rt_finished = (\<lambda>_. None)\<rparr>"

section \<open>One call of sample\<close>

definition round_live :: "runtime \<Rightarrow> nat \<Rightarrow> bool" where
  "round_live s r \<longleftrightarrow> rt_rounds s ! r \<noteq> RoundClosed"

text \<open>The first critical section: join the live round, skip, or lead a new one.\<close>

definition sample_begin :: "probe_kind \<Rightarrow> bool \<Rightarrow> runtime \<Rightarrow> runtime" where
  "sample_begin kind due_only s =
     (let sl = sm_slots s kind;
          live = (case sl_running sl of Some r \<Rightarrow> if round_live s r then Some r else None | None \<Rightarrow> None)
      in case live of
           Some r \<Rightarrow> s\<lparr>rt_tasks := rt_tasks s @ [Following r]\<rparr>
         | None \<Rightarrow>
             if due_only \<and> (case sl_next sl of Some due \<Rightarrow> due > rt_clock s | None \<Rightarrow> False)
             then s\<lparr>rt_tasks := rt_tasks s @ [Returned None (Ok [])]\<rparr>
             else let r = length (rt_rounds s)
                  in s\<lparr>rt_rounds := rt_rounds s @ [RoundOpen],
                       sm_slots := (sm_slots s)(kind := sl\<lparr>sl_running := Some r\<rparr>),
                       rt_tasks := rt_tasks s @ [Leading kind r]\<rparr>)"

text \<open>
  The work is done and the history lock is held: the records go in, and come back annotated.
  A failed round leaves no records.
\<close>

definition sample_record_round ::
  "nat \<Rightarrow> probe_kind \<Rightarrow> nat \<Rightarrow> (check_record list, node_error) result \<Rightarrow> runtime \<Rightarrow> runtime" where
  "sample_record_round i kind r work s =
     (case work of
        Ok records \<Rightarrow>
          (case insert_all history_insert (sm_history s) records of
             (out, h) \<Rightarrow>
               s\<lparr>sm_history := h, rt_recorded := rt_recorded s @ [(r, records)],
                 rt_log := rt_log s @ map (\<lambda>(t, record). log_record record t) out,
                 rt_tasks := (rt_tasks s)[i := Publishing kind r (Ok (map snd out))]\<rparr>)
      | Err e \<Rightarrow> s\<lparr>rt_tasks := (rt_tasks s)[i := Publishing kind r (Err e)]\<rparr>)"

text \<open>The second critical section: the deadline, the result, and no running round.\<close>

definition sample_publish :: "nat \<Rightarrow> probe_kind \<Rightarrow> nat \<Rightarrow> shared_result \<Rightarrow> runtime \<Rightarrow> runtime" where
  "sample_publish i kind r result s =
     s\<lparr>sm_slots := (sm_slots s)(kind :=
         \<lparr>sl_running = None, sl_next = Some (rt_clock s + sm_interval s)\<rparr>),
       rt_rounds := (rt_rounds s)[r := RoundPublished result],
       rt_tasks := (rt_tasks s)[i := Returned (Some r) (map_err ProbeFailed result)],
       rt_finished := (rt_finished s)(kind := Some (rt_clock s))\<rparr>"

text \<open>A waiter sees its round's result, or that the round has closed.\<close>

definition waiter_result :: "round \<Rightarrow> shared_result option" where
  "waiter_result cell =
     (case cell of
        RoundOpen \<Rightarrow> None
      | RoundPublished result \<Rightarrow> Some (map_err ProbeFailed result)
      | RoundClosed \<Rightarrow> Some (Err ProbeCancelled))"

definition sample_wake :: "nat \<Rightarrow> nat \<Rightarrow> runtime \<Rightarrow> runtime" where
  "sample_wake i r s =
     (case waiter_result (rt_rounds s ! r) of
        None \<Rightarrow> s
      | Some result \<Rightarrow> s\<lparr>rt_tasks := (rt_tasks s)[i := Returned (Some r) result]\<rparr>)"

text \<open>Dropping the future of a leader closes its round; nobody else is touched.\<close>

definition sample_drop :: "nat \<Rightarrow> runtime \<Rightarrow> runtime" where
  "sample_drop i s =
     (case rt_tasks s ! i of
        Leading kind r \<Rightarrow>
          s\<lparr>rt_rounds := (rt_rounds s)[r := RoundClosed], rt_tasks := (rt_tasks s)[i := TaskDropped]\<rparr>
      | Following r \<Rightarrow> s\<lparr>rt_tasks := (rt_tasks s)[i := TaskDropped]\<rparr>
      | _ \<Rightarrow> s)"

section \<open>All interleavings\<close>

datatype action =
    Begin probe_kind bool
  | Work nat "(check_record list, node_error) result"
  | Publish nat
  | Wake nat
  | Drop nat
  | Tick duration

inductive sampler_step :: "runtime \<Rightarrow> action \<Rightarrow> runtime \<Rightarrow> bool" where
  begins: "sampler_step s (Begin kind due_only) (sample_begin kind due_only s)"
| works: "i < length (rt_tasks s) \<Longrightarrow> rt_tasks s ! i = Leading kind r \<Longrightarrow>
    sampler_step s (Work i work) (sample_record_round i kind r work s)"
| publishes: "i < length (rt_tasks s) \<Longrightarrow> rt_tasks s ! i = Publishing kind r result \<Longrightarrow>
    sampler_step s (Publish i) (sample_publish i kind r result s)"
| wakes: "i < length (rt_tasks s) \<Longrightarrow> rt_tasks s ! i = Following r \<Longrightarrow>
    rt_rounds s ! r \<noteq> RoundOpen \<Longrightarrow> sampler_step s (Wake i) (sample_wake i r s)"
| drops: "i < length (rt_tasks s) \<Longrightarrow> sampler_step s (Drop i) (sample_drop i s)"
| ticks: "sampler_step s (Tick d) (s\<lparr>rt_clock := rt_clock s + d\<rparr>)"

inductive sampler_run :: "runtime \<Rightarrow> action list \<Rightarrow> runtime \<Rightarrow> bool" where
  run_nil: "sampler_run s [] s"
| run_snoc: "sampler_run s as s' \<Longrightarrow> sampler_step s' a s'' \<Longrightarrow> sampler_run s (as @ [a]) s''"

inductive_cases sampler_stepE: "sampler_step s a s'"
inductive_cases begin_stepE: "sampler_step s (Begin kind due_only) s'"
inductive_simps begin_step_iff: "sampler_step s (Begin kind due_only) s'"
inductive_simps work_step_iff: "sampler_step s (Work i work) s'"
inductive_simps publish_step_iff: "sampler_step s (Publish i) s'"
inductive_simps wake_step_iff: "sampler_step s (Wake i) s'"
inductive_simps drop_step_iff: "sampler_step s (Drop i) s'"
inductive_simps tick_step_iff: "sampler_step s (Tick d) s'"

section \<open>Invariants\<close>

fun leads :: "task \<Rightarrow> (probe_kind \<times> nat) option" where
  "leads (Leading kind r) = Some (kind, r)"
| "leads (Publishing kind r result) = Some (kind, r)"
| "leads _ = None"

definition leader :: "runtime \<Rightarrow> nat \<Rightarrow> probe_kind \<Rightarrow> nat \<Rightarrow> bool" where
  "leader s i kind r \<longleftrightarrow> i < length (rt_tasks s) \<and> leads (rt_tasks s ! i) = Some (kind, r)"

text \<open>A leader leads the open round its slot shows, and no other task leads it.\<close>

definition inv_leaders :: "runtime \<Rightarrow> bool" where
  "inv_leaders s \<longleftrightarrow>
     (\<forall>i kind r. leader s i kind r \<longrightarrow>
        r < length (rt_rounds s) \<and> rt_rounds s ! r = RoundOpen
        \<and> sl_running (sm_slots s kind) = Some r)
     \<and> (\<forall>i j kind kind' r. leader s i kind r \<longrightarrow> leader s j kind' r \<longrightarrow> i = j)"

text \<open>An open round has a leader; a running round was never published.\<close>

definition inv_rounds :: "runtime \<Rightarrow> bool" where
  "inv_rounds s \<longleftrightarrow>
     (\<forall>r. r < length (rt_rounds s) \<longrightarrow> rt_rounds s ! r = RoundOpen \<longrightarrow> (\<exists>i kind. leader s i kind r))
     \<and> (\<forall>kind r. sl_running (sm_slots s kind) = Some r \<longrightarrow>
          r < length (rt_rounds s) \<and> (\<forall>x. rt_rounds s ! r \<noteq> RoundPublished x))
     \<and> (\<forall>kind kind' r. sl_running (sm_slots s kind) = Some r \<longrightarrow>
          sl_running (sm_slots s kind') = Some r \<longrightarrow> kind = kind')"

text \<open>Waiters belong to a round, and every result is the one of its round.\<close>

definition inv_waiters :: "runtime \<Rightarrow> bool" where
  "inv_waiters s \<longleftrightarrow>
     (\<forall>r. Following r \<in> set (rt_tasks s) \<longrightarrow> r < length (rt_rounds s))
     \<and> (\<forall>r x. Returned (Some r) x \<in> set (rt_tasks s) \<longrightarrow>
          r < length (rt_rounds s) \<and> waiter_result (rt_rounds s ! r) = Some x)"

definition inv_deadlines :: "runtime \<Rightarrow> bool" where
  "inv_deadlines s \<longleftrightarrow>
     (\<forall>kind. sl_next (sm_slots s kind) = map_option (\<lambda>t. t + sm_interval s) (rt_finished s kind)
        \<and> (\<forall>t. rt_finished s kind = Some t \<longrightarrow> t \<le> rt_clock s))"

lemmas inv_defs = inv_leaders_def inv_rounds_def inv_waiters_def inv_deadlines_def leader_def

lemmas op_defs = sample_begin_def sample_record_round_def sample_publish_def sample_wake_def
  sample_drop_def round_live_def Let_def

lemma runtime_new_fields [simp]:
  "rt_clock (runtime_new settings now) = now"
  "rt_rounds (runtime_new settings now) = []"
  "rt_tasks (runtime_new settings now) = []"
  "rt_recorded (runtime_new settings now) = []"
  "rt_log (runtime_new settings now) = []"
  "rt_finished (runtime_new settings now) = (\<lambda>_. None)"
  "sm_slots (runtime_new settings now) = (\<lambda>_. slot_default)"
  "sm_interval (runtime_new settings now) = from_secs (unat (dc_interval_secs settings))"
  "sm_history (runtime_new settings now) = history_new (dc_history_size settings)"
  by (simp_all add: runtime_new_def sampler_new_def sampler.defs)

lemma inv_new:
  "inv_leaders (runtime_new settings now)" "inv_rounds (runtime_new settings now)"
  "inv_waiters (runtime_new settings now)" "inv_deadlines (runtime_new settings now)"
  by (simp_all add: inv_defs slot_default_def)

lemma leader_append:
  "rt_tasks s' = rt_tasks s @ [t] \<Longrightarrow>
     leader s' i kind r \<longleftrightarrow> leader s i kind r \<or> i = length (rt_tasks s) \<and> leads t = Some (kind, r)"
  by (auto simp: leader_def nth_append less_Suc_eq)

lemma leader_update:
  "rt_tasks s' = (rt_tasks s)[i := t] \<Longrightarrow>
     leader s' j kind r \<longleftrightarrow>
       (if j = i then i < length (rt_tasks s) \<and> leads t = Some (kind, r) else leader s j kind r)"
  by (auto simp: leader_def nth_list_update_if)

lemma leader_same: "rt_tasks s' = rt_tasks s \<Longrightarrow> leader s' = leader s"
  by (simp add: leader_def fun_eq_iff)

lemma leaderD:
  assumes "inv_leaders s" "leader s i kind r"
  shows "r < length (rt_rounds s)" "rt_rounds s ! r = RoundOpen"
    "sl_running (sm_slots s kind) = Some r"
  using assms unfolding inv_leaders_def by blast+

lemma leader_unique:
  "inv_leaders s \<Longrightarrow> leader s i kind r \<Longrightarrow> leader s j kind' r \<Longrightarrow> i = j"
  unfolding inv_leaders_def by blast

lemma inv_leadersI:
  assumes "\<And>i kind r. leader s i kind r \<Longrightarrow> r < length (rt_rounds s) \<and> rt_rounds s ! r = RoundOpen
      \<and> sl_running (sm_slots s kind) = Some r"
    and "\<And>i j kind kind' r. leader s i kind r \<Longrightarrow> leader s j kind' r \<Longrightarrow> i = j"
  shows "inv_leaders s"
  using assms unfolding inv_leaders_def by blast

text \<open>The three ways a call of \<open>sample\<close> can begin.\<close>

lemma sample_begin_cases:
  obtains
    (follows) r where "sl_running (sm_slots s kind) = Some r" "rt_rounds s ! r \<noteq> RoundClosed"
      "sample_begin kind due_only s = s\<lparr>rt_tasks := rt_tasks s @ [Following r]\<rparr>"
  | (skips) due where "due_only" "sl_next (sm_slots s kind) = Some due" "rt_clock s < due"
      "\<And>r. sl_running (sm_slots s kind) = Some r \<Longrightarrow> rt_rounds s ! r = RoundClosed"
      "sample_begin kind due_only s = s\<lparr>rt_tasks := rt_tasks s @ [Returned None (Ok [])]\<rparr>"
  | (leads) "due_only \<Longrightarrow> \<forall>due. sl_next (sm_slots s kind) = Some due \<longrightarrow> due \<le> rt_clock s"
      "\<And>r. sl_running (sm_slots s kind) = Some r \<Longrightarrow> rt_rounds s ! r = RoundClosed"
      "sample_begin kind due_only s =
         s\<lparr>rt_rounds := rt_rounds s @ [RoundOpen],
           sm_slots := (sm_slots s)(kind :=
             (sm_slots s kind)\<lparr>sl_running := Some (length (rt_rounds s))\<rparr>),
           rt_tasks := rt_tasks s @ [Leading kind (length (rt_rounds s))]\<rparr>"
proof (cases "case sl_running (sm_slots s kind) of Some r \<Rightarrow> if round_live s r then Some r else None | None \<Rightarrow> None")
  case None
  then have closed: "\<And>r. sl_running (sm_slots s kind) = Some r \<Longrightarrow> rt_rounds s ! r = RoundClosed"
    by (auto simp: round_live_def split: if_splits)
  show thesis
  proof (cases "due_only \<and> (case sl_next (sm_slots s kind) of Some due \<Rightarrow> due > rt_clock s | None \<Rightarrow> False)")
    case True
    then obtain due where "due_only" "sl_next (sm_slots s kind) = Some due" "rt_clock s < due"
      by (auto split: option.splits)
    then show thesis
      using None closed by (intro skips [of due]) (auto simp: sample_begin_def Let_def)
  next
    case False
    show thesis
      by (rule leads) (use None closed False in \<open>auto simp: sample_begin_def Let_def split: option.splits\<close>)
  qed
next
  case (Some r)
  then show thesis
    by (intro follows [of r]) (auto simp: sample_begin_def Let_def round_live_def split: option.splits if_splits)
qed

lemma leaders_begin:
  assumes "inv_leaders s"
  shows "inv_leaders (sample_begin kind due_only s)"
proof (cases rule: sample_begin_cases [of s kind due_only])
  case (follows r)
  have eq: "leader (sample_begin kind due_only s) = leader s"
    by (auto simp: fun_eq_iff follows(3) leader_append [where s = s and t = "Following r"])
  show ?thesis
    using leaderD [OF assms] leader_unique [OF assms]
    by (intro inv_leadersI) (simp_all add: eq, simp_all add: follows(3))
next
  case (skips due)
  have eq: "leader (sample_begin kind due_only s) = leader s"
    by (auto simp: fun_eq_iff skips(5) leader_append [where s = s and t = "Returned None (Ok [])"])
  show ?thesis
    using leaderD [OF assms] leader_unique [OF assms]
    by (intro inv_leadersI) (simp_all add: eq, simp_all add: skips(5))
next
  case leads
  let ?s = "sample_begin kind due_only s" and ?n = "length (rt_rounds s)"
  have eq: "leader ?s i k r \<longleftrightarrow>
      leader s i k r \<or> i = length (rt_tasks s) \<and> k = kind \<and> r = ?n" for i k r
    by (auto simp: leads(3) leader_append [where s = s and t = "Leading kind ?n"])
  have other: "k \<noteq> kind" if "leader s i k r" for i k r
    using leaderD [OF assms that] leads(2) by auto
  show ?thesis
  proof (rule inv_leadersI)
    fix i k r
    assume "leader ?s i k r"
    then show "r < length (rt_rounds ?s) \<and> rt_rounds ?s ! r = RoundOpen
        \<and> sl_running (sm_slots ?s k) = Some r"
      unfolding eq
    proof
      assume l: "leader s i k r"
      show ?thesis using leaderD [OF assms l] other [OF l] by (simp add: leads(3) nth_append)
    qed (simp add: leads(3))
  next
    fix i j k k' r
    assume "leader ?s i k r" "leader ?s j k' r"
    then show "i = j"
      unfolding eq using leader_unique [OF assms] leaderD(1) [OF assms] by blast
  qed
qed

definition annotated_result ::
  "runtime \<Rightarrow> (check_record list, node_error) result \<Rightarrow> shared_result" where
  "annotated_result s work =
     map_ok (\<lambda>records. map snd (fst (insert_all history_insert (sm_history s) records))) work"

lemma record_round_fields [simp]:
  "rt_tasks (sample_record_round i kind r work s) =
     (rt_tasks s)[i := Publishing kind r (annotated_result s work)]"
  "rt_rounds (sample_record_round i kind r work s) = rt_rounds s"
  "sm_slots (sample_record_round i kind r work s) = sm_slots s"
  "sm_interval (sample_record_round i kind r work s) = sm_interval s"
  "rt_clock (sample_record_round i kind r work s) = rt_clock s"
  "rt_finished (sample_record_round i kind r work s) = rt_finished s"
  "rt_recorded (sample_record_round i kind r work s) =
     (case work of Ok records \<Rightarrow> rt_recorded s @ [(r, records)] | Err e \<Rightarrow> rt_recorded s)"
  "sm_history (sample_record_round i kind r work s) =
     (case work of Ok records \<Rightarrow> snd (insert_all history_insert (sm_history s) records)
      | Err e \<Rightarrow> sm_history s)"
  by (cases work; simp add: sample_record_round_def annotated_result_def split_def)+

text \<open>A task that goes on leading its round, or stops leading.\<close>

definition keeps_lead :: "task \<Rightarrow> task \<Rightarrow> bool" where
  "keeps_lead old new \<longleftrightarrow> leads new = None \<or> leads new = leads old"

lemma leader_kept:
  assumes "rt_tasks s' = (rt_tasks s)[i := t]" "keeps_lead (rt_tasks s ! i) t" "leader s' j kind r"
  shows "leader s j kind r"
  using assms by (cases "j = i") (auto simp: keeps_lead_def leader_def)

lemma inv_leaders_update:
  assumes "inv_leaders s" "rt_tasks s' = (rt_tasks s)[i := t]" "keeps_lead (rt_tasks s ! i) t"
    and "\<And>j kind r. leader s' j kind r \<Longrightarrow> leader s j kind r \<Longrightarrow>
      length (rt_rounds s') = length (rt_rounds s)
      \<and> rt_rounds s' ! r = rt_rounds s ! r \<and> sl_running (sm_slots s' kind) = sl_running (sm_slots s kind)"
  shows "inv_leaders s'"
proof (rule inv_leadersI)
  fix j kind r
  assume l': "leader s' j kind r"
  then have l: "leader s j kind r" by (rule leader_kept [OF assms(2,3)])
  show "r < length (rt_rounds s') \<and> rt_rounds s' ! r = RoundOpen \<and> sl_running (sm_slots s' kind) = Some r"
    using assms(4) [OF l' l] leaderD [OF assms(1) l] by simp
next
  fix j k kind kind' r
  assume "leader s' j kind r" "leader s' k kind' r"
  then show "j = k"
    using leader_kept [OF assms(2,3)] leader_unique [OF assms(1)] by blast
qed

lemma leader_stopped:
  assumes "rt_tasks s' = (rt_tasks s)[i := t]" "leads t = None" "leader s' j kind r"
  shows "j \<noteq> i" "leader s j kind r"
  using assms by (auto simp: leader_update [OF assms(1)] split: if_splits)

lemma leaders_publish:
  assumes eq: "s' = sample_publish i kind r result s"
    and bound: "i < length (rt_tasks s)" and task: "rt_tasks s ! i = Publishing kind r result"
    and lead: "inv_leaders s"
  shows "inv_leaders s'"
proof -
  have i: "leader s i kind r" using bound task by (simp add: leader_def)
  have t: "rt_tasks s' = (rt_tasks s)[i := Returned (Some r) (map_err ProbeFailed result)]"
    by (simp add: eq sample_publish_def)
  show ?thesis
  proof (rule inv_leaders_update [OF lead t])
    fix j k q
    assume l': "leader s' j k q" and l: "leader s j k q"
    from leader_stopped [OF t _ l'] have "j \<noteq> i" by simp
    then have "q \<noteq> r" "k \<noteq> kind"
      using leader_unique [OF lead l] i leaderD(3) [OF lead l] leaderD(3) [OF lead i]
      by auto
    then show "length (rt_rounds s') = length (rt_rounds s)
        \<and> rt_rounds s' ! q = rt_rounds s ! q \<and> sl_running (sm_slots s' k) = sl_running (sm_slots s k)"
      by (simp add: eq sample_publish_def)
  qed (simp add: keeps_lead_def)
qed

lemma leaders_drop:
  assumes eq: "s' = sample_drop i s" and bound: "i < length (rt_tasks s)"
    and lead: "inv_leaders s"
  shows "inv_leaders s'"
proof -
  show ?thesis
  proof (cases "rt_tasks s ! i")
    case (Leading kind r)
    then have i: "leader s i kind r" using bound by (simp add: leader_def)
    have t: "rt_tasks s' = (rt_tasks s)[i := TaskDropped]"
      by (simp add: eq sample_drop_def Leading)
    show ?thesis
    proof (rule inv_leaders_update [OF lead t])
      fix j k q
      assume l': "leader s' j k q" and l: "leader s j k q"
      from leader_stopped [OF t _ l'] have "j \<noteq> i" by simp
      then have "q \<noteq> r" using leader_unique [OF lead l] i by auto
      then show "length (rt_rounds s') = length (rt_rounds s)
          \<and> rt_rounds s' ! q = rt_rounds s ! q \<and> sl_running (sm_slots s' k) = sl_running (sm_slots s k)"
        by (simp add: eq sample_drop_def Leading)
    qed (simp add: keeps_lead_def)
  next
    case (Following r)
    then show ?thesis
      by (intro inv_leaders_update [OF lead, where i = i and t = TaskDropped])
        (simp_all add: eq sample_drop_def keeps_lead_def)
  qed (simp_all add: eq sample_drop_def lead)
qed

lemma leaders_step:
  assumes "sampler_step s a s'" "inv_leaders s"
  shows "inv_leaders s'"
  using assms(1)
proof (cases rule: sampler_step.cases)
  case (begins kind due_only)
  then show ?thesis using leaders_begin [OF assms(2)] by simp
next
  case (works i kind r work)
  show ?thesis
    by (rule inv_leaders_update [OF assms(2) record_round_fields(1) [where i = i and kind = kind
          and r = r and work = work and s = s, folded works(2)]])
      (simp_all add: keeps_lead_def works(2,4))
next
  case (publishes i kind r result)
  show ?thesis by (rule leaders_publish [OF publishes(2-4) assms(2)])
next
  case (wakes i r)
  show ?thesis
  proof (cases "waiter_result (rt_rounds s ! r)")
    case None
    then show ?thesis using assms(2) by (simp add: wakes(2) sample_wake_def)
  next
    case (Some x)
    then show ?thesis
      by (intro inv_leaders_update [OF assms(2), where i = i and t = "Returned (Some r) x"])
        (simp_all add: wakes(2) sample_wake_def keeps_lead_def)
  qed
next
  case (drops i)
  show ?thesis by (rule leaders_drop [OF drops(2,3) assms(2)])
next
  case (ticks d)
  have "leader s' = leader s" unfolding ticks(2) by (rule leader_same) simp
  then show ?thesis using assms(2) by (simp add: inv_leaders_def ticks(2))
qed

lemma roundsD:
  assumes "inv_rounds s"
  shows "r < length (rt_rounds s) \<Longrightarrow> rt_rounds s ! r = RoundOpen \<Longrightarrow> \<exists>i kind. leader s i kind r"
    and "sl_running (sm_slots s kind) = Some r \<Longrightarrow>
      r < length (rt_rounds s) \<and> rt_rounds s ! r \<noteq> RoundPublished x"
    and "sl_running (sm_slots s kind) = Some r \<Longrightarrow> sl_running (sm_slots s kind') = Some r \<Longrightarrow>
      kind = kind'"
  using assms unfolding inv_rounds_def by blast+

lemma inv_roundsI:
  assumes "\<And>r. r < length (rt_rounds s) \<Longrightarrow> rt_rounds s ! r = RoundOpen \<Longrightarrow> \<exists>i kind. leader s i kind r"
    and "\<And>kind r x. sl_running (sm_slots s kind) = Some r \<Longrightarrow>
      r < length (rt_rounds s) \<and> rt_rounds s ! r \<noteq> RoundPublished x"
    and "\<And>kind kind' r. sl_running (sm_slots s kind) = Some r \<Longrightarrow>
      sl_running (sm_slots s kind') = Some r \<Longrightarrow> kind = kind'"
  shows "inv_rounds s"
  using assms unfolding inv_rounds_def by blast

text \<open>Steps that change neither the rounds nor the running rounds nor who leads.\<close>

lemma inv_rounds_same:
  assumes "inv_rounds s" "rt_rounds s' = rt_rounds s" "\<And>k. sl_running (sm_slots s' k) = sl_running (sm_slots s k)"
    and "\<And>i k r. leader s i k r \<Longrightarrow> leader s' i k r"
  shows "inv_rounds s'"
proof (rule inv_roundsI)
  fix r
  assume "r < length (rt_rounds s')" "rt_rounds s' ! r = RoundOpen"
  then show "\<exists>i kind. leader s' i kind r"
    using roundsD(1) [OF assms(1), of r] assms(2,4) by metis
qed (use assms roundsD [OF assms(1)] in auto)

lemma leader_appended:
  "rt_tasks s' = rt_tasks s @ [t] \<Longrightarrow> leader s i k r \<Longrightarrow> leader s' i k r"
  by (auto simp: leader_def nth_append)

lemma leader_updated:
  assumes "rt_tasks s' = (rt_tasks s)[i := t]" "leads t = leads (rt_tasks s ! i)" "leader s j k r"
  shows "leader s' j k r"
  using assms by (cases "j = i") (auto simp: leader_def)

text \<open>A round ends: its leader stops leading, no other round is touched.\<close>

lemma inv_rounds_ended:
  assumes inv: "inv_rounds s" "inv_leaders s" and i: "leader s i kind r"
    and s': "rt_tasks s' = (rt_tasks s)[i := t]" "rt_rounds s' = (rt_rounds s)[r := cell]"
      "cell \<noteq> RoundOpen"
    and slots: "\<And>k. k \<noteq> kind \<Longrightarrow> sl_running (sm_slots s' k) = sl_running (sm_slots s k)"
      "sl_running (sm_slots s' kind) = None \<or>
       sl_running (sm_slots s' kind) = sl_running (sm_slots s kind) \<and> (\<forall>x. cell \<noteq> RoundPublished x)"
  shows "inv_rounds s'"
proof (rule inv_roundsI)
  have run: "sl_running (sm_slots s kind) = Some r" by (rule leaderD [OF inv(2) i])
  have sub: "sl_running (sm_slots s' k) = Some q \<Longrightarrow> sl_running (sm_slots s k) = Some q" for k q
    using slots by (cases "k = kind") auto
  {
    fix q
    assume "q < length (rt_rounds s')" "rt_rounds s' ! q = RoundOpen"
    then have "q \<noteq> r" "q < length (rt_rounds s)" "rt_rounds s ! q = RoundOpen"
      using s'(2,3) by (auto simp: nth_list_update_if split: if_splits)
    then obtain j k where j: "leader s j k q" using roundsD(1) [OF inv(1)] by blast
    with i \<open>q \<noteq> r\<close> have "j \<noteq> i" by (auto simp: leader_def)
    with j s'(1) have "leader s' j k q" by (simp add: leader_def)
    then show "\<exists>i kind. leader s' i kind q" by blast
  next
    fix k q x
    assume r': "sl_running (sm_slots s' k) = Some q"
    have old: "q < length (rt_rounds s)" "rt_rounds s ! q \<noteq> RoundPublished x"
      using roundsD(2) [OF inv(1) sub [OF r'], of x] by simp_all
    have "cell \<noteq> RoundPublished x" if "q = r"
      using that r' slots(2) roundsD(3) [OF inv(1) run, of k] sub [OF r'] by auto
    then show "q < length (rt_rounds s') \<and> rt_rounds s' ! q \<noteq> RoundPublished x"
      using old s'(2) by (auto simp: nth_list_update_if)
  next
    fix k k' q
    assume "sl_running (sm_slots s' k) = Some q" "sl_running (sm_slots s' k') = Some q"
    then show "k = k'" using sub roundsD(3) [OF inv(1)] by blast
  }
qed

lemma rounds_begin:
  assumes "inv_rounds s"
  shows "inv_rounds (sample_begin kind due_only s)"
proof (cases rule: sample_begin_cases [of s kind due_only])
  case (follows r)
  then show ?thesis
    by (intro inv_rounds_same [OF assms]) (simp_all add: leader_appended [where t = "Following r"])
next
  case (skips due)
  then show ?thesis
    by (intro inv_rounds_same [OF assms]) (simp_all add: leader_appended [where t = "Returned None (Ok [])"])
next
  case leads
  let ?s = "sample_begin kind due_only s" and ?n = "length (rt_rounds s)"
  have old: "leader s i k r \<Longrightarrow> leader ?s i k r" for i k r
    by (rule leader_appended [where t = "Leading kind ?n"]) (simp_all add: leads(3))
  have new: "leader ?s (length (rt_tasks s)) kind ?n"
    by (simp add: leads(3) leader_def)
  show ?thesis
  proof (rule inv_roundsI)
    fix r
    assume "r < length (rt_rounds ?s)" "rt_rounds ?s ! r = RoundOpen"
    then have "r = ?n \<or> r < ?n \<and> rt_rounds s ! r = RoundOpen"
      by (auto simp: leads(3) nth_append split: if_splits)
    then show "\<exists>i kind. leader ?s i kind r"
      using new old roundsD(1) [OF assms] by blast
  next
    fix k r x
    assume "sl_running (sm_slots ?s k) = Some r"
    then show "r < length (rt_rounds ?s) \<and> rt_rounds ?s ! r \<noteq> RoundPublished x"
      using roundsD(2) [OF assms, of k r x]
      by (auto simp: leads(3) nth_append split: if_splits)
  next
    fix k k' r
    assume "sl_running (sm_slots ?s k) = Some r" "sl_running (sm_slots ?s k') = Some r"
    then show "k = k'"
      using roundsD(2) [OF assms] roundsD(3) [OF assms]
      by (auto simp: leads(3) split: if_splits)
  qed
qed

lemma rounds_step:
  assumes "sampler_step s a s'" "inv_rounds s" "inv_leaders s"
  shows "inv_rounds s'"
  using assms(1)
proof (cases rule: sampler_step.cases)
  case (begins kind due_only)
  then show ?thesis using rounds_begin [OF assms(2)] by simp
next
  case (works i kind r work)
  show ?thesis
    unfolding works(2)
    by (rule inv_rounds_same [OF assms(2)], simp_all)
      (rule leader_updated [where i = i and t = "Publishing kind r (annotated_result s work)"],
       simp_all add: works(4))
next
  case (publishes i kind r result)
  have "leader s i kind r" using publishes by (simp add: leader_def)
  then show ?thesis
    by (rule inv_rounds_ended [OF assms(2,3), where cell = "RoundPublished result"
          and t = "Returned (Some r) (map_err ProbeFailed result)"])
      (simp_all add: publishes(2) sample_publish_def)
next
  case (wakes i r)
  show ?thesis
    unfolding wakes(2)
  proof (rule inv_rounds_same [OF assms(2)])
    fix j k q
    assume "leader s j k q"
    then show "leader (sample_wake i r s) j k q"
      using wakes(4) by (auto simp: sample_wake_def leader_def nth_list_update_if split: option.splits)
  qed (simp_all add: sample_wake_def split: option.splits)
next
  case (drops i)
  show ?thesis
  proof (cases "rt_tasks s ! i")
    case (Leading kind r)
    then have "leader s i kind r" using drops by (simp add: leader_def)
    then show ?thesis
      by (rule inv_rounds_ended [OF assms(2,3), where cell = RoundClosed and t = TaskDropped])
        (simp_all add: drops(2) sample_drop_def Leading)
  next
    case (Following r)
    show ?thesis
      by (rule inv_rounds_same [OF assms(2)], simp_all add: drops(2) sample_drop_def Following)
        (auto simp: leader_def nth_list_update_if Following)
  qed (simp_all add: drops(2) sample_drop_def assms(2))
next
  case (ticks d)
  show ?thesis
    by (rule inv_rounds_same [OF assms(2)]) (simp_all add: ticks(2) leader_def)
qed

subsection \<open>Waiters\<close>

lemma in_set_updateD: "x \<in> set (xs[i := t]) \<Longrightarrow> x = t \<or> x \<in> set xs"
  using set_update_subset_insert [of xs i t] by blast

lemma waitersD:
  assumes "inv_waiters s"
  shows "Following r \<in> set (rt_tasks s) \<Longrightarrow> r < length (rt_rounds s)"
    and "Returned (Some r) x \<in> set (rt_tasks s) \<Longrightarrow>
      r < length (rt_rounds s) \<and> waiter_result (rt_rounds s ! r) = Some x"
  using assms unfolding inv_waiters_def by blast+

lemma inv_waitersI:
  assumes "\<And>r. Following r \<in> set (rt_tasks s) \<Longrightarrow> r < length (rt_rounds s)"
    and "\<And>r x. Returned (Some r) x \<in> set (rt_tasks s) \<Longrightarrow>
      r < length (rt_rounds s) \<and> waiter_result (rt_rounds s ! r) = Some x"
  shows "inv_waiters s"
  using assms unfolding inv_waiters_def by blast

text \<open>Rounds only go from open to ended, and new tasks fit the rounds they name.\<close>

lemma inv_waiters_step:
  assumes inv: "inv_waiters s"
    and len: "length (rt_rounds s) \<le> length (rt_rounds s')"
    and ended: "\<And>q. q < length (rt_rounds s) \<Longrightarrow> rt_rounds s ! q \<noteq> RoundOpen \<Longrightarrow>
      rt_rounds s' ! q = rt_rounds s ! q"
    and tasks: "\<And>t. t \<in> set (rt_tasks s') \<Longrightarrow> t \<in> set (rt_tasks s) \<or>
      (\<forall>q. t = Following q \<longrightarrow> q < length (rt_rounds s')) \<and>
      (\<forall>q x. t = Returned (Some q) x \<longrightarrow>
         q < length (rt_rounds s') \<and> waiter_result (rt_rounds s' ! q) = Some x)"
  shows "inv_waiters s'"
proof (rule inv_waitersI)
  fix r
  assume "Following r \<in> set (rt_tasks s')"
  from tasks [OF this] show "r < length (rt_rounds s')"
    using waitersD(1) [OF inv, of r] len by auto
next
  fix r x
  assume t: "Returned (Some r) x \<in> set (rt_tasks s')"
  show "r < length (rt_rounds s') \<and> waiter_result (rt_rounds s' ! r) = Some x"
    using tasks [OF t]
  proof
    assume "Returned (Some r) x \<in> set (rt_tasks s)"
    from waitersD(2) [OF inv this] have r: "r < length (rt_rounds s)" "waiter_result (rt_rounds s ! r) = Some x"
      by simp_all
    then have "rt_rounds s ! r \<noteq> RoundOpen" by (auto simp: waiter_result_def)
    with r ended [of r] len show ?thesis by simp
  qed blast
qed

lemma waiters_step:
  assumes "sampler_step s a s'" "inv_waiters s" "inv_rounds s" "inv_leaders s"
  shows "inv_waiters s'"
  using assms(1)
proof (cases rule: sampler_step.cases)
  case (begins kind due_only)
  show ?thesis
  proof (cases rule: sample_begin_cases [of s kind due_only])
    case (follows r)
    then show ?thesis
      by (intro inv_waiters_step [OF assms(2)])
        (use roundsD(2) [OF assms(3) follows(1)] in \<open>auto simp: begins(2)\<close>)
  next
    case (skips due)
    then show ?thesis by (intro inv_waiters_step [OF assms(2)]) (auto simp: begins(2))
  next
    case leads
    then show ?thesis
      by (intro inv_waiters_step [OF assms(2)]) (auto simp: begins(2) nth_append)
  qed
next
  case (works i kind r work)
  show ?thesis
    by (rule inv_waiters_step [OF assms(2)]) (auto simp: works(2) dest: in_set_updateD)
next
  case (publishes i kind r result)
  have "r < length (rt_rounds s)" "rt_rounds s ! r = RoundOpen"
    using leaderD(1,2) [OF assms(4), of i kind r] publishes by (simp_all add: leader_def)
  then show ?thesis
    by (intro inv_waiters_step [OF assms(2)])
      (auto simp: publishes(2) sample_publish_def nth_list_update_if waiter_result_def
        dest!: in_set_updateD)
next
  case (wakes i r)
  have "r < length (rt_rounds s)"
    using waitersD(1) [OF assms(2), of r] wakes(3,4) nth_mem by metis
  then show ?thesis
    by (intro inv_waiters_step [OF assms(2)])
      (auto simp: wakes(2) sample_wake_def split: option.splits dest!: in_set_updateD)
next
  case (drops i)
  show ?thesis
  proof (cases "rt_tasks s ! i")
    case (Leading kind r)
    then have "rt_rounds s ! r = RoundOpen"
      using leaderD(2) [OF assms(4), of i kind r] drops by (simp add: leader_def)
    then show ?thesis
      by (intro inv_waiters_step [OF assms(2)])
        (auto simp: drops(2) sample_drop_def Leading nth_list_update_if dest!: in_set_updateD)
  next
    case (Following r)
    then show ?thesis
      by (intro inv_waiters_step [OF assms(2)])
        (auto simp: drops(2) sample_drop_def dest!: in_set_updateD)
  qed (simp_all add: drops(2) sample_drop_def assms(2))
next
  case (ticks d)
  show ?thesis by (rule inv_waiters_step [OF assms(2)]) (auto simp: ticks(2))
qed

subsection \<open>Deadlines\<close>

lemma deadlinesD:
  assumes "inv_deadlines s"
  shows "sl_next (sm_slots s kind) = map_option (\<lambda>t. t + sm_interval s) (rt_finished s kind)"
    and "rt_finished s kind = Some t \<Longrightarrow> t \<le> rt_clock s"
  using assms unfolding inv_deadlines_def by blast+

lemma deadlines_same:
  assumes "inv_deadlines s" "\<And>k. sl_next (sm_slots s' k) = sl_next (sm_slots s k)"
    "sm_interval s' = sm_interval s" "rt_finished s' = rt_finished s" "rt_clock s \<le> rt_clock s'"
  shows "inv_deadlines s'"
  unfolding inv_deadlines_def assms(2-4)
  using deadlinesD [OF assms(1)] assms(5) le_trans by blast

lemma deadlines_step:
  assumes "sampler_step s a s'" "inv_deadlines s"
  shows "inv_deadlines s'"
  using assms(1)
proof (cases rule: sampler_step.cases)
  case (begins kind due_only)
  show ?thesis
    by (cases rule: sample_begin_cases [of s kind due_only];
        rule deadlines_same [OF assms(2)]; simp add: begins(2))
next
  case (works i kind r work)
  show ?thesis by (rule deadlines_same [OF assms(2)]) (simp_all add: works(2))
next
  case (publishes i kind r result)
  show ?thesis
    using deadlinesD [OF assms(2)] by (simp add: inv_deadlines_def publishes(2) sample_publish_def)
next
  case (wakes i r)
  show ?thesis
    by (rule deadlines_same [OF assms(2)]) (simp_all add: wakes(2) sample_wake_def split: option.split)
next
  case (drops i)
  show ?thesis
    by (rule deadlines_same [OF assms(2)]) (simp_all add: drops(2) sample_drop_def split: task.split)
next
  case (ticks d)
  show ?thesis by (rule deadlines_same [OF assms(2)]) (simp_all add: ticks(2))
qed

subsection \<open>What rounds leave in the history\<close>

definition annotates :: "check_record list \<Rightarrow> check_record list \<Rightarrow> bool" where
  "annotates records out \<longleftrightarrow> list_all2 (\<lambda>r r'. \<exists>l. r' = r\<lparr>r_last_success_at := l\<rparr>) records out"

text \<open>The result a round has got once its records are in: published, or about to be.\<close>

definition round_result :: "runtime \<Rightarrow> nat \<Rightarrow> shared_result \<Rightarrow> bool" where
  "round_result s r result \<longleftrightarrow>
     (r < length (rt_rounds s) \<and> rt_rounds s ! r = RoundPublished result)
     \<or> (\<exists>kind. Publishing kind r result \<in> set (rt_tasks s))"

definition inv_recorded :: "runtime \<Rightarrow> bool" where
  "inv_recorded s \<longleftrightarrow>
     distinct (map fst (rt_recorded s))
     \<and> (\<forall>r records. (r, records) \<in> set (rt_recorded s) \<longrightarrow>
          (\<exists>out. round_result s r (Ok out) \<and> annotates records out))
     \<and> (\<forall>r out. round_result s r (Ok out) \<longrightarrow> r \<in> fst ` set (rt_recorded s))"

definition inv_history :: "usize \<Rightarrow> runtime \<Rightarrow> bool" where
  "inv_history capacity s \<longleftrightarrow>
     sm_history s =
       snd (insert_all history_insert (history_new capacity) (concat (map snd (rt_recorded s))))"

lemma annotates_round:
  "annotates records (map snd (fst (insert_all history_insert h records)))"
  using store.insert_all_annotates [of records h]
  by (simp add: annotates_def list_all2_conv_all_nth split_def)

lemma recordedD:
  assumes "inv_recorded s"
  shows "distinct (map fst (rt_recorded s))"
    and "(r, records) \<in> set (rt_recorded s) \<Longrightarrow>
      \<exists>out. round_result s r (Ok out) \<and> annotates records out"
    and "round_result s r (Ok out) \<Longrightarrow> r \<in> fst ` set (rt_recorded s)"
  using assms unfolding inv_recorded_def by blast+

lemma inv_recorded_same:
  assumes "inv_recorded s" "rt_recorded s' = rt_recorded s"
    and "\<And>r out. round_result s' r (Ok out) \<longleftrightarrow> round_result s r (Ok out)"
  shows "inv_recorded s'"
  using assms unfolding inv_recorded_def by simp

lemma round_result_append:
  assumes "rt_tasks s' = rt_tasks s @ [t]" "leads t = None \<or> (\<exists>k q. t = Leading k q)"
    and "rt_rounds s' = rt_rounds s \<or> rt_rounds s' = rt_rounds s @ [RoundOpen]"
  shows "round_result s' r x \<longleftrightarrow> round_result s r x"
  using assms by (auto simp: round_result_def nth_append less_Suc_eq)

text \<open>A leader that has not recorded its round yet has no result.\<close>

lemma leading_no_result:
  assumes "inv_leaders s" "i < length (rt_tasks s)" "rt_tasks s ! i = Leading kind r"
  shows "\<not> round_result s r x"
proof
  have i: "leader s i kind r" using assms by (simp add: leader_def)
  assume "round_result s r x"
  then show False
    unfolding round_result_def
  proof
    assume "r < length (rt_rounds s) \<and> rt_rounds s ! r = RoundPublished x"
    then show False using leaderD(2) [OF assms(1) i] by simp
  next
    assume "\<exists>k. Publishing k r x \<in> set (rt_tasks s)"
    then obtain k j where j: "j < length (rt_tasks s)" "rt_tasks s ! j = Publishing k r x"
      by (auto simp: in_set_conv_nth)
    then have "leader s j k r" by (simp add: leader_def)
    then have "j = i" using leader_unique [OF assms(1)] i by blast
    then show False using j assms(3) by simp
  qed
qed

lemma in_set_update_iff:
  "i < length xs \<Longrightarrow> y \<noteq> xs ! i \<Longrightarrow> y \<in> set (xs[i := t]) \<longleftrightarrow> y = t \<or> y \<in> set xs"
  by (auto simp: in_set_conv_nth nth_list_update_if)

lemma recorded_work:
  assumes "inv_recorded s" "inv_leaders s" "i < length (rt_tasks s)" "rt_tasks s ! i = Leading kind r"
  shows "inv_recorded (sample_record_round i kind r work s)"
proof -
  let ?s = "sample_record_round i kind r work s"
  have res: "round_result ?s q x \<longleftrightarrow> round_result s q x \<or> q = r \<and> x = annotated_result s work" for q x
    using assms(3,4) by (auto simp: round_result_def in_set_update_iff)
  show ?thesis
  proof (cases work)
    case (Err e)
    have "annotated_result s work \<noteq> Ok out" for out by (simp add: annotated_result_def Err)
    then have "round_result ?s q (Ok out) \<longleftrightarrow> round_result s q (Ok out)" for q out
      unfolding res by metis
    then show ?thesis by (rule inv_recorded_same [OF assms(1), rotated]) (simp add: Err)
  next
    case (Ok records)
    have "r \<notin> fst ` set (rt_recorded s)"
      using recordedD(2) [OF assms(1)] leading_no_result [OF assms(2-4)] by fastforce
    moreover have "annotated_result s work = Ok (map snd (fst (insert_all history_insert (sm_history s) records)))"
      by (simp add: annotated_result_def Ok)
    ultimately show ?thesis
      using recordedD [OF assms(1)] annotates_round
      unfolding inv_recorded_def res by (auto simp: Ok) blast
  qed
qed

lemma recorded_publish:
  assumes eq: "s' = sample_publish i kind r result s"
    and bound: "i < length (rt_tasks s)" and task: "rt_tasks s ! i = Publishing kind r result"
    and rec: "inv_recorded s" and lead: "inv_leaders s"
  shows "inv_recorded s'"
proof -
  have i: "leader s i kind r" using bound task by (simp add: leader_def)
  have one: "k = kind \<and> x = result" if "Publishing k r x \<in> set (rt_tasks s)" for k x
  proof -
    from that obtain j where j: "j < length (rt_tasks s)" "rt_tasks s ! j = Publishing k r x"
      by (auto simp: in_set_conv_nth)
    then have "leader s j k r" by (simp add: leader_def)
    then have "j = i" by (rule leader_unique [OF lead _ i])
    then show ?thesis using j task by simp
  qed
  have mem: "Publishing kind r result \<in> set (rt_tasks s)"
    using bound task nth_mem by metis
  have "round_result s' q x \<longleftrightarrow> round_result s q x" for q x
  proof (cases "q = r")
    case True
    have "\<not> (\<exists>k. Publishing k r x \<in> set (rt_tasks s'))"
    proof
      assume "\<exists>k. Publishing k r x \<in> set (rt_tasks s')"
      then obtain k j where j: "j < length (rt_tasks s)" "rt_tasks s' ! j = Publishing k r x"
        by (auto simp: in_set_conv_nth eq sample_publish_def)
      then have "j \<noteq> i" "rt_tasks s ! j = Publishing k r x"
        by (auto simp: eq sample_publish_def nth_list_update_if split: if_splits)
      then have "leader s j k r" using j(1) by (simp add: leader_def)
      with \<open>j \<noteq> i\<close> show False using leader_unique [OF lead _ i] by blast
    qed
    moreover have "rt_rounds s' ! r = RoundPublished result" "r < length (rt_rounds s')"
      using leaderD(1) [OF lead i] by (simp_all add: eq sample_publish_def)
    ultimately have "round_result s' r x \<longleftrightarrow> result = x"
      unfolding round_result_def by simp
    moreover have "round_result s r x \<longleftrightarrow> (\<exists>k. Publishing k r x \<in> set (rt_tasks s))"
      using leaderD(2) [OF lead i] by (simp add: round_result_def)
    moreover have "(\<exists>k. Publishing k r x \<in> set (rt_tasks s)) \<longleftrightarrow> result = x"
      using mem one by blast
    ultimately show ?thesis using True by simp
  next
    case False
    then have "Publishing k q x \<in> set (rt_tasks s') \<longleftrightarrow> Publishing k q x \<in> set (rt_tasks s)" for k
      using bound task by (simp add: eq sample_publish_def in_set_update_iff)
    with False show ?thesis
      by (simp add: round_result_def eq sample_publish_def)
  qed
  then show ?thesis
    by (intro inv_recorded_same [OF rec]) (simp_all add: eq sample_publish_def)
qed

lemma recorded_drop:
  assumes eq: "s' = sample_drop i s" and bound: "i < length (rt_tasks s)"
    and rec: "inv_recorded s" and lead: "inv_leaders s"
  shows "inv_recorded s'"
proof -
  show ?thesis
  proof (cases "rt_tasks s ! i")
    case (Leading kind r)
    then have "leader s i kind r" using bound by (simp add: leader_def)
    then have r: "r < length (rt_rounds s)" "rt_rounds s ! r = RoundOpen"
      by (rule leaderD(1,2) [OF lead])+
    have tasks: "Publishing k q x \<in> set (rt_tasks s') \<longleftrightarrow> Publishing k q x \<in> set (rt_tasks s)" for k q x
      using bound by (simp add: eq sample_drop_def Leading in_set_update_iff)
    have rounds: "rt_rounds s' = (rt_rounds s)[r := RoundClosed]"
      by (simp add: eq sample_drop_def Leading)
    show ?thesis
    proof (rule inv_recorded_same [OF rec])
      show "rt_recorded s' = rt_recorded s" by (simp add: eq sample_drop_def Leading)
      show "round_result s' q (Ok out) \<longleftrightarrow> round_result s q (Ok out)" for q out
        using r by (auto simp: round_result_def tasks rounds nth_list_update_if)
    qed
  next
    case (Following r)
    then show ?thesis
      by (intro inv_recorded_same [OF rec])
        (use bound in \<open>auto simp: eq sample_drop_def round_result_def in_set_update_iff\<close>)
  qed (simp_all add: eq sample_drop_def rec)
qed

lemma recorded_begin:
  assumes eq: "s' = sample_begin kind due_only s" and rec: "inv_recorded s"
  shows "inv_recorded s'"
proof -
  have "rt_recorded s' = rt_recorded s \<and> (\<forall>q x. round_result s' q x \<longleftrightarrow> round_result s q x)"
  proof (cases rule: sample_begin_cases [of s kind due_only])
    case (follows r)
    then show ?thesis using round_result_append [of s' s "Following r"] by (simp add: eq)
  next
    case (skips due)
    then show ?thesis using round_result_append [of s' s "Returned None (Ok [])"] by (simp add: eq)
  next
    case leads
    then show ?thesis
      using round_result_append [of s' s "Leading kind (length (rt_rounds s))"] by (simp add: eq)
  qed
  then show ?thesis by (intro inv_recorded_same [OF rec]) simp_all
qed

lemma recorded_step:
  assumes "sampler_step s a s'" "inv_recorded s" "inv_leaders s"
  shows "inv_recorded s'"
  using assms(1)
proof (cases rule: sampler_step.cases)
  case (begins kind due_only)
  show ?thesis by (rule recorded_begin [OF begins(2) assms(2)])
next
  case (works i kind r work)
  then show ?thesis using recorded_work [OF assms(2,3)] by simp
next
  case (publishes i kind r result)
  show ?thesis by (rule recorded_publish [OF publishes(2-4) assms(2,3)])
next
  case (wakes i r)
  show ?thesis
    by (rule inv_recorded_same [OF assms(2)])
      (use wakes(3,4) in \<open>auto simp: wakes(2) sample_wake_def round_result_def in_set_update_iff
        split: option.splits\<close>)
next
  case (drops i)
  show ?thesis by (rule recorded_drop [OF drops(2,3) assms(2,3)])
next
  case (ticks d)
  show ?thesis
    by (rule inv_recorded_same [OF assms(2)]) (simp_all add: ticks(2) round_result_def)
qed

lemma history_step:
  assumes "sampler_step s a s'" "inv_history capacity s"
  shows "inv_history capacity s'"
  using assms(1)
proof (cases rule: sampler_step.cases)
  case (begins kind due_only)
  then show ?thesis
    using assms(2) by (cases rule: sample_begin_cases [of s kind due_only]) (simp_all add: inv_history_def)
next
  case (works i kind r work)
  then show ?thesis
    using assms(2) by (cases work) (simp_all add: inv_history_def insert_all_append split_def)
next
  case (publishes i kind r result)
  then show ?thesis using assms(2) by (simp add: inv_history_def sample_publish_def)
next
  case (wakes i r)
  then show ?thesis using assms(2) by (simp add: inv_history_def sample_wake_def split: option.split)
next
  case (drops i)
  then show ?thesis using assms(2) by (simp add: inv_history_def sample_drop_def split: task.split)
next
  case (ticks d)
  then show ?thesis using assms(2) by (simp add: inv_history_def)
qed

section \<open>Runs\<close>

definition sampling_inv :: "usize \<Rightarrow> runtime \<Rightarrow> bool" where
  "sampling_inv capacity s \<longleftrightarrow>
     inv_leaders s \<and> inv_rounds s \<and> inv_waiters s \<and> inv_deadlines s \<and> inv_recorded s
     \<and> inv_history capacity s"

lemma sampling_inv_new: "sampling_inv (dc_history_size settings) (runtime_new settings now)"
  by (simp add: sampling_inv_def inv_new inv_recorded_def inv_history_def round_result_def)

lemma sampling_inv_step: "sampler_step s a s' \<Longrightarrow> sampling_inv capacity s \<Longrightarrow> sampling_inv capacity s'"
  unfolding sampling_inv_def
  using leaders_step rounds_step waiters_step deadlines_step recorded_step history_step by blast

lemma sampling_inv_run: "sampler_run s as s' \<Longrightarrow> sampling_inv capacity s \<Longrightarrow> sampling_inv capacity s'"
  by (induction rule: sampler_run.induct) (blast intro: sampling_inv_step)+

lemma interval_step:
  assumes "sampler_step s a s'"
  shows "sm_interval s' = sm_interval s"
  using assms
proof (cases rule: sampler_step.cases)
  case (begins kind due_only)
  then show ?thesis by (cases rule: sample_begin_cases [of s kind due_only]) simp_all
qed (simp_all add: sample_publish_def sample_wake_def sample_drop_def split: option.split task.split)

lemma interval_run: "sampler_run s as s' \<Longrightarrow> sm_interval s' = sm_interval s"
  by (induction rule: sampler_run.induct) (simp_all add: interval_step)

text \<open>Reachable states of a sampler that was started with some settings.\<close>

definition reachable :: "daemon_config \<Rightarrow> runtime \<Rightarrow> bool" where
  "reachable settings s \<longleftrightarrow> (\<exists>now as. sampler_run (runtime_new settings now) as s)"

lemma reachable_inv:
  assumes "reachable settings s"
  shows "inv_leaders s" "inv_rounds s" "inv_waiters s" "inv_deadlines s" "inv_recorded s"
    "inv_history (dc_history_size settings) s"
    and "sm_interval s = from_secs (unat (dc_interval_secs settings))"
proof -
  from assms obtain now as where run: "sampler_run (runtime_new settings now) as s"
    unfolding reachable_def by blast
  show "inv_leaders s" "inv_rounds s" "inv_waiters s" "inv_deadlines s" "inv_recorded s"
    "inv_history (dc_history_size settings) s"
    using sampling_inv_run [OF run sampling_inv_new] unfolding sampling_inv_def by blast+
  show "sm_interval s = from_secs (unat (dc_interval_secs settings))"
    using interval_run [OF run] by simp
qed

text \<open>The step relation, computed.\<close>

fun act :: "runtime \<Rightarrow> action \<Rightarrow> runtime option" where
  "act s (Begin kind due_only) = Some (sample_begin kind due_only s)"
| "act s (Work i work) =
     (if i < length (rt_tasks s) then
        (case rt_tasks s ! i of
           Leading kind r \<Rightarrow> Some (sample_record_round i kind r work s) | _ \<Rightarrow> None) else None)"
| "act s (Publish i) =
     (if i < length (rt_tasks s) then
        (case rt_tasks s ! i of
           Publishing kind r result \<Rightarrow> Some (sample_publish i kind r result s) | _ \<Rightarrow> None) else None)"
| "act s (Wake i) =
     (if i < length (rt_tasks s) then
        (case rt_tasks s ! i of
           Following r \<Rightarrow> if rt_rounds s ! r = RoundOpen then None else Some (sample_wake i r s)
         | _ \<Rightarrow> None) else None)"
| "act s (Drop i) = (if i < length (rt_tasks s) then Some (sample_drop i s) else None)"
| "act s (Tick d) = Some (s\<lparr>rt_clock := rt_clock s + d\<rparr>)"

fun acts :: "runtime \<Rightarrow> action list \<Rightarrow> runtime option" where
  "acts s [] = Some s"
| "acts s (a # as) = (case act s a of Some s' \<Rightarrow> acts s' as | None \<Rightarrow> None)"

lemma act_iff: "act s a = Some s' \<longleftrightarrow> sampler_step s a s'"
proof (cases a)
  case (Begin kind due_only)
  then show ?thesis by (auto simp: begin_step_iff)
next
  case (Work i work)
  then show ?thesis by (auto simp: work_step_iff split: task.splits)
next
  case (Publish i)
  then show ?thesis by (auto simp: publish_step_iff split: task.splits)
next
  case (Wake i)
  then show ?thesis by (auto simp: wake_step_iff split: task.splits)
next
  case (Drop i)
  then show ?thesis by (auto simp: drop_step_iff)
next
  case (Tick d)
  then show ?thesis by (auto simp: tick_step_iff)
qed

lemma sampler_run_trans: "sampler_run s' bs s'' \<Longrightarrow> sampler_run s as s' \<Longrightarrow> sampler_run s (as @ bs) s''"
proof (induction rule: sampler_run.induct)
  case (run_nil s)
  then show ?case by simp
next
  case (run_snoc t bs t' b t'')
  have "sampler_run s ((as @ bs) @ [b]) t''"
    by (rule sampler_run.run_snoc [OF run_snoc.IH [OF run_snoc.prems] run_snoc.hyps(2)])
  then show ?case by simp
qed

lemma acts_run: "acts s as = Some s' \<Longrightarrow> sampler_run s as s'"
proof (induction as arbitrary: s)
  case Nil
  then show ?case by (simp add: run_nil)
next
  case (Cons a as)
  then obtain t where t: "act s a = Some t" "acts t as = Some s'" by (auto split: option.splits)
  have "sampler_run s ([] @ [a]) t"
    by (rule run_snoc [OF run_nil]) (use t(1) in \<open>simp add: act_iff\<close>)
  from sampler_run_trans [OF Cons.IH [OF t(2)] this] show ?case by simp
qed

lemma acts_reachable: "acts (runtime_new settings now) as = Some s \<Longrightarrow> reachable settings s"
  unfolding reachable_def by (blast dest: acts_run)

text \<open>A waiter whose round is open can be freed by its leader alone, in three steps.\<close>

lemma sampler_run_Cons:
  assumes "sampler_step s a t" "sampler_run t as s'"
  shows "sampler_run s (a # as) s'"
  using sampler_run_trans [OF assms(2) run_snoc [OF run_nil assms(1)]] by simp

lemma wake_finishes:
  assumes "i < length (rt_tasks s)" "rt_tasks s ! i = Following r" "rt_rounds s ! r \<noteq> RoundOpen"
  shows "\<exists>s' x. sampler_step s (Wake i) s' \<and> rt_tasks s' ! i = Returned (Some r) x"
proof (intro exI conjI)
  show "sampler_step s (Wake i) (sample_wake i r s)" using assms by (rule wakes)
  show "rt_tasks (sample_wake i r s) ! i =
      Returned (Some r) (the (waiter_result (rt_rounds s ! r)))"
    using assms by (cases "rt_rounds s ! r") (simp_all add: sample_wake_def waiter_result_def)
qed

lemma publish_frees:
  assumes "inv_leaders s" "j < length (rt_tasks s)" "rt_tasks s ! j = Publishing kind r result"
    and "i < length (rt_tasks s)" "rt_tasks s ! i = Following r"
  shows "\<exists>s' x. sampler_run s [Publish j, Wake i] s' \<and> rt_tasks s' ! i = Returned (Some r) x"
proof -
  let ?t = "sample_publish j kind r result s"
  have "i \<noteq> j" using assms by auto
  moreover have "r < length (rt_rounds s)"
    using leaderD(1) [OF assms(1), of j kind r] assms(2,3) by (simp add: leader_def)
  ultimately obtain s' x where w: "sampler_step ?t (Wake i) s'" "rt_tasks s' ! i = Returned (Some r) x"
    using wake_finishes [of i ?t r] assms by (auto simp: sample_publish_def)
  have "sampler_step s (Publish j) ?t" using assms(2,3) by (rule publishes)
  with w show ?thesis by (blast intro: sampler_run_Cons run_nil)
qed

lemma work_frees:
  assumes "inv_leaders s" "j < length (rt_tasks s)" "rt_tasks s ! j = Leading kind r"
    and "i < length (rt_tasks s)" "rt_tasks s ! i = Following r"
  shows "\<exists>s' x. sampler_run s [Work j (Ok []), Publish j, Wake i] s' \<and> rt_tasks s' ! i = Returned (Some r) x"
proof -
  let ?t = "sample_record_round j kind r (Ok []) s"
  have step: "sampler_step s (Work j (Ok [])) ?t" using assms(2,3) by (rule works)
  have "i \<noteq> j" using assms by auto
  then have "\<exists>s' x. sampler_run ?t [Publish j, Wake i] s' \<and> rt_tasks s' ! i = Returned (Some r) x"
    using assms leaders_step [OF step assms(1)]
    by (intro publish_frees [where kind = kind and result = "annotated_result s (Ok [])"]) simp_all
  with step show ?thesis by (blast intro: sampler_run_Cons)
qed

section \<open>Properties\<close>

text \<open>
  In the example a manual and a scheduled caller share a round of one record; a third caller
  is then skipped, because its probe is not due.
\<close>

definition sample_end :: runtime where
  "sample_end = the (acts (runtime_new daemon_config_default 0)
     [Begin Wan False, Begin Wan True, Tick 5000, Work 0 (Ok [sample_record 1 True]), Publish 0, Wake 1])"

lemma sample_end_run: "acts (runtime_new daemon_config_default 0)
     [Begin Wan False, Begin Wan True, Tick 5000, Work 0 (Ok [sample_record 1 True]), Publish 0, Wake 1]
   = Some sample_end"
  by (simp add: sample_end_def op_defs slot_default_def split_def)

lemma sample_end_reachable: "reachable daemon_config_default sample_end"
  by (rule acts_reachable [OF sample_end_run])

lemma sample_end_tasks:
  "rt_tasks sample_end =
     [Returned (Some 0) (Ok [sample_record 1 True]), Returned (Some 0) (Ok [sample_record 1 True])]"
  by (simp add: sample_end_def op_defs slot_default_def split_def history_insert_def history_new_def
      series_default_def newest_def sample_record_def waiter_result_def)

text \<open>
  C7. At most one round of a kind runs at any time, and one task leads it: in every reachable
  state, whatever the interleaving and whoever was cancelled, two tasks that lead rounds of
  the same kind are the same task.
\<close>

theorem one_round_per_kind:
  assumes "reachable settings s" "leader s i kind r" "leader s j kind q"
  shows "i = j \<and> r = q"
proof -
  note inv = reachable_inv(1) [OF assms(1)]
  have "r = q"
    using leaderD(3) [OF inv assms(2)] leaderD(3) [OF inv assms(3)] by simp
  then show ?thesis using leader_unique [OF inv assms(2)] assms(3) by blast
qed

definition sample_shared :: runtime where
  "sample_shared = sample_begin Wan True (sample_begin Wan False (runtime_new daemon_config_default 0))"

lemma sample_shared_reachable: "reachable daemon_config_default sample_shared"
  by (rule acts_reachable [where now = 0 and as = "[Begin Wan False, Begin Wan True]"])
    (simp add: sample_shared_def)

theorem one_round_per_kind_witness:
  "leader sample_shared 0 Wan 0 \<and> (\<forall>j. leader sample_shared j Wan 0 = (j = 0))"
proof -
  have lead: "leader sample_shared 0 Wan 0"
    by (simp add: sample_shared_def op_defs slot_default_def leader_def)
  then show ?thesis
    using one_round_per_kind [OF sample_shared_reachable] by blast
qed

text \<open>
  Everyone who shares a round gets the same answer: in every reachable state, all tasks
  that have returned from a round, its leader included, returned the published result of
  that round, or \<open>ProbeCancelled\<close> if its leader was dropped; later rounds do not replace it.
\<close>

theorem waiters_get_their_rounds_result:
  assumes "reachable settings s" "Returned (Some r) x \<in> set (rt_tasks s)"
  shows "r < length (rt_rounds s)
    \<and> (case rt_rounds s ! r of
         RoundOpen \<Rightarrow> False
       | RoundPublished result \<Rightarrow> x = map_err ProbeFailed result
       | RoundClosed \<Rightarrow> x = Err ProbeCancelled)"
  using waitersD(2) [OF reachable_inv(3) [OF assms(1)] assms(2)]
  by (auto simp: waiter_result_def split: round.splits)

theorem waiters_get_their_rounds_result_witness:
  "rt_rounds sample_end ! 0 = RoundPublished (Ok [sample_record 1 True])"
  using waiters_get_their_rounds_result [OF sample_end_reachable, of 0 "Ok [sample_record 1 True]"]
  by (auto simp: sample_end_tasks result_simps eq_commute [of "Ok _"] split: round.splits)

text \<open>
  C8. The history holds exactly the completed rounds, once each, whoever asked for them: it
  is the result of inserting the records of the recorded rounds in the order they were
  recorded; no round is recorded twice; a published result is the recorded records with
  their last-success time filled in; and a round that failed or was cancelled left nothing.
\<close>

theorem completed_rounds_recorded_once:
  assumes "reachable settings s"
  shows "sm_history s = snd (insert_all history_insert (history_new (dc_history_size settings))
           (concat (map snd (rt_recorded s))))
    \<and> distinct (map fst (rt_recorded s))
    \<and> (\<forall>r < length (rt_rounds s).
         case rt_rounds s ! r of
           RoundPublished (Ok out) \<Rightarrow> (\<exists>records. (r, records) \<in> set (rt_recorded s) \<and> annotates records out)
         | RoundPublished (Err e) \<Rightarrow> r \<notin> fst ` set (rt_recorded s)
         | RoundClosed \<Rightarrow> r \<notin> fst ` set (rt_recorded s)
         | RoundOpen \<Rightarrow> True)"
proof -
  note inv = reachable_inv [OF assms]
  have "case rt_rounds s ! r of
           RoundPublished (Ok out) \<Rightarrow> (\<exists>records. (r, records) \<in> set (rt_recorded s) \<and> annotates records out)
         | RoundPublished (Err e) \<Rightarrow> r \<notin> fst ` set (rt_recorded s)
         | RoundClosed \<Rightarrow> r \<notin> fst ` set (rt_recorded s)
         | RoundOpen \<Rightarrow> True" if r: "r < length (rt_rounds s)" for r
  proof (cases "rt_rounds s ! r = RoundOpen")
    case False
    have none: "\<not> (\<exists>k x. Publishing k r x \<in> set (rt_tasks s))"
      using False leaderD(2) [OF inv(1)] by (fastforce simp: in_set_conv_nth leader_def)
    have res: "round_result s r x \<longleftrightarrow> rt_rounds s ! r = RoundPublished x" for x
      using none r unfolding round_result_def by blast
    have recorded: "\<exists>out. rt_rounds s ! r = RoundPublished (Ok out) \<and> annotates records out"
      if "(r, records) \<in> set (rt_recorded s)" for records
      using recordedD(2) [OF inv(5) that] unfolding res .
    show ?thesis
    proof (cases "\<exists>out. rt_rounds s ! r = RoundPublished (Ok out)")
      case True
      then obtain out where out: "rt_rounds s ! r = RoundPublished (Ok out)" by blast
      then have "r \<in> fst ` set (rt_recorded s)"
        using recordedD(3) [OF inv(5), of r out] res by blast
      then obtain records where "(r, records) \<in> set (rt_recorded s)" by auto
      with recorded [OF this] out show ?thesis by auto
    next
      case False
      then have "r \<notin> fst ` set (rt_recorded s)" using recorded by fastforce
      with False show ?thesis by (auto split: round.split result.split)
    qed
  qed simp
  then show ?thesis
    using inv(6) recordedD(1) [OF inv(5)] unfolding inv_history_def by blast
qed

theorem completed_rounds_recorded_once_witness:
  "sm_history sample_end = snd (insert_all history_insert (history_new 64) [sample_record 1 True])"
proof -
  have "rt_recorded sample_end = [(0, [sample_record 1 True])]"
    by (simp add: sample_end_def op_defs slot_default_def split_def waiter_result_def)
  then show ?thesis
    using completed_rounds_recorded_once [OF sample_end_reachable]
    by (simp add: daemon_config_default_def)
qed

text \<open>
  No waiter is stuck: in every reachable state, a task that waits for a round can return
  within at most three steps of itself and its leader, whoever else is cancelled or blocked;
  if its leader was dropped it can return at once.
\<close>

theorem waiters_can_always_return:
  assumes "reachable settings s" "i < length (rt_tasks s)" "rt_tasks s ! i = Following r"
  shows "\<exists>as s' x. length as \<le> 3 \<and> sampler_run s as s' \<and> rt_tasks s' ! i = Returned (Some r) x"
proof -
  note inv = reachable_inv [OF assms(1)]
  have r: "r < length (rt_rounds s)"
    using waitersD(1) [OF inv(3), of r] assms(2,3) nth_mem by metis
  show ?thesis
  proof (cases "rt_rounds s ! r = RoundOpen")
    case True
    then obtain j kind where j: "j < length (rt_tasks s)" "leads (rt_tasks s ! j) = Some (kind, r)"
      using roundsD(1) [OF inv(2) r] by (auto simp: leader_def)
    then consider "rt_tasks s ! j = Leading kind r" | x where "rt_tasks s ! j = Publishing kind r x"
      by (cases "rt_tasks s ! j") auto
    then show ?thesis
    proof cases
      case 1
      from work_frees [OF inv(1) j(1) 1 assms(2,3)] obtain s' y where
        "sampler_run s [Work j (Ok []), Publish j, Wake i] s'" "rt_tasks s' ! i = Returned (Some r) y"
        by blast
      then show ?thesis
        by (intro exI [of _ "[Work j (Ok []), Publish j, Wake i]"] exI [of _ s'] exI [of _ y]) simp
    next
      case 2
      from publish_frees [OF inv(1) j(1) 2 assms(2,3)] obtain s' y where
        "sampler_run s [Publish j, Wake i] s'" "rt_tasks s' ! i = Returned (Some r) y"
        by blast
      then show ?thesis
        by (intro exI [of _ "[Publish j, Wake i]"] exI [of _ s'] exI [of _ y]) simp
    qed
  next
    case False
    from wake_finishes [OF assms(2,3) False] obtain s' x where
      "sampler_step s (Wake i) s'" "rt_tasks s' ! i = Returned (Some r) x" by blast
    then show ?thesis
      by (intro exI [of _ "[Wake i]"] exI [of _ s'] exI [of _ x]) (simp add: sampler_run_Cons run_nil)
  qed
qed

theorem waiters_can_always_return_witness:
  "\<exists>as s' x. length as \<le> 3 \<and> sampler_run sample_shared as s' \<and> rt_tasks s' ! 1 = Returned (Some 0) x"
  by (rule waiters_can_always_return [OF sample_shared_reachable])
    (simp_all add: sample_shared_def op_defs slot_default_def)

text \<open>
  C10. What a caller gets when it begins, in every reachable state. A caller that follows joins
  the open round of its own kind, led by another task. A scheduled caller is turned away only
  while the interval since the last completion of its kind has not passed, and leads a round
  only once it has; a manual caller is never turned away. Nobody leads while another round of
  that kind is open. No step but a publication of its kind moves a deadline.
\<close>

theorem rounds_respect_the_interval:
  assumes "reachable settings s"
  shows "\<exists>t. rt_tasks (sample_begin kind due_only s) = rt_tasks s @ [t] \<and>
    (case t of
       Following r \<Rightarrow> \<exists>j. leader s j kind r
     | Leading k r \<Rightarrow> k = kind \<and> r = length (rt_rounds s) \<and> (\<forall>j q. \<not> leader s j kind q)
         \<and> (due_only \<longrightarrow> (\<forall>f. rt_finished s kind = Some f \<longrightarrow>
              f + from_secs (unat (dc_interval_secs settings)) \<le> rt_clock s))
     | Returned round x \<Rightarrow> round = None \<and> x = Ok [] \<and> due_only
         \<and> (\<exists>f. rt_finished s kind = Some f
              \<and> rt_clock s < f + from_secs (unat (dc_interval_secs settings)))
     | _ \<Rightarrow> False)"
proof -
  note inv = reachable_inv [OF assms]
  note dl = deadlinesD(1) [OF inv(4), of kind, unfolded inv(7)]
  have closed: "\<not> leader s j kind q"
    if "\<And>r. sl_running (sm_slots s kind) = Some r \<Longrightarrow> rt_rounds s ! r = RoundClosed" for j q
    using that leaderD(2,3) [OF inv(1), of j kind q] by auto
  show ?thesis
  proof (cases rule: sample_begin_cases [of s kind due_only])
    case (follows r)
    then have "r < length (rt_rounds s)" "rt_rounds s ! r = RoundOpen"
      using roundsD(2) [OF inv(2) follows(1)] by (auto intro: round.exhaust)
    then obtain j k where "leader s j k r" using roundsD(1) [OF inv(2)] by blast
    moreover from this have "k = kind"
      using leaderD(3) [OF inv(1)] roundsD(3) [OF inv(2) _ follows(1)] by blast
    ultimately show ?thesis using follows(3) by auto
  next
    case (skips due)
    then show ?thesis using dl by auto
  next
    case leads
    then show ?thesis using dl closed by auto
  qed
qed

theorem rounds_respect_the_interval_witness:
  "\<exists>t. rt_tasks (sample_begin Wan True sample_end) = rt_tasks sample_end @ [t] \<and>
    (case t of
       Following r \<Rightarrow> \<exists>j. leader sample_end j Wan r
     | Leading k r \<Rightarrow> k = Wan \<and> r = length (rt_rounds sample_end) \<and> (\<forall>j q. \<not> leader sample_end j Wan q)
         \<and> (True \<longrightarrow> (\<forall>f. rt_finished sample_end Wan = Some f \<longrightarrow>
              f + from_secs (unat (dc_interval_secs daemon_config_default)) \<le> rt_clock sample_end))
     | Returned round x \<Rightarrow> round = None \<and> x = Ok [] \<and> True
         \<and> (\<exists>f. rt_finished sample_end Wan = Some f
              \<and> rt_clock sample_end < f + from_secs (unat (dc_interval_secs daemon_config_default)))
     | _ \<Rightarrow> False)"
  by (rule rounds_respect_the_interval [OF sample_end_reachable])

text \<open>
  Only a publication moves a deadline, and only that of its own kind: the deadline is then
  the completion time plus the configured interval, and the round's result is visible from the
  same step on.
\<close>

theorem deadlines_follow_completion:
  assumes "reachable settings s" "sampler_step s a s'"
  shows "(\<exists>i kind r x. a = Publish i \<and> rt_tasks s ! i = Publishing kind r x
            \<and> sl_next (sm_slots s' kind) = Some (rt_clock s + from_secs (unat (dc_interval_secs settings)))
            \<and> rt_rounds s' ! r = RoundPublished x \<and> sl_running (sm_slots s' kind) = None
            \<and> (\<forall>k. if k = kind then True else sm_slots s' k = sm_slots s k))
    \<or> (\<forall>k. sl_next (sm_slots s' k) = sl_next (sm_slots s k))"
  using assms(2)
proof (cases rule: sampler_step.cases)
  case (publishes i kind r result)
  have "r < length (rt_rounds s)"
    using leaderD(1) [OF reachable_inv(1) [OF assms(1)], of i kind r] publishes(3,4)
    by (simp add: leader_def)
  then show ?thesis
    using publishes(4) reachable_inv(7) [OF assms(1)]
    by (auto simp: publishes(1,2) sample_publish_def)
next
  case (begins kind due_only)
  then show ?thesis by (cases rule: sample_begin_cases [of s kind due_only]) simp_all
qed (simp_all add: sample_wake_def sample_drop_def split: option.split task.split)

theorem deadlines_follow_completion_witness:
  "sl_next (sm_slots (the (act sample_shared (Tick 7))) Wan) = sl_next (sm_slots sample_shared Wan)"
  using deadlines_follow_completion [OF sample_shared_reachable ticks [of sample_shared 7]] by auto

text \<open>
  The log tells outages apart from routine checks: a failure that starts an outage, or is
  the first record of its series, is a warning; a first success and a recovery are info; all
  else is debug. A recovery carries the time since the last success before it, if there was
  one, and never underflows.
\<close>

theorem log_levels_follow_transitions:
  assumes "history_insert h r = (t, r', h')"
  shows "lg_level (log_record r' t) =
      (case t of First \<Rightarrow> if r_success r then Info else Warn | Failed \<Rightarrow> Warn
       | Recovered l \<Rightarrow> Info | Unchanged \<Rightarrow> Debug)
    \<and> (case lg_since_last_ok_secs (log_record r' t) of
         Some secs \<Rightarrow> \<exists>l. t = Recovered (Some l) \<and> unat secs = unat (r_observed_at r) - unat l
       | None \<Rightarrow> \<forall>l. t \<noteq> Recovered (Some l))"
proof -
  have r': "r_success r' = r_success r" "r_observed_at r' = r_observed_at r"
    using store.ins_annotates [OF assms] by auto
  have "t = Failed \<Longrightarrow> \<not> r_success r" "\<And>l. t = Recovered l \<Longrightarrow> r_success r"
    using assms by (auto simp: history_insert_def Let_def elim!: transition_of.elims)
  then show ?thesis
    by (cases t) (auto simp: log_record_def Let_def r' int_simps split: option.split)
qed

theorem log_levels_follow_transitions_witness:
  "lg_level (log_record (sample_record 5 False) First) = Warn"
proof -
  have ins: "history_insert (history_new 8) (sample_record 5 False) =
      (First, sample_record 5 False,
       (history_new 8)\<lparr>h_series := [((Peers, ''iroh_health'', ''a''),
          \<lparr>sr_records = [sample_record 5 False], sr_last_success_at = None\<rparr>)]\<rparr>)"
    by (simp add: history_insert_def history_new_def Let_def series_default_def newest_def
        sample_record_def record_key_def bt_empty_def bt_get_def)
  from log_levels_follow_transitions [OF ins] show ?thesis by (simp add: sample_record_def)
qed

section \<open>Termination\<close>

text \<open>The steps a call of \<open>sample\<close> can still take.\<close>

fun steps_left :: "task \<Rightarrow> nat" where
  "steps_left (Leading kind r) = 2"
| "steps_left (Publishing kind r result) = 1"
| "steps_left (Following r) = 1"
| "steps_left (Returned r result) = 0"
| "steps_left TaskDropped = 0"

definition work_left :: "runtime \<Rightarrow> nat" where
  "work_left s = sum_list (map steps_left (rt_tasks s))"

fun begins_call :: "action \<Rightarrow> bool" where
  "begins_call (Begin kind due_only) = True"
| "begins_call _ = False"

fun advances_call :: "action \<Rightarrow> bool" where
  "advances_call (Work i work) = True"
| "advances_call (Publish i) = True"
| "advances_call (Wake i) = True"
| "advances_call _ = False"

lemma work_left_append: "rt_tasks s' = rt_tasks s @ [t] \<Longrightarrow> work_left s' = work_left s + steps_left t"
  by (simp add: work_left_def)

lemma work_left_update:
  assumes "rt_tasks s' = (rt_tasks s)[i := t]" "i < length (rt_tasks s)"
  shows "work_left s' + steps_left (rt_tasks s ! i) = work_left s + steps_left t"
proof -
  have "steps_left (rt_tasks s ! i) \<le> work_left s"
    unfolding work_left_def using assms(2) by (intro member_le_sum_list) auto
  then show ?thesis
    using assms by (simp add: work_left_def map_update sum_list_update)
qed

lemma work_left_step:
  "sampler_step s a s' \<Longrightarrow>
     work_left s' + of_bool (advances_call a) \<le> work_left s + 2 * of_bool (begins_call a)"
proof (induction rule: sampler_step.induct)
  case (begins s kind due_only)
  show ?case
    by (cases rule: sample_begin_cases [of s kind due_only]) (simp_all add: work_left_def)
next
  case (works i s kind r work)
  from work_left_update [OF record_round_fields(1) works(1)] show ?case by (simp add: works(2))
next
  case (publishes i s kind r result)
  show ?case
    using work_left_update [of "sample_publish i kind r result s" s i] publishes
    by (simp add: sample_publish_def)
next
  case (wakes i s r)
  then obtain x where "rt_tasks (sample_wake i r s) = (rt_tasks s)[i := Returned (Some r) x]"
    by (cases "rt_rounds s ! r") (auto simp: sample_wake_def waiter_result_def)
  from work_left_update [OF this wakes(1)] show ?case by (simp add: wakes(2))
next
  case (drops i s)
  show ?case
    using work_left_update [of "sample_drop i s" s i TaskDropped] drops
    by (cases "rt_tasks s ! i") (simp_all add: sample_drop_def)
next
  case (ticks s d)
  then show ?case by (simp add: work_left_def)
qed

lemma work_left_run:
  "sampler_run s as s' \<Longrightarrow>
     work_left s' + length (filter advances_call as) \<le> work_left s + 2 * length (filter begins_call as)"
proof (induction rule: sampler_run.induct)
  case (run_snoc s as s' a s'')
  then show ?case using work_left_step [OF run_snoc.hyps(2)]
    by (cases "begins_call a"; cases "advances_call a") simp_all
qed simp

lemma unfinished_can_advance:
  assumes "inv_leaders s" "inv_rounds s" "inv_waiters s" "i < length (rt_tasks s)"
    and "steps_left (rt_tasks s ! i) > 0"
  shows "\<exists>a s'. advances_call a \<and> sampler_step s a s'"
proof -
  have lead: "\<exists>a s'. advances_call a \<and> sampler_step s a s'"
    if "leader s j kind r" for j kind r
  proof (cases "rt_tasks s ! j")
    case (Leading k q)
    then show ?thesis
      using works [of j s k q "Ok []"] that unfolding leader_def by (meson advances_call.simps(1))
  next
    case (Publishing k q x)
    then show ?thesis
      using publishes [of j s k q x] that unfolding leader_def by (meson advances_call.simps(2))
  qed (use that in \<open>simp_all add: leader_def\<close>)
  show ?thesis
  proof (cases "rt_tasks s ! i")
    case (Following r)
    then have r: "r < length (rt_rounds s)"
      using waitersD(1) [OF assms(3), of r] assms(4) nth_mem by metis
    show ?thesis
    proof (cases "rt_rounds s ! r = RoundOpen")
      case True
      then show ?thesis using roundsD(1) [OF assms(2) r] lead by blast
    next
      case False
      then show ?thesis
        using wakes [OF assms(4) Following] by (meson advances_call.simps(3))
    qed
  next
    case (Leading kind r)
    then show ?thesis using lead [of i kind r] assms(4) by (simp add: leader_def)
  next
    case (Publishing kind r x)
    then show ?thesis using lead [of i kind r] assms(4) by (simp add: leader_def)
  qed (use assms(5) in simp_all)
qed

text \<open>
  C9. Sampling terminates: whatever the interleaving, with cancellations, the calls of \<open>sample\<close>
  take at most two steps each, so finitely many calls take finitely many steps; and no state
  is stuck: as long as a call has neither returned nor been dropped, some call can take its
  next step. A run that takes every step it can therefore ends with every call returned.
\<close>

theorem sampling_terminates:
  assumes "sampler_run (runtime_new settings now) as s"
  shows "length (filter advances_call as) + work_left s \<le> 2 * length (filter begins_call as)
    \<and> (\<forall>t \<in> set (rt_tasks s).
         t = TaskDropped \<or> (\<exists>r x. t = Returned r x)
         \<or> (\<exists>a s'. advances_call a \<and> sampler_step s a s' \<and> work_left s' < work_left s))"
proof (intro conjI ballI)
  show "length (filter advances_call as) + work_left s \<le> 2 * length (filter begins_call as)"
    using work_left_run [OF assms] by (simp add: work_left_def)
next
  fix t assume "t \<in> set (rt_tasks s)"
  then obtain i where i: "i < length (rt_tasks s)" "rt_tasks s ! i = t"
    by (auto simp: in_set_conv_nth)
  have "reachable settings s" unfolding reachable_def using assms by blast
  note inv = reachable_inv [OF this]
  then have next_step: "\<exists>a s'. advances_call a \<and> sampler_step s a s'" if "steps_left t > 0"
    using unfinished_can_advance [OF inv(1-3) i(1)] that i(2) by simp
  have "work_left s' < work_left s" if "advances_call a" "sampler_step s a s'" for a s'
    using work_left_step [OF that(2)] that(1) by (cases a) simp_all
  with next_step show "t = TaskDropped \<or> (\<exists>r x. t = Returned r x)
      \<or> (\<exists>a s'. advances_call a \<and> sampler_step s a s' \<and> work_left s' < work_left s)"
    by (cases t) auto
qed

theorem sampling_terminates_witness:
  "\<exists>a s'. advances_call a \<and> sampler_step sample_shared a s' \<and> work_left s' < work_left sample_shared"
proof -
  have run: "sampler_run (runtime_new daemon_config_default 0) [Begin Wan False, Begin Wan True] sample_shared"
    by (rule acts_run) (simp add: sample_shared_def)
  have "Following 0 \<in> set (rt_tasks sample_shared)"
    by (simp add: sample_shared_def op_defs slot_default_def)
  then show ?thesis
    using conjunct2 [OF sampling_terminates [OF run]] by blast
qed

end
