(* ===== verification/Dispatch.thy ===== *)
theory Dispatch
  imports Probing Sampling Exec
begin

text \<open>
  One request against a node (\<open>dispatch.rs\<close>): which parts of the node a request may use, and
  what it answers. A round of the sampler involves other tasks, so what \<open>Sampler::run\<close>
  returned is in the environment, as are the answers of the system to an exec. \<open>None\<close> is a
  request that never finishes, because its future was dropped or still waits.
\<close>

definition VERSION :: string where
  "VERSION = ''0.1.0''"

record 'c node =
  nd_config :: config
  nd_id :: string
  nd_dialer :: "'c dialer option"
  nd_sampler :: "sampler option"

record ('f, 'c) dispatch_env =
  de_codecs :: codecs
  de_probe :: "('f, 'c) probe_env"
  de_sampled :: shared_result
  de_exec :: exec_env
  de_now :: u64

text \<open>What a request did besides answering: the probe rounds and the processes it started.\<close>

datatype work_done = ProbeRound probe_kind | SampledRound probe_kind | Process exec_effect

definition dispatch ::
  "('f, 'c) dispatch_env \<Rightarrow> 'c node \<Rightarrow> request \<Rightarrow> (response, node_error) result option \<times> work_done list" where
  "dispatch env node request =
     (case request of
        Health \<Rightarrow>
          (Some (Ok (HealthResponse \<lparr>h_endpoint_id = nd_id node, h_status = ''ok'', h_version = VERSION\<rparr>)), [])
      | Probe kind \<Rightarrow>
          (case (nd_sampler node, nd_dialer node) of
             (Some _, Some _) \<Rightarrow>
               (Some (map_ok (\<lambda>records. ProbeResponse
                  \<lparr>pr_observer = nd_id node, pr_kind = kind, pr_records = records\<rparr>) (de_sampled env)),
                [SampledRound kind])
           | _ \<Rightarrow>
               (Some (map_ok (\<lambda>records. ProbeResponse
                  \<lparr>pr_observer = nd_id node, pr_kind = kind, pr_records = records\<rparr>)
                  (fst (run_probe (de_codecs env) (de_probe env) (nd_config node) (nd_dialer node) kind))),
                [ProbeRound kind]))
      | History kind about limit \<Rightarrow>
          (Some (and_then (ok_or (nd_sampler node) (Invalid ''history requires a running daemon''))
             (\<lambda>sampler. Ok (HistoryResponse
                \<lparr>hr_observer = nd_id node, hr_queried_at = de_now env,
                 hr_records = history_query (sm_history sampler) kind about limit\<rparr>))), [])
      | Exec program args secs \<Rightarrow>
          (case execute (de_exec env) program args secs of
             (r, effects) \<Rightarrow>
               (map_option (\<lambda>x. map_ok ExecResponse (map_err CoreError x)) r, map Process effects)))"

definition respond :: "(transport_source \<Rightarrow> string) \<Rightarrow> (response, node_error) result \<Rightarrow> response" where
  "respond source_text r =
     (case r of Ok x \<Rightarrow> x | Err e \<Rightarrow> ErrorResponse (node_error_display source_text e))"

definition spawns :: "work_done list \<Rightarrow> nat" where
  "spawns ws = length (filter (\<lambda>w. \<exists>pid p as. w = Process (Spawned pid p as)) ws)"

lemma spawns_simps [simp]:
  "spawns [] = 0" "spawns (v # ws) = (case v of Process (Spawned pid p as) \<Rightarrow> 1 | _ \<Rightarrow> 0) + spawns ws"
  by (auto simp: spawns_def split: work_done.splits exec_effect.splits)

lemma execute_effects: "snd (execute env p as secs) = [] \<or> (\<exists>pid. snd (execute env p as secs) = [Spawned pid p as, KillGroup pid])"
  by (simp add: execute_def split: result.split)

lemma dispatch_spawns:
  "spawns (snd (dispatch env node request)) \<le> (if is_exec request then 1 else 0)"
proof (cases request)
  case (Exec p as secs)
  then show ?thesis
    using execute_effects [of "de_exec env" p as secs] by (auto simp: dispatch_def split_def)
qed (simp_all add: dispatch_def split: option.split)

section \<open>Properties\<close>

text \<open>The answer to a request is of the request's own kind.\<close>

fun answers :: "request \<Rightarrow> response \<Rightarrow> bool" where
  "answers Health (HealthResponse h) = (h_status h = ''ok'')"
| "answers (Probe kind) (ProbeResponse p) = (pr_kind p = kind)"
| "answers (History kind about limit) (HistoryResponse h) = (length (hr_records h) \<le> min limit MAX_HISTORY_QUERY)"
| "answers (Exec program args secs) (ExecResponse x) = True"
| "answers _ _ = False"


text \<open>The example asks a node without a sampler for its history.\<close>

definition sample_node :: "nat node" where
  "sample_node = \<lparr>nd_config = sample_config, nd_id = ''me'', nd_dialer = None, nd_sampler = None\<rparr>"


end
