(* ===== verification/Server.thy ===== *)
theory Server
  imports Dispatch
begin

text \<open>
  Serving requests (\<open>server.rs\<close>, \<open>ipc.rs\<close>): the whitelist of peers, one request per stream, and
  the local socket. Which permits are free, what the streams deliver and accept, and which
  waits expire is the environment; the definitions answer what is sent back and what was done.
\<close>

definition BUSY :: string where
  "BUSY = ''daemon busy; request not executed''"

section \<open>One stream of a peer\<close>

record ('f, 'c) stream_env =
  ss_reader :: reader
  ss_read_expired :: bool
  ss_permit :: bool
  ss_dispatch :: "('f, 'c) dispatch_env"
  ss_writer :: writer
  ss_write_expired :: bool
  ss_finish :: "(unit, string) result"

record served =
  sv_result :: "(unit, node_error) result option"
  sv_sent :: "u8 list"
  sv_work :: "work_done list"

text \<open>A bounded wait for a protocol operation.\<close>

definition framed :: "bool \<Rightarrow> ('a, protocol_error) result \<Rightarrow> ('a, node_error) result" where
  "framed expired r = within (if expired then Elapsed else Completed (map_err ProtocolError r))"

definition serve_stream ::
  "codecs \<Rightarrow> 'c node \<Rightarrow> ('f, 'c) stream_env \<Rightarrow> served" where
  "serve_stream cs node env =
     (case framed (ss_read_expired env) (fst (read_frame (from_json_request cs) (ss_reader env))) of
        Err e \<Rightarrow> \<lparr>sv_result = Some (Err e), sv_sent = [], sv_work = []\<rparr>
      | Ok request \<Rightarrow>
          (case (if ss_permit env
                 then (case dispatch (ss_dispatch env) node request of
                         (answer, work) \<Rightarrow> (map_option (respond (source_text_of cs)) answer, work))
                 else (Some (ErrorResponse BUSY), [])) of
             (None, work) \<Rightarrow> \<lparr>sv_result = None, sv_sent = [], sv_work = work\<rparr>
           | (Some reply, work) \<Rightarrow>
               (case write_frame (to_json_response cs) reply (ss_writer env) of
                  (written, w) \<Rightarrow>
                    \<lparr>sv_result = Some (and_then (framed (ss_write_expired env) written)
                       (\<lambda>_. map_err transport (ss_finish env))),
                     sv_sent = wr_sent w, sv_work = work\<rparr>)))"

section \<open>One connection of a peer\<close>

text \<open>
  A connection ends with the code it was closed with by this side, if it was, and what its
  streams came to. Streams run concurrently; each has its own environment.
\<close>

definition peer_alias :: "config \<Rightarrow> endpoint_id \<Rightarrow> string option" where
  "peer_alias cfg remote =
     find_map (\<lambda>(name, p). if peer_id p = remote then Some name else None) (cf_peers cfg)"

definition serve_peer ::
  "codecs \<Rightarrow> 'c node \<Rightarrow> endpoint_id \<Rightarrow> ('f, 'c) stream_env list \<Rightarrow> nat option \<times> served list" where
  "serve_peer cs node remote streams =
     (case peer_alias (nd_config node) remote of
        None \<Rightarrow> (Some UNAUTHORIZED, [])
      | Some name \<Rightarrow> (None, map (serve_stream cs node) streams))"

section \<open>The local socket\<close>

record local_request =
  lr_target :: "string option"
  lr_request :: request

record ('f, 'c) local_env =
  ll_from_json :: "local_request deserialiser"
  ll_reader :: reader
  ll_read_expired :: bool
  ll_permit :: bool
  ll_dispatch :: "('f, 'c) dispatch_env"
  ll_now :: instant
  ll_attempts :: "'c attempt \<times> 'c attempt"
  ll_writer :: writer
  ll_write_expired :: bool

definition forward ::
  "codecs \<Rightarrow> instant \<Rightarrow> 'c attempt \<times> 'c attempt \<Rightarrow> 'c node \<Rightarrow> string \<Rightarrow> request
   \<Rightarrow> (response, node_error) result \<times> 'c dialer option \<times> 'c event list" where
  "forward cs now attempts node name request =
     (case config_peer (nd_config node) name of
        Err e \<Rightarrow> (Err e, nd_dialer node, [])
      | Ok p \<Rightarrow>
          (case nd_dialer node of
             None \<Rightarrow> (Err (Invalid ''forwarding requires an endpoint''), None, [])
           | Some d \<Rightarrow>
               (case call (to_json_request cs) (from_json_response cs) now attempts (peer_addr p) request d of
                  (r, d', tr) \<Rightarrow> (r, Some d', tr))))"

record 'c local_served = served +
  ls_trace :: "'c event list"
  ls_dialer :: "'c dialer option"

definition serve_local ::
  "codecs \<Rightarrow> 'c node \<Rightarrow> ('f, 'c) local_env \<Rightarrow> 'c local_served" where
  "serve_local cs node env =
     (case framed (ll_read_expired env) (fst (read_frame (ll_from_json env) (ll_reader env))) of
        Err e \<Rightarrow> \<lparr>sv_result = Some (Err e), sv_sent = [], sv_work = [], ls_trace = [],
                   ls_dialer = nd_dialer node\<rparr>
      | Ok message \<Rightarrow>
          (case (if ll_permit env
                 then (case lr_target message of
                         Some name \<Rightarrow>
                           (case forward cs (ll_now env) (ll_attempts env) node name (lr_request message) of
                              (r, d, tr) \<Rightarrow> (Some r, [], tr, d))
                       | None \<Rightarrow>
                           (case dispatch (ll_dispatch env) node (lr_request message) of
                              (answer, work) \<Rightarrow> (answer, work, [], nd_dialer node)))
                 else (Some (Err (Invalid BUSY)), [], [], nd_dialer node)) of
             (None, work, tr, d) \<Rightarrow>
               \<lparr>sv_result = None, sv_sent = [], sv_work = work, ls_trace = tr, ls_dialer = d\<rparr>
           | (Some result, work, tr, d) \<Rightarrow>
               (case write_frame (to_json_response cs) (respond (source_text_of cs) result) (ll_writer env) of
                  (written, w) \<Rightarrow>
                    \<lparr>sv_result = Some (framed (ll_write_expired env) written), sv_sent = wr_sent w,
                     sv_work = work, ls_trace = tr, ls_dialer = d\<rparr>)))"

section \<open>Lemmas\<close>

lemma framed_simps [simp]:
  "framed True r = Err NodeTimeout" "framed False (Ok x) = Ok x"
  "framed False (Err e) = Err (ProtocolError e)"
  by (simp_all add: framed_def)

lemma framed_Ok_iff: "framed expired r = Ok x \<longleftrightarrow> \<not> expired \<and> r = Ok x"
  by (cases expired; cases r) simp_all

lemma find_map_None: "find_map f xs = None \<longleftrightarrow> (\<forall>x \<in> set xs. f x = None)"
  by (induction xs) (auto split: option.splits)

lemma peer_alias_None: "peer_alias cfg remote = None \<longleftrightarrow> remote \<notin> peer_id ` set (bt_values (cf_peers cfg))"
  by (force simp: peer_alias_def find_map_None bt_values_def)

lemma forward_trace:
  "dials (snd (snd (forward cs now attempts node name request))) \<le> 1"
  "submissions (snd (snd (forward cs now attempts node name request))) \<le> (if is_exec request then 1 else 2)"
proof -
  have "dials (snd (snd (forward cs now attempts node name request))) \<le> 1
    \<and> submissions (snd (snd (forward cs now attempts node name request))) \<le> (if is_exec request then 1 else 2)"
  proof (cases "config_peer (nd_config node) name")
    case (Ok p)
    show ?thesis
    proof (cases "nd_dialer node")
      case (Some d)
      obtain r d' tr where c: "call (to_json_request cs) (from_json_response cs) now attempts
          (peer_addr p) request d = (r, d', tr)" by (metis prod_cases3)
      show ?thesis
        using call_until_trace [OF c [unfolded call_def]] call_until_exec [OF _ c [unfolded call_def]]
        by (simp add: forward_def Ok Some c)
    qed (simp add: forward_def Ok)
  qed (simp add: forward_def)
  then show "dials (snd (snd (forward cs now attempts node name request))) \<le> 1"
    "submissions (snd (snd (forward cs now attempts node name request))) \<le> (if is_exec request then 1 else 2)"
    by simp_all
qed

text \<open>A stream whose request arrives gets one frame back, if it can be sent.\<close>

lemma serve_stream_answered:
  assumes "fst (read_frame (from_json_request cs) (ss_reader env)) = Ok request"
    and "\<not> ss_read_expired env" "ss_permit env"
    and "dispatch (ss_dispatch env) node request = (Some answer, work)"
    and "to_json_response cs (respond (source_text_of cs) answer) = Ok bytes" "length bytes \<le> MAX_FRAME"
    and "ss_writer env = open_writer" "\<not> ss_write_expired env" "ss_finish env = Ok ()"
  shows "serve_stream cs node env =
     \<lparr>sv_result = Some (Ok ()), sv_sent = frame_bytes bytes, sv_work = work\<rparr>"
  using assms
  by (simp add: serve_stream_def write_frame_open open_writer_def)

text \<open>A connection of a stranger is closed before any stream of it is read.\<close>

lemma serve_peer_configured:
  "serve_peer cs node remote streams =
     (if remote \<in> peer_id ` set (bt_values (cf_peers (nd_config node)))
      then (None, map (serve_stream cs node) streams) else (Some UNAUTHORIZED, []))"
  using peer_alias_None [of "nd_config node" remote]
  by (auto simp: serve_peer_def split: option.split)

section \<open>Properties\<close>


text \<open>The example node lists the peer \<open>k\<close>; a health request is one byte, its answer another.\<close>

definition sample_health :: response where
  "sample_health = HealthResponse \<lparr>h_endpoint_id = ''me'', h_status = ''ok'', h_version = VERSION\<rparr>"

definition sample_codecs :: codecs where
  "sample_codecs =
     \<lparr>to_json_request = (\<lambda>_. Ok [0]), from_json_request = (\<lambda>_. Ok Health),
      to_json_response = (\<lambda>_. Ok [1]), from_json_response = (\<lambda>_. Ok sample_health),
      source_text_of = (\<lambda>_. [])\<rparr>"

definition sample_stream :: "('f, 'c) dispatch_env \<Rightarrow> bool \<Rightarrow> ('f, 'c) stream_env" where
  "sample_stream de permit =
     \<lparr>ss_reader = reader_of (frame_bytes [0] @ []), ss_read_expired = False, ss_permit = permit,
      ss_dispatch = de, ss_writer = open_writer, ss_write_expired = False, ss_finish = Ok ()\<rparr>"

lemma sample_stream_request:
  "fst (read_frame (from_json_request sample_codecs) (ss_reader (sample_stream de permit))) = Ok Health"
  by (simp add: sample_stream_def sample_codecs_def reader_of_def
      read_frame_bytes [where bytes = "[0]" and rest = "[]"] MAX_FRAME_def)


text \<open>
  A peer request end to end: when a caller's frame reaches a server that lists it and has a
  permit, and the server's frame reaches the caller, the caller's exchange returns exactly the
  response of \<open>dispatch\<close> on the very request it sent, errors as an \<open>Error\<close> response. Both
  sides' serialisers are assumed to invert each other on this request and this reply.
\<close>

theorem rpc_end_to_end:
  assumes listed: "remote \<in> peer_id ` set (bt_values (cf_peers (nd_config node)))"
    and client: "at_writer cenv = open_writer" "at_finish cenv = Ok ()"
    and request: "serialises (to_json_request cs) (from_json_request cs) request q"
    and server: "ss_reader senv = reader_of (frame_bytes q @ rest)" "\<not> ss_read_expired senv"
      "ss_permit senv" "ss_writer senv = open_writer" "\<not> ss_write_expired senv" "ss_finish senv = Ok ()"
    and work: "dispatch (ss_dispatch senv) node request = (Some answer, work)"
    and reply: "serialises (to_json_response cs) (from_json_response cs)
      (respond (source_text_of cs) answer) a"
    and returned: "at_reader cenv = reader_of (sv_sent (hd (snd (serve_peer cs node remote [senv]))))"
  shows "rpc_frames (to_json_request cs) (from_json_response cs) cenv request
      = Ok (respond (source_text_of cs) answer)
    \<and> wr_sent (snd (write_frame (to_json_request cs) request (at_writer cenv))) = frame_bytes q
    \<and> sv_work (hd (snd (serve_peer cs node remote [senv]))) = work"
proof -
  have read: "fst (read_frame (from_json_request cs) (ss_reader senv)) = Ok request"
    using request server(1)
    by (simp add: serialises_def reader_of_def read_frame_bytes [where bytes = q and rest = rest])
  have served: "serve_stream cs node senv = \<lparr>sv_result = Some (Ok ()), sv_sent = frame_bytes a, sv_work = work\<rparr>"
    using serve_stream_answered [OF read server(2,3) work _ _ server(4-6)] reply
    by (simp add: serialises_def)
  have "serve_peer cs node remote [senv] = (None, [serve_stream cs node senv])"
    using listed peer_alias_None [of "nd_config node" remote]
    by (auto simp: serve_peer_def split: option.split)
  moreover from this have "at_reader cenv = reader_of (frame_bytes a @ [])"
    using returned served by simp
  ultimately show ?thesis
    using rpc_frames_answered [OF client, of "to_json_request cs" request q a "[]"] request reply served
    by (simp add: serialises_def client write_frame_open open_writer_def)
qed

theorem rpc_end_to_end_witness:
  "\<forall>de :: (nat, nat) dispatch_env.
     rpc_frames (to_json_request sample_codecs) (from_json_response sample_codecs)
       (sample_attempt\<lparr>at_reader := reader_of (sv_sent (hd (snd
          (serve_peer sample_codecs sample_node ''k'' [sample_stream de True]))))\<rparr>) Health = Ok sample_health"
proof
  fix de :: "(nat, nat) dispatch_env"
  have work: "dispatch (ss_dispatch (sample_stream de True)) sample_node Health = (Some (Ok sample_health), [])"
    by (simp add: sample_stream_def dispatch_def sample_node_def sample_health_def)
  have "rpc_frames (to_json_request sample_codecs) (from_json_response sample_codecs)
       (sample_attempt\<lparr>at_reader := reader_of (sv_sent (hd (snd
          (serve_peer sample_codecs sample_node ''k'' [sample_stream de True]))))\<rparr>) Health
     = Ok (respond (source_text_of sample_codecs) (Ok sample_health))"
    by (rule rpc_end_to_end [where q = "[0]" and a = "[1]" and rest = "[]", THEN conjunct1,
        OF _ _ _ _ _ _ _ _ _ _ work])
      (simp_all add: sample_attempt_def sample_stream_def sample_codecs_def serialises_def
        MAX_FRAME_def respond_def sample_node_def sample_config_def bt_values_def)
  then show "rpc_frames (to_json_request sample_codecs) (from_json_response sample_codecs)
       (sample_attempt\<lparr>at_reader := reader_of (sv_sent (hd (snd
          (serve_peer sample_codecs sample_node ''k'' [sample_stream de True]))))\<rparr>) Health = Ok sample_health"
    by (simp add: respond_def)
qed

end
