(* ===== verification/Identity.thy ===== *)
theory Identity
  imports Node_Config
begin

unbundle bit_operations_syntax

text \<open>
  The identity of a node (\<open>identity.rs\<close>) and \<open>config::init\<close>, which creates it together with
  the first configuration. The key type of the transport library is its 32 bytes; how a public
  id derives from it is the argument \<open>public\<close>.
\<close>

type_synonym secret_key = "u8 list"

text \<open>A file holding a key: its permission bits and its bytes.\<close>

record key_file =
  kf_mode :: u32
  kf_bytes :: "u8 list"

definition load_key :: "(key_file, io_error) result \<Rightarrow> (secret_key, node_error) result" where
  "load_key file =
     and_then (map_err NodeIo file) (\<lambda>f.
       if kf_mode f AND 63 \<noteq> 0 then Err (Invalid ''identity must be private (chmod 600)'')
       else if length (kf_bytes f) = 32 then Ok (kf_bytes f)
       else Err (Invalid ''invalid identity length; refusing to replace key''))"

text \<open>The lock file is opened, then locked without waiting.\<close>

definition lock_identity ::
  "(unit, io_error) result \<Rightarrow> (unit, string) result \<Rightarrow> (unit, node_error) result" where
  "lock_identity opened locked =
     and_then (map_err NodeIo opened) (\<lambda>_. map_err IdentityBusy locked)"

section \<open>Creating an identity and a configuration\<close>

text \<open>What exists before and after, and what the calls of \<open>init\<close> answer.\<close>

record init_disk =
  dk_dir :: bool
  dk_key :: "key_file option"
  dk_config :: "string option"

record init_env =
  ie_create_dir :: "(unit, io_error) result"
  ie_private_dir :: "(unit, io_error) result"
  ie_generated :: secret_key
  ie_key_write :: write_env
  ie_config_write :: write_env

text \<open>
  \<open>persist_noclobber\<close> is the only call that makes the file appear; a temporary file is
  private.
\<close>

definition persist_steps :: "write_env \<Rightarrow> (unit, io_error) result" where
  "persist_steps env =
     and_then (we_create env) (\<lambda>_. and_then (we_write env) (\<lambda>_. and_then (we_sync env) (\<lambda>_. we_persist env)))"

definition initialize :: "init_env \<Rightarrow> path \<Rightarrow> key_file option \<Rightarrow> (secret_key, node_error) result \<times> key_file option" where
  "initialize env key_path file =
     (if path_parent key_path = None then (Err (Invalid ''identity parent missing''), file)
      else case file of
        Some f \<Rightarrow> (load_key (Ok f), file)
      | None \<Rightarrow>
          (case persist_steps (ie_key_write env) of
             Err e \<Rightarrow> (Err (NodeIo e), None)
           | Ok _ \<Rightarrow> (Ok (ie_generated env), Some \<lparr>kf_mode = 384, kf_bytes = ie_generated env\<rparr>)))"

definition initial_config :: "path \<Rightarrow> (config, node_error) result" where
  "initial_config key_path =
     map_ok (\<lambda>name. \<lparr>cf_identity = Path False [name], cf_peers = bt_empty,
                     cf_probe = probe_config_default, cf_daemon = daemon_config_default\<rparr>)
       (ok_or (path_file_name key_path) (Invalid ''identity filename''))"

text \<open>The private directory of the configuration, created if it is missing.\<close>

definition prepare_dir :: "init_env \<Rightarrow> init_disk \<Rightarrow> (unit, node_error) result \<times> init_disk" where
  "prepare_dir env disk =
     (if dk_dir disk then (Ok (), disk)
      else case ie_create_dir env of
        Err e \<Rightarrow> (Err (NodeIo e), disk)
      | Ok _ \<Rightarrow> (map_err NodeIo (ie_private_dir env), disk\<lparr>dk_dir := True\<rparr>))"

text \<open>The text of the first configuration, if every call up to its persisting succeeds.\<close>

definition first_config ::
  "(config \<Rightarrow> (string, string) result) \<Rightarrow> write_env \<Rightarrow> path \<Rightarrow> (string, node_error) result" where
  "first_config to_toml env path =
     and_then (initial_config (ly_default_identity (layout_new path))) (\<lambda>cfg.
     and_then (map_err NodeIo (we_create env)) (\<lambda>_.
     and_then (map_err ConfigWrite (to_toml cfg)) (\<lambda>t.
     and_then (map_err NodeIo (we_write env)) (\<lambda>_.
     and_then (map_err NodeIo (we_sync env)) (\<lambda>_.
     and_then (map_err NodeIo (we_persist env)) (\<lambda>_. Ok t))))))"

definition init ::
  "(secret_key \<Rightarrow> endpoint_id) \<Rightarrow> (config \<Rightarrow> (string, string) result) \<Rightarrow> init_env \<Rightarrow> path \<Rightarrow> init_disk
   \<Rightarrow> (endpoint_id, node_error) result \<times> init_disk" where
  "init public to_toml env path disk =
     (if dk_config disk \<noteq> None
      then (Err (Invalid ''config already exists; refusing to overwrite''), disk)
      else case prepare_dir env disk of
        (Err e, disk1) \<Rightarrow> (Err e, disk1)
      | (Ok _, disk1) \<Rightarrow>
          (case initialize env (ly_default_identity (layout_new path)) (dk_key disk1) of
             (Err e, key_file) \<Rightarrow> (Err e, disk1\<lparr>dk_key := key_file\<rparr>)
           | (Ok key, key_file) \<Rightarrow>
               (case first_config to_toml (ie_config_write env) path of
                  Err e \<Rightarrow> (Err e, disk1\<lparr>dk_key := key_file\<rparr>)
                | Ok t \<Rightarrow>
                    (map_ok (\<lambda>_. public key) (map_err NodeIo (we_sync_dir (ie_config_write env))),
                     disk1\<lparr>dk_key := key_file, dk_config := Some t\<rparr>))))"

section \<open>Lemmas\<close>

definition good_key :: "key_file \<Rightarrow> bool" where
  "good_key f \<longleftrightarrow> kf_mode f AND 63 = 0 \<and> length (kf_bytes f) = 32"

lemma load_key_Ok_iff: "load_key file = Ok key \<longleftrightarrow> (\<exists>f. file = Ok f \<and> good_key f \<and> key = kf_bytes f)"
  by (cases "file") (auto simp: load_key_def good_key_def)

lemma initialize_cases:
  assumes "initialize env key_path file = (r, file')" "length (ie_generated env) = 32"
  shows "(\<forall>f. file = Some f \<longrightarrow> file' = Some f)
    \<and> (\<forall>key. r = Ok key \<longrightarrow> (\<exists>f. file' = Some f \<and> good_key f \<and> kf_bytes f = key))"
  using assms
  by (auto simp: initialize_def load_key_Ok_iff good_key_def split: option.splits result.splits if_splits)

lemma prepare_dir_keeps:
  assumes "prepare_dir env disk = (r, disk1)"
  shows "dk_key disk1 = dk_key disk" "dk_config disk1 = dk_config disk"
  using assms by (auto simp: prepare_dir_def split: if_splits result.splits)

text \<open>How far \<open>init\<close> came, and what it left.\<close>

lemma init_cases:
  assumes "init public to_toml env path disk = (r, disk')"
  obtains (taken) "dk_config disk \<noteq> None" "disk' = disk"
      "r = Err (Invalid ''config already exists; refusing to overwrite'')"
    | (stopped) e where "dk_config disk = None" "r = Err e" "dk_config disk' = None"
      "dk_key disk' = dk_key disk \<or> (\<exists>x. initialize env (ly_default_identity (layout_new path)) (dk_key disk) = (x, dk_key disk'))"
    | (written) key t where "dk_config disk = None" "initialize env (ly_default_identity (layout_new path)) (dk_key disk) = (Ok key, dk_key disk')"
      "dk_config disk' = Some t" "r = map_ok (\<lambda>_. public key) (map_err NodeIo (we_sync_dir (ie_config_write env)))"
proof (cases "dk_config disk")
  case (Some t)
  then show thesis using assms by (intro taken) (simp_all add: init_def)
next
  case None
  obtain p disk1 where p: "prepare_dir env disk = (p, disk1)" by fastforce
  note keeps = prepare_dir_keeps [OF p]
  show thesis
  proof (cases p)
    case (Err e)
    then show thesis using assms None p keeps by (intro stopped [of e]) (simp_all add: init_def)
  next
    case (Ok u)
    obtain k kf where k: "initialize env (ly_default_identity (layout_new path)) (dk_key disk1) = (k, kf)" by fastforce
    show thesis
    proof (cases k)
      case (Err e)
      then show thesis
        using assms None p Ok k keeps by (intro stopped [of e]) (auto simp: init_def)
    next
      case (Ok key)
      show thesis
      proof (cases "first_config to_toml (ie_config_write env) path")
        case (Err e)
        then show thesis
          using assms None p \<open>p = Ok u\<close> k Ok keeps by (intro stopped [of e]) (auto simp: init_def)
      next
        case (Ok t)
        then show thesis
          using assms None p \<open>p = Ok u\<close> k \<open>k = Ok key\<close> keeps
          by (intro written [of key t]) (auto simp: init_def)
      qed
    qed
  qed
qed

section \<open>Properties\<close>

text \<open>
  C28. \<open>init\<close> never overwrites anything: an existing configuration stays as it is and is refused,
  an existing key stays as it is whatever happens, and a configuration only appears together
  with a private 32-byte key, whose public id is the answer. Running \<open>init\<close> again after a
  failure therefore keeps the identity: every later run that succeeds answers the id of the
  key that is in place. A generated key is assumed to have 32 bytes.
\<close>

theorem init_never_overwrites:
  assumes "length (ie_generated env) = 32"
  shows "case init public to_toml env path disk of (r, disk') \<Rightarrow>
     (\<forall>t. dk_config disk = Some t \<longrightarrow> disk' = disk \<and> \<not> is_ok r)
     \<and> (\<forall>f. dk_key disk = Some f \<longrightarrow> dk_key disk' = Some f)
     \<and> (\<forall>id. r = Ok id \<longrightarrow> dk_config disk' \<noteq> None
          \<and> (\<exists>f. dk_key disk' = Some f \<and> good_key f \<and> id = public (kf_bytes f)))
     \<and> (dk_config disk = None \<and> dk_config disk' \<noteq> None \<longrightarrow> (\<exists>f. dk_key disk' = Some f \<and> good_key f))"
proof -
  obtain r disk' where i: "init public to_toml env path disk = (r, disk')" by fastforce
  from i show ?thesis
  proof (cases rule: init_cases)
    case taken
    then show ?thesis by (auto simp: i)
  next
    case (stopped e)
    then show ?thesis
      using initialize_cases [OF _ assms] by (auto simp: i)
  next
    case (written key t)
    from initialize_cases [OF written(2) assms] obtain f where
      f: "dk_key disk' = Some f" "good_key f" "kf_bytes f = key" by auto
    have "dk_key disk = Some g \<Longrightarrow> dk_key disk' = Some g" for g
      using initialize_cases [OF written(2) assms] by blast
    with written f show ?thesis by (auto simp: i result_simps)
  qed
qed

definition fresh_env :: write_env where
  "fresh_env = \<lparr>we_create = Ok (), we_write = Ok (), we_sync = Ok (), we_persist = Ok (), we_sync_dir = Ok ()\<rparr>"

theorem init_never_overwrites_witness:
  "\<exists>f. dk_key (snd (init (\<lambda>_. ''id'') (\<lambda>_. Ok ''text'')
          \<lparr>ie_create_dir = Ok (), ie_private_dir = Ok (), ie_generated = replicate 32 7,
           ie_key_write = fresh_env, ie_config_write = fresh_env\<rparr> sample_path
          \<lparr>dk_dir = False, dk_key = None, dk_config = None\<rparr>)) = Some f \<and> good_key f"
proof -
  let ?i = "init (\<lambda>_. ''id'') (\<lambda>_. Ok ''text'')
          \<lparr>ie_create_dir = Ok (), ie_private_dir = Ok (), ie_generated = replicate 32 7,
           ie_key_write = fresh_env, ie_config_write = fresh_env\<rparr> sample_path
          \<lparr>dk_dir = False, dk_key = None, dk_config = None\<rparr>"
  have "fst ?i = Ok ''id''"
    by (simp add: init_def prepare_dir_def initialize_def persist_steps_def first_config_def
        initial_config_def fresh_env_def sample_path_def layout_new_def with_extension_def
        path_file_name_def path_parent_def)
  moreover obtain r disk' where i: "?i = (r, disk')" by fastforce
  ultimately show ?thesis
    using init_never_overwrites [where env = "\<lparr>ie_create_dir = Ok (), ie_private_dir = Ok (),
           ie_generated = replicate 32 7, ie_key_write = fresh_env, ie_config_write = fresh_env\<rparr>"
        and public = "\<lambda>_. ''id''" and to_toml = "\<lambda>_. Ok ''text''" and path = sample_path
        and disk = "\<lparr>dk_dir = False, dk_key = None, dk_config = None\<rparr>"]
    by (simp add: i)
qed

end
