(* ===== verification/Client.thy ===== *)
theory Client
  imports Server Identity
begin

text \<open>
  The command's side (\<open>client.rs\<close>): whether a request runs in this process, through the daemon
  or over a temporary endpoint. An outcome says, besides the answer, how often the request was
  handed to a daemon, what the calls to peers did, and what was run here.
\<close>

datatype client_route = InProcess | DaemonOrInProcess | DaemonOrEndpoint | DaemonOnly

fun route :: "string option \<Rightarrow> request \<Rightarrow> client_route" where
  "route (Some target) request = DaemonOrEndpoint"
| "route None (History kind about limit) = DaemonOnly"
| "route None (Probe Peers) = DaemonOrEndpoint"
| "route None (Probe kind) = DaemonOrInProcess"
| "route None request = InProcess"

record 'c outcome =
  oc_result :: "(response, node_error) result option"
  oc_via :: nat
  oc_trace :: "'c event list"
  oc_work :: "work_done list"

definition failed_outcome :: "node_error \<Rightarrow> 'c outcome" where
  "failed_outcome e = \<lparr>oc_result = Some (Err e), oc_via = 0, oc_trace = [], oc_work = []\<rparr>"

text \<open>What the system answers a command.\<close>

record ('f, 'c) client_env =
  ce_connect :: "(unit, io_error) result"
  ce_expired :: bool
  ce_to_json_local :: "local_request serialiser"
  ce_writer :: writer
  ce_reader :: reader
  ce_key :: "(key_file, io_error) result"
  ce_public :: "secret_key \<Rightarrow> endpoint_id"
  ce_lock_opened :: "(unit, io_error) result"
  ce_locked :: "(unit, string) result"
  ce_endpoint :: endpoint_lib
  ce_now :: instant
  ce_attempts :: "'c attempt \<times> 'c attempt"
  ce_dispatch :: "('f, 'c) dispatch_env"

section \<open>The three ways\<close>

definition run_dispatch :: "('f, 'c) dispatch_env \<Rightarrow> 'c node \<Rightarrow> request \<Rightarrow> 'c outcome" where
  "run_dispatch env node request =
     (case dispatch env node request of
        (r, work) \<Rightarrow> \<lparr>oc_result = r, oc_via = 0, oc_trace = [], oc_work = work\<rparr>)"

definition in_process :: "('f, 'c) client_env \<Rightarrow> config \<Rightarrow> request \<Rightarrow> 'c outcome" where
  "in_process env cfg request =
     (case load_key (ce_key env) of
        Err e \<Rightarrow> failed_outcome e
      | Ok key \<Rightarrow>
          run_dispatch (ce_dispatch env)
            \<lparr>nd_config = cfg, nd_id = ce_public env key, nd_dialer = None, nd_sampler = None\<rparr> request)"

text \<open>
  \<open>None\<close>: no daemon is listening, or none could. Once the socket is connected the request is
  handed over, and any failure after that leaves an exec's outcome unknown.
\<close>

definition via_daemon ::
  "codecs \<Rightarrow> ('f, 'c) client_env \<Rightarrow> layout \<Rightarrow> string option \<Rightarrow> request
   \<Rightarrow> (response option, node_error) result \<times> nat" where
  "via_daemon cs env layout target request =
     (if \<not> socket_fits layout then (Ok None, 0)
      else case ce_connect env of
        Err e \<Rightarrow>
          if io_kind e = NotFound \<or> io_kind e = ConnectionRefused then (Ok None, 0)
          else (Err (NodeIo e), 0)
      | Ok _ \<Rightarrow>
          (map_ok Some (unknown_if_exec request
             (within (if ce_expired env then Elapsed
                else Completed
                  (and_then (map_err ProtocolError (fst (write_frame (ce_to_json_local env)
                        \<lparr>lr_target = target, lr_request = request\<rparr> (ce_writer env))))
                     (\<lambda>_. map_err ProtocolError (fst (read_frame (from_json_response cs) (ce_reader env)))))))),
           1))"

definition with_endpoint ::
  "codecs \<Rightarrow> ('f, 'c) client_env \<Rightarrow> config \<Rightarrow> string option \<Rightarrow> request \<Rightarrow> 'c outcome" where
  "with_endpoint cs env cfg target request =
     (case and_then (case target of None \<Rightarrow> Ok None | Some name \<Rightarrow> map_ok Some (config_peer cfg name))
             (\<lambda>p. and_then (lock_identity (ce_lock_opened env) (ce_locked env))
             (\<lambda>_. and_then (load_key (ce_key env))
             (\<lambda>key. and_then (endpoint (ce_endpoint env) key None) (\<lambda>_. Ok (p, key))))) of
        Err e \<Rightarrow> failed_outcome e
      | Ok (p, key) \<Rightarrow>
          let d = dialer_new (map peer_id (bt_values (cf_peers cfg)))
          in case p of
               Some peer \<Rightarrow>
                 (case call (to_json_request cs) (from_json_response cs) (ce_now env) (ce_attempts env)
                         (peer_addr peer) request d of
                    (r, d', tr) \<Rightarrow> \<lparr>oc_result = Some r, oc_via = 0, oc_trace = tr, oc_work = []\<rparr>)
             | None \<Rightarrow>
                 run_dispatch (ce_dispatch env)
                   \<lparr>nd_config = cfg, nd_id = ce_public env key, nd_dialer = Some d, nd_sampler = None\<rparr>
                   request)"

section \<open>One command\<close>

definition target_of :: "string option \<Rightarrow> string option" where
  "target_of target = (if target = Some ''self'' then None else target)"

definition invoke ::
  "codecs \<Rightarrow> (string \<Rightarrow> (config, string) result) \<Rightarrow> files \<Rightarrow> ('f, 'c) client_env \<Rightarrow> path
   \<Rightarrow> string option \<Rightarrow> request \<Rightarrow> 'c outcome" where
  "invoke cs from_toml files env path target0 request =
     (case read_config from_toml files path of
        Err e \<Rightarrow> failed_outcome e
      | Ok cfg \<Rightarrow>
          let target = target_of target0
          in if route target request = InProcess then in_process env cfg request
             else case via_daemon cs env (layout_new path) target request of
               (Err e, n) \<Rightarrow> (failed_outcome e)\<lparr>oc_via := n\<rparr>
             | (Ok (Some response), n) \<Rightarrow> \<lparr>oc_result = Some (Ok response), oc_via = n, oc_trace = [], oc_work = []\<rparr>
             | (Ok None, n) \<Rightarrow>
                 (case route target request of
                    DaemonOnly \<Rightarrow> failed_outcome (Invalid ''history requires a running daemon'')
                  | DaemonOrInProcess \<Rightarrow> in_process env cfg request
                  | InProcess \<Rightarrow> in_process env cfg request
                  | DaemonOrEndpoint \<Rightarrow> with_endpoint cs env cfg target request))"

section \<open>Lemmas\<close>

text \<open>How often a request left this process or was started in it.\<close>

definition handed_over :: "'c outcome \<Rightarrow> nat" where
  "handed_over out = oc_via out + submissions (oc_trace out) + spawns (oc_work out)"

lemma failed_outcome_simps [simp]:
  "oc_result (failed_outcome e) = Some (Err e)" "oc_via (failed_outcome e) = 0"
  "oc_trace (failed_outcome e) = []" "oc_work (failed_outcome e) = []"
  "handed_over (failed_outcome e) = 0"
  by (simp_all add: failed_outcome_def handed_over_def)

lemma run_dispatch_handed:
  "handed_over (run_dispatch env node request) \<le> (if is_exec request then 1 else 0)"
  "oc_via (run_dispatch env node request) = 0" "oc_trace (run_dispatch env node request) = []"
  using dispatch_spawns [of env node request]
  by (simp_all add: run_dispatch_def handed_over_def split_def)

lemma in_process_cases:
  obtains (unreadable) e where "in_process env cfg request = failed_outcome e"
    | (ran) node where "in_process env cfg request = run_dispatch (ce_dispatch env) node request"
  by (cases "load_key (ce_key env)") (auto simp: in_process_def)

lemma in_process_handed:
  "handed_over (in_process env cfg request) \<le> (if is_exec request then 1 else 0)
   \<and> oc_via (in_process env cfg request) = 0 \<and> oc_trace (in_process env cfg request) = []"
  by (cases rule: in_process_cases [of env cfg request]) (simp_all add: run_dispatch_handed del: One_nat_def)

lemma via_daemon_cases:
  assumes "via_daemon cs env layout target request = (r, n)"
  shows "(r = Ok None \<longrightarrow> n = 0) \<and> n \<le> 1
    \<and> (is_exec request \<longrightarrow> (\<forall>e. r = Err e \<longrightarrow> n = 1 \<longrightarrow> outcome_unknown e))
    \<and> (\<forall>x. r = Ok (Some x) \<longrightarrow> n = 1)
    \<and> (\<forall>e. r = Err e \<longrightarrow> n = 0 \<longrightarrow> \<not> outcome_unknown e)"
  using assms
  by (cases "ce_connect env")
    (auto simp: via_daemon_def unknown_if_exec_def result_simps split: if_splits)

lemma with_endpoint_cases:
  obtains (refused) e where "with_endpoint cs env cfg target request = failed_outcome e"
      "\<not> outcome_unknown e"
    | (called) name p r d' tr where "target = Some name" "config_peer cfg name = Ok p"
      "ce_locked env = Ok ()"
      "call (to_json_request cs) (from_json_response cs) (ce_now env) (ce_attempts env) (peer_addr p)
         request (dialer_new (map peer_id (bt_values (cf_peers cfg)))) = (r, d', tr)"
      "with_endpoint cs env cfg target request =
         \<lparr>oc_result = Some r, oc_via = 0, oc_trace = tr, oc_work = []\<rparr>"
    | (ran) node where "target = None" "with_endpoint cs env cfg target request =
         run_dispatch (ce_dispatch env) node request"
proof (cases "and_then (case target of None \<Rightarrow> Ok None | Some name \<Rightarrow> map_ok Some (config_peer cfg name))
    (\<lambda>p. and_then (lock_identity (ce_lock_opened env) (ce_locked env))
    (\<lambda>_. and_then (load_key (ce_key env))
    (\<lambda>key. and_then (endpoint (ce_endpoint env) key None) (\<lambda>_. Ok (p, key)))))")
  case (Err e)
  then have "\<not> outcome_unknown e"
    by (auto simp: result_simps lock_identity_def load_key_def config_peer_def transport_def
        dest: endpoint_known split: option.splits if_splits)
  with Err show thesis by (intro refused [of e]) (simp_all add: with_endpoint_def)
next
  case (Ok pk)
  obtain p key where pk: "pk = (p, key)" by fastforce
  show thesis
  proof (cases p)
    case None
    with Ok pk have "target = None" by (auto simp: result_simps split: option.splits)
    with Ok pk None show thesis
      by (intro ran) (simp_all add: with_endpoint_def Let_def)
  next
    case (Some q)
    with Ok pk obtain name where name: "target = Some name" "config_peer cfg name = Ok q"
      "ce_locked env = Ok ()"
      by (auto simp: result_simps lock_identity_def split: option.splits)
    obtain r d' tr where c: "call (to_json_request cs) (from_json_response cs) (ce_now env)
        (ce_attempts env) (peer_addr q) request (dialer_new (map peer_id (bt_values (cf_peers cfg)))) = (r, d', tr)"
      by (metis prod_cases3)
    have "with_endpoint cs env cfg target request =
        \<lparr>oc_result = Some r, oc_via = 0, oc_trace = tr, oc_work = []\<rparr>"
      using Ok pk Some c by (simp add: with_endpoint_def Let_def)
    with name c show thesis by (rule called)
  qed
qed

lemma with_endpoint_exec:
  assumes "is_exec request"
  shows "handed_over (with_endpoint cs env cfg target request) \<le> 1
    \<and> (target \<noteq> None \<longrightarrow> (\<exists>r. oc_result (with_endpoint cs env cfg target request) = Some r
         \<and> oc_work (with_endpoint cs env cfg target request) = []
         \<and> (handed_over (with_endpoint cs env cfg target request) = 0
              \<longleftrightarrow> (\<exists>e. r = Err e \<and> \<not> outcome_unknown e))))"
proof (cases rule: with_endpoint_cases [of cs env cfg target request])
  case (refused e)
  then show ?thesis by simp
next
  case (called name p r d' tr)
  from call_until_exec [OF assms called(4) [unfolded call_def]] show ?thesis
    by (simp add: called(5) handed_over_def)
next
  case (ran node)
  then show ?thesis using run_dispatch_handed(1) [of "ce_dispatch env" node request] assms by simp
qed

text \<open>The stages of a command, told apart by what the daemon's socket answered.\<close>

lemma invoke_cases:
  obtains (unreadable) e where "read_config from_toml files path = Err e"
      "invoke cs from_toml files env path target0 request = failed_outcome e"
    | (here) cfg where "read_config from_toml files path = Ok cfg"
      "route (target_of target0) request \<in> {InProcess, DaemonOrInProcess}"
      "invoke cs from_toml files env path target0 request = in_process env cfg request"
    | (broken) cfg e n where "read_config from_toml files path = Ok cfg"
      "route (target_of target0) request \<noteq> InProcess"
      "via_daemon cs env (layout_new path) (target_of target0) request = (Err e, n)"
      "invoke cs from_toml files env path target0 request = (failed_outcome e)\<lparr>oc_via := n\<rparr>"
    | (answered) cfg x n where "read_config from_toml files path = Ok cfg"
      "route (target_of target0) request \<noteq> InProcess"
      "via_daemon cs env (layout_new path) (target_of target0) request = (Ok (Some x), n)"
      "invoke cs from_toml files env path target0 request =
         \<lparr>oc_result = Some (Ok x), oc_via = n, oc_trace = [], oc_work = []\<rparr>"
    | (daemonless) "route (target_of target0) request = DaemonOnly"
      "invoke cs from_toml files env path target0 request =
         failed_outcome (Invalid ''history requires a running daemon'')"
    | (direct) cfg where "read_config from_toml files path = Ok cfg"
      "route (target_of target0) request = DaemonOrEndpoint"
      "fst (via_daemon cs env (layout_new path) (target_of target0) request) = Ok None"
      "invoke cs from_toml files env path target0 request =
         with_endpoint cs env cfg (target_of target0) request"
proof (cases "read_config from_toml files path")
  case (Err e)
  then show thesis by (intro unreadable [of e]) (simp_all add: invoke_def)
next
  case (Ok cfg)
  obtain v n where v: "via_daemon cs env (layout_new path) (target_of target0) request = (v, n)" by fastforce
  show thesis
  proof (cases "route (target_of target0) request = InProcess")
    case True
    with Ok show thesis by (intro here [of cfg]) (simp_all add: invoke_def Let_def)
  next
    case False
    show thesis
    proof (cases v)
      case (Err e)
      with False v \<open>read_config from_toml files path = Ok cfg\<close> show thesis
        by (intro broken [of cfg e n]) (simp_all add: invoke_def Let_def)
    next
      case (Ok w)
      show thesis
      proof (cases w)
        case (Some x)
        with False v Ok \<open>read_config from_toml files path = Ok cfg\<close> show thesis
          by (intro answered [of cfg x n]) (simp_all add: invoke_def Let_def)
      next
        case None
        note facts = False v Ok None \<open>read_config from_toml files path = Ok cfg\<close>
        show thesis
        proof (cases "route (target_of target0) request")
          case DaemonOrInProcess
          with facts show thesis by (intro here [of cfg]) (simp_all add: invoke_def Let_def)
        next
          case DaemonOrEndpoint
          with facts show thesis by (intro direct [of cfg]) (simp_all add: invoke_def Let_def)
        next
          case DaemonOnly
          with facts show thesis by (intro daemonless) (simp_all add: invoke_def Let_def)
        qed (use False in simp)
      qed
    qed
  qed
qed

lemma read_config_known: "read_config from_toml files path = Err e \<Longrightarrow> \<not> outcome_unknown e"
  by (auto simp: read_config_def result_simps dest: validate_error_invalid)

lemma invoke_exec:
  assumes "is_exec request"
  shows "handed_over (invoke cs from_toml files env path target0 request) \<le> 1"
proof (cases rule: invoke_cases [of from_toml files path cs env target0 request])
  case (here cfg)
  then show ?thesis using in_process_handed [of env cfg request] assms by simp
next
  case (broken cfg e n)
  then show ?thesis using via_daemon_cases [OF broken(3)] by (simp add: handed_over_def)
next
  case (answered cfg x n)
  then show ?thesis using via_daemon_cases [OF answered(3)] by (simp add: handed_over_def)
next
  case (direct cfg)
  then show ?thesis using with_endpoint_exec [OF assms, of cs env cfg "target_of target0"] by simp
qed simp_all

lemma invoke_exec_remote:
  assumes "is_exec request" "target_of target0 = Some name"
  shows "\<exists>r. oc_result (invoke cs from_toml files env path target0 request) = Some r
    \<and> oc_work (invoke cs from_toml files env path target0 request) = []
    \<and> (handed_over (invoke cs from_toml files env path target0 request) = 0
         \<longleftrightarrow> (\<exists>e. r = Err e \<and> \<not> outcome_unknown e))"
proof (cases rule: invoke_cases [of from_toml files path cs env target0 request])
  case (unreadable e)
  then show ?thesis using read_config_known by simp
next
  case (broken cfg e n)
  then show ?thesis
    using via_daemon_cases [OF broken(3)] assms(1) by (auto simp: handed_over_def le_Suc_eq)
next
  case (answered cfg x n)
  then show ?thesis using via_daemon_cases [OF answered(3)] by (simp add: handed_over_def)
next
  case (direct cfg)
  then show ?thesis
    using with_endpoint_exec [OF assms(1), of cs env cfg "target_of target0"] assms(2) by simp
qed (use assms in \<open>auto split: if_splits\<close>)

text \<open>The command is another caller that keeps the promise of an exec error.\<close>

definition remote_attempt ::
  "codecs \<Rightarrow> (string \<Rightarrow> (config, string) result) \<Rightarrow> path \<Rightarrow> string
   \<Rightarrow> (files \<times> ('f, 'c) client_env, unit) attempts" where
  "remote_attempt cs from_toml path name env request s =
     (if target_of (Some name) = None then (Err (Invalid ''not a peer''), s, 0)
      else let out = invoke cs from_toml (fst env) (snd env) path (Some name) request
           in (the (oc_result out), s, handed_over out))"

interpretation command: exec_caller "remote_attempt cs from_toml path name"
  for cs from_toml path name
proof
  fix q env s r s' n
  assume "is_exec q" "remote_attempt cs from_toml path name env q s = (r, s', n)"
  then show "n \<le> 1"
    using invoke_exec [of q cs from_toml "fst env" "snd env" path "Some name"]
    by (auto simp: remote_attempt_def Let_def split: if_splits)
next
  fix q env s e s' n
  assume q: "is_exec q" and a: "remote_attempt cs from_toml path name env q s = (Err e, s', n)"
    and e: "\<not> outcome_unknown e"
  show "n = 0"
  proof (cases "target_of (Some name)")
    case None
    then show ?thesis using a by (simp add: remote_attempt_def)
  next
    case (Some t)
    from invoke_exec_remote [OF q Some, of cs from_toml "fst env" "snd env" path] a e Some show ?thesis
      by (auto simp: remote_attempt_def Let_def)
  qed
qed

section \<open>Properties\<close>

text \<open>
  C2. One command hands an exec over at most once in total: to a daemon, to a peer or to a
  process of its own. An exec on this node uses neither the daemon nor the network; an exec on
  a peer is never run here, always gets an answer, and was not handed to anyone exactly if
  that answer is an error other than \<open>OutcomeUnknown\<close>.
\<close>

theorem command_runs_exec_at_most_once:
  assumes "is_exec request"
  shows "(let out = invoke cs from_toml files env path target request in
     handed_over out \<le> 1
     \<and> (case target_of target of
          None \<Rightarrow> oc_via out = 0 \<and> oc_trace out = []
        | Some name \<Rightarrow> oc_work out = [] \<and> (\<exists>r. oc_result out = Some r
            \<and> (handed_over out = 0 \<longleftrightarrow> (\<exists>e. r = Err e \<and> \<not> outcome_unknown e)))))"
proof -
  have "route None request = InProcess" using assms by (cases request) simp_all
  then have "target_of target = None \<Longrightarrow>
      oc_via (invoke cs from_toml files env path target request) = 0
      \<and> oc_trace (invoke cs from_toml files env path target request) = []"
    using in_process_handed [of env _ request] by (simp add: invoke_def Let_def split: result.split)
  then show ?thesis
    using invoke_exec [OF assms, of cs from_toml files env path target]
      invoke_exec_remote [OF assms, of target _ cs from_toml files env path]
    by (auto simp: Let_def split: option.split)
qed

theorem command_runs_exec_at_most_once_witness:
  "\<forall>env :: (nat, nat) client_env.
     handed_over (invoke sample_codecs (\<lambda>_. Ok sample_config) (\<lambda>_. Ok []) env sample_path (Some ''vps'') sample_exec) \<le> 1
     \<and> oc_work (invoke sample_codecs (\<lambda>_. Ok sample_config) (\<lambda>_. Ok []) env sample_path (Some ''vps'') sample_exec) = []"
proof
  fix env :: "(nat, nat) client_env"
  have "is_exec sample_exec" by (simp add: sample_exec_def)
  from command_runs_exec_at_most_once [OF this, of sample_codecs "\<lambda>_. Ok sample_config" "\<lambda>_. Ok []"
      env sample_path "Some ''vps''"]
  show "handed_over (invoke sample_codecs (\<lambda>_. Ok sample_config) (\<lambda>_. Ok []) env sample_path (Some ''vps'') sample_exec) \<le> 1
     \<and> oc_work (invoke sample_codecs (\<lambda>_. Ok sample_config) (\<lambda>_. Ok []) env sample_path (Some ''vps'') sample_exec) = []"
    by (simp add: target_of_def Let_def)
qed

text \<open>
  Repeating a remote exec for as long as its error is not \<open>OutcomeUnknown\<close> never has it run
  twice, over any number of commands, with or without a daemon, and whatever the daemon, the
  files and the network do in between; if every attempt was refused it was never handed over.
\<close>

theorem refused_commands_can_be_repeated:
  assumes "is_exec request"
  shows "case repeat_while_safe (remote_attempt cs from_toml path name) envs request () of
    (r, s, n) \<Rightarrow> n \<le> 1 \<and> (r = None \<longrightarrow> n = 0)"
  using command.repeat_at_most_once [OF assms, of cs from_toml path name envs "()"]
    command.never_handed_over [OF assms, of cs from_toml path name envs "()"]
  by (auto split: prod.splits)

theorem refused_commands_can_be_repeated_witness:
  "\<forall>env1 env2 :: files \<times> (nat, nat) client_env.
     case repeat_while_safe (remote_attempt sample_codecs (\<lambda>_. Ok sample_config) sample_path ''vps'')
       [env1, env2] sample_exec () of (r, s, n) \<Rightarrow> n \<le> 1 \<and> (r = None \<longrightarrow> n = 0)"
  by (intro allI refused_commands_can_be_repeated) (simp add: sample_exec_def)


text \<open>In the example no daemon listens, and the health of the peer \<open>vps\<close> is asked for directly.\<close>

definition daemonless_env :: "(nat, nat) client_env \<Rightarrow> (nat, nat) client_env" where
  "daemonless_env env = env\<lparr>ce_connect := Err (plain_io NotFound),
     ce_key := Ok \<lparr>kf_mode = 384, kf_bytes = replicate 32 7\<rparr>, ce_lock_opened := Ok (),
     ce_locked := Ok (), ce_endpoint := willing_lib, ce_now := 0, ce_attempts := (sample_attempt, sample_attempt)\<rparr>"

lemma daemonless_dials:
  "0 < submissions (oc_trace (invoke sample_codecs (\<lambda>_. Ok sample_config) (\<lambda>_. Ok []) (daemonless_env env)
          sample_path (Some ''vps'') Health))
     + dials (oc_trace (invoke sample_codecs (\<lambda>_. Ok sample_config) (\<lambda>_. Ok []) (daemonless_env env)
          sample_path (Some ''vps'') Health))"
proof -
  have "read_config (\<lambda>_. Ok sample_config) (\<lambda>_. Ok []) sample_path = Ok sample_config"
    using sample_config_valid by (simp add: read_config_def sample_config_def)
  moreover have "via_daemon cs (daemonless_env env) layout target request = (Ok None, 0)"
    for cs layout target request
    by (simp add: via_daemon_def daemonless_env_def plain_io_def)
  moreover have "load_key (ce_key (daemonless_env env)) = Ok (replicate 32 7)"
    by (simp add: daemonless_env_def load_key_def)
  moreover have "config_peer sample_config ''vps'' = Ok \<lparr>peer_id = ''k'', peer_addrs = []\<rparr>"
    by (simp add: config_peer_def sample_config_def bt_get_def)
  ultimately show ?thesis
    by (simp add: invoke_def target_of_def Let_def with_endpoint_def lock_identity_def split_def)
      (simp add: daemonless_env_def call_def call_until_def connection_def sample_attempt_def
        timeout_defs peer_addr_def dialer_new_def sample_config_def bt_values_def wait_event_def
        split: result.split prod.split)
qed


end
