(* ===== verification/Daemon.thy ===== *)
theory Daemon
  imports Server Identity
begin

text \<open>
  The daemon (\<open>daemon.rs\<close>): taking over its socket, and admission. Admission keeps four counts
  of free slots and permits, as the code's semaphores do, beside the tasks that hold them; a
  task releases what it holds when it ends, and a permit as soon as its request has run. Every
  incoming connection, stream and local connection is one step, in any order.
\<close>

section \<open>The socket\<close>

record socket_env =
  se_parent_mode :: "(u32, io_error) result"
  se_is_socket :: "(bool, io_error) result"
  se_connect :: "(unit, io_error) result"
  se_remove :: "(unit, io_error) result"
  se_bind :: "(unit, io_error) result"
  se_private :: "(unit, io_error) result"

datatype socket_effect = RemovedStale | Bound | MadePrivate | GuardRemoved

text \<open>
  Whether an entry at the socket path may be replaced; the answer is the effects of doing so.
\<close>

definition clear_stale :: "socket_env \<Rightarrow> (socket_effect list, node_error) result" where
  "clear_stale env =
     (case se_is_socket env of
        Ok is_socket \<Rightarrow>
          if \<not> is_socket then Err (Invalid ''refusing to remove non-socket at socket path'')
          else (case se_connect env of
                  Ok _ \<Rightarrow> Err (Invalid ''daemon socket is already in use'')
                | Err e \<Rightarrow>
                    if io_kind e = ConnectionRefused
                    then map_ok (\<lambda>_. [RemovedStale]) (map_err NodeIo (se_remove env))
                    else Err (NodeIo e))
      | Err e \<Rightarrow> if io_kind e = NotFound then Ok [] else Err (NodeIo e))"

definition bind_socket ::
  "socket_env \<Rightarrow> layout \<Rightarrow> (unit, node_error) result \<times> socket_effect list" where
  "bind_socket env layout =
     (if \<not> socket_fits layout
      then (Err (Invalid (''socket path '' @ path_text (ly_socket layout)
              @ '' is longer than 107 bytes; use a shorter config path'')), [])
      else if path_parent (ly_socket layout) = None
      then (Err (Invalid ''socket parent missing''), [])
      else case se_parent_mode env of
        Err e \<Rightarrow> (Err (NodeIo e), [])
      | Ok mode \<Rightarrow>
          if mode AND 63 \<noteq> 0
          then (Err (Invalid ''daemon config directory must be private (chmod 700)''), [])
          else case clear_stale env of
            Err e \<Rightarrow> (Err e, [])
          | Ok cleared \<Rightarrow>
              (case se_bind env of
                 Err e \<Rightarrow> (Err (NodeIo e), cleared)
               | Ok _ \<Rightarrow>
                   (case se_private env of
                      Err e \<Rightarrow> (Err (NodeIo e), cleared @ [Bound, GuardRemoved])
                    | Ok _ \<Rightarrow> (Ok (), cleared @ [Bound, MadePrivate]))))"

section \<open>Admission\<close>

definition MAX_CONNECTIONS :: usize where
  "MAX_CONNECTIONS = 64"

datatype connection_task = Handshaking | Serving | ConnectionEnded
datatype request_task = Receiving | Running | Replying | RequestEnded

text \<open>
  \<open>ad_conns\<close>: incoming connections; \<open>ad_streams\<close>: their streams, with the connection they are
  on; \<open>ad_locals\<close>: local connections. The other counts are what is free.
\<close>

record admission =
  ad_connection_slots :: nat
  ad_local_slots :: nat
  ad_peer_permits :: nat
  ad_local_permits :: nat
  ad_conns :: "connection_task list"
  ad_streams :: "(nat \<times> request_task) list"
  ad_locals :: "request_task list"

definition admission_new :: "daemon_config \<Rightarrow> admission" where
  "admission_new settings =
     \<lparr>ad_connection_slots = MAX_CONNECTIONS, ad_local_slots = 2 * dc_max_concurrent settings,
      ad_peer_permits = dc_max_concurrent settings, ad_local_permits = dc_max_concurrent settings,
      ad_conns = [], ad_streams = [], ad_locals = []\<rparr>"

text \<open>\<open>try_acquire\<close>: one less if any is free.\<close>

fun try_acquire :: "nat \<Rightarrow> nat option" where
  "try_acquire 0 = None"
| "try_acquire (Suc n) = Some n"

definition accept_connection :: "admission \<Rightarrow> admission" where
  "accept_connection a =
     (case try_acquire (ad_connection_slots a) of
        None \<Rightarrow> a
      | Some n \<Rightarrow> a\<lparr>ad_connection_slots := n, ad_conns := ad_conns a @ [Handshaking]\<rparr>)"

definition end_connection :: "nat \<Rightarrow> admission \<Rightarrow> admission" where
  "end_connection i a =
     a\<lparr>ad_connection_slots := Suc (ad_connection_slots a), ad_conns := (ad_conns a)[i := ConnectionEnded]\<rparr>"

definition set_stream :: "nat \<Rightarrow> request_task \<Rightarrow> admission \<Rightarrow> admission" where
  "set_stream j t a = a\<lparr>ad_streams := (ad_streams a)[j := (fst (ad_streams a ! j), t)]\<rparr>"

definition peer_request :: "nat \<Rightarrow> admission \<Rightarrow> admission" where
  "peer_request j a =
     (case try_acquire (ad_peer_permits a) of
        None \<Rightarrow> set_stream j Replying a
      | Some n \<Rightarrow> set_stream j Running (a\<lparr>ad_peer_permits := n\<rparr>))"

definition peer_request_done :: "nat \<Rightarrow> admission \<Rightarrow> admission" where
  "peer_request_done j a = set_stream j Replying (a\<lparr>ad_peer_permits := Suc (ad_peer_permits a)\<rparr>)"

definition accept_local :: "admission \<Rightarrow> admission" where
  "accept_local a =
     (case try_acquire (ad_local_slots a) of
        None \<Rightarrow> a
      | Some n \<Rightarrow> a\<lparr>ad_local_slots := n, ad_locals := ad_locals a @ [Receiving]\<rparr>)"

definition set_local :: "nat \<Rightarrow> request_task \<Rightarrow> admission \<Rightarrow> admission" where
  "set_local i t a = a\<lparr>ad_locals := (ad_locals a)[i := t]\<rparr>"

definition admit_local_request :: "nat \<Rightarrow> admission \<Rightarrow> admission" where
  "admit_local_request i a =
     (case try_acquire (ad_local_permits a) of
        None \<Rightarrow> set_local i Replying a
      | Some n \<Rightarrow> set_local i Running (a\<lparr>ad_local_permits := n\<rparr>))"

definition local_request_done :: "nat \<Rightarrow> admission \<Rightarrow> admission" where
  "local_request_done i a = set_local i Replying (a\<lparr>ad_local_permits := Suc (ad_local_permits a)\<rparr>)"

text \<open>The task of a local connection ends, and its slot is free again.\<close>

definition end_local :: "nat \<Rightarrow> admission \<Rightarrow> admission" where
  "end_local i a = set_local i RequestEnded (a\<lparr>ad_local_slots := Suc (ad_local_slots a)\<rparr>)"

text \<open>Who causes a step: peers and strangers over the network, or the local socket.\<close>

inductive peer_step :: "admission \<Rightarrow> admission \<Rightarrow> bool" where
  incoming: "peer_step a (accept_connection a)"
| handshaken: "i < length (ad_conns a) \<Longrightarrow> ad_conns a ! i = Handshaking \<Longrightarrow>
    peer_step a (a\<lparr>ad_conns := (ad_conns a)[i := Serving]\<rparr>)"
| handshake_fails: "i < length (ad_conns a) \<Longrightarrow> ad_conns a ! i = Handshaking \<Longrightarrow>
    peer_step a (end_connection i a)"
| closes: "i < length (ad_conns a) \<Longrightarrow> ad_conns a ! i = Serving \<Longrightarrow>
    \<forall>(c, t) \<in> set (ad_streams a). c = i \<longrightarrow> t = RequestEnded \<Longrightarrow> peer_step a (end_connection i a)"
| opens: "i < length (ad_conns a) \<Longrightarrow> ad_conns a ! i = Serving \<Longrightarrow>
    peer_step a (a\<lparr>ad_streams := ad_streams a @ [(i, Receiving)]\<rparr>)"
| requests: "j < length (ad_streams a) \<Longrightarrow> snd (ad_streams a ! j) = Receiving \<Longrightarrow>
    peer_step a (peer_request j a)"
| unreadable: "j < length (ad_streams a) \<Longrightarrow> snd (ad_streams a ! j) = Receiving \<Longrightarrow>
    peer_step a (set_stream j RequestEnded a)"
| ran: "j < length (ad_streams a) \<Longrightarrow> snd (ad_streams a ! j) = Running \<Longrightarrow>
    peer_step a (peer_request_done j a)"
| replied: "j < length (ad_streams a) \<Longrightarrow> snd (ad_streams a ! j) = Replying \<Longrightarrow>
    peer_step a (set_stream j RequestEnded a)"

inductive local_step :: "admission \<Rightarrow> admission \<Rightarrow> bool" where
  local_connects: "local_step a (accept_local a)"
| local_asks: "i < length (ad_locals a) \<Longrightarrow> ad_locals a ! i = Receiving \<Longrightarrow>
    local_step a (admit_local_request i a)"
| local_gives_up: "i < length (ad_locals a) \<Longrightarrow> ad_locals a ! i = Receiving \<Longrightarrow>
    local_step a (end_local i a)"
| local_done: "i < length (ad_locals a) \<Longrightarrow> ad_locals a ! i = Running \<Longrightarrow>
    local_step a (local_request_done i a)"
| local_replied: "i < length (ad_locals a) \<Longrightarrow> ad_locals a ! i = Replying \<Longrightarrow>
    local_step a (end_local i a)"

inductive admitted :: "daemon_config \<Rightarrow> admission \<Rightarrow> bool" for settings where
  starts: "admitted settings (admission_new settings)"
| by_peer: "admitted settings a \<Longrightarrow> peer_step a b \<Longrightarrow> admitted settings b"
| by_local: "admitted settings a \<Longrightarrow> local_step a b \<Longrightarrow> admitted settings b"

inductive_cases peer_stepE: "peer_step a b"
inductive_cases local_stepE: "local_step a b"

section \<open>Connection tasks\<close>

text \<open>
  The task of an incoming connection waits at most \<open>HANDSHAKE_TIMEOUT\<close> for the handshake, whose
  failure it logs, and that of a local connection logs why its request failed. Both hold
  their slot to the end.
\<close>

record ('f, 'c) connection_env =
  hp_handshake :: "(endpoint_id, string) result timed"
  hp_streams :: "('f, 'c) stream_env list"

definition handle_peer ::
  "codecs \<Rightarrow> 'c node \<Rightarrow> ('f, 'c) connection_env \<Rightarrow> (nat option \<times> served list, node_error) result" where
  "handle_peer cs node env =
     map_ok (\<lambda>remote. serve_peer cs node remote (hp_streams env))
       (within (case hp_handshake env of Elapsed \<Rightarrow> Elapsed | Completed r \<Rightarrow> Completed (map_err transport r)))"

definition handle_local ::
  "codecs \<Rightarrow> 'c node \<Rightarrow> ('f, 'c) local_env \<Rightarrow> 'c local_served \<times> node_error option" where
  "handle_local cs node env =
     (let s = serve_local cs node env
      in (s, case sv_result s of Some (Err e) \<Rightarrow> Some e | _ \<Rightarrow> None))"

section \<open>Conservation\<close>

definition open_conns :: "admission \<Rightarrow> nat" where
  "open_conns a = count_if (\<lambda>c. c \<noteq> ConnectionEnded) (ad_conns a)"

definition open_locals :: "admission \<Rightarrow> nat" where
  "open_locals a = count_if (\<lambda>t. t \<noteq> RequestEnded) (ad_locals a)"

definition running_locals :: "admission \<Rightarrow> nat" where
  "running_locals a = count_if (\<lambda>t. t = Running) (ad_locals a)"

definition running_streams :: "admission \<Rightarrow> nat" where
  "running_streams a = count_if (\<lambda>s. snd s = Running) (ad_streams a)"

lemmas holder_defs = open_conns_def open_locals_def running_locals_def running_streams_def

lemmas admission_defs = accept_connection_def end_connection_def peer_request_def
  peer_request_done_def accept_local_def admit_local_request_def local_request_done_def
  end_local_def set_stream_def set_local_def

text \<open>What is free and what is held add up to the limits.\<close>

definition conserved :: "daemon_config \<Rightarrow> admission \<Rightarrow> bool" where
  "conserved settings a \<longleftrightarrow>
     ad_connection_slots a + open_conns a = MAX_CONNECTIONS
     \<and> ad_local_slots a + open_locals a = 2 * dc_max_concurrent settings
     \<and> ad_peer_permits a + running_streams a = dc_max_concurrent settings
     \<and> ad_local_permits a + running_locals a = dc_max_concurrent settings"

lemma try_acquire_Some: "try_acquire n = Some m \<longleftrightarrow> n = Suc m"
  by (cases n) auto

lemma try_acquire_None: "try_acquire n = None \<longleftrightarrow> n = 0"
  by (cases n) auto

lemma conserved_new: "conserved settings (admission_new settings)"
  by (simp add: conserved_def admission_new_def holder_defs)

text \<open>How the number of holders changes when a task changes.\<close>

lemma open_conns_update:
  "i < length (ad_conns a) \<Longrightarrow>
     count_if (\<lambda>c. c \<noteq> ConnectionEnded) ((ad_conns a)[i := c]) + (if ad_conns a ! i \<noteq> ConnectionEnded then 1 else 0)
       = open_conns a + (if c \<noteq> ConnectionEnded then 1 else 0)"
  unfolding open_conns_def by (rule count_if_update)

lemma locals_update:
  assumes "i < length (ad_locals a)"
  shows "open_locals (set_local i t a) + (if ad_locals a ! i \<noteq> RequestEnded then 1 else 0)
      = open_locals a + (if t \<noteq> RequestEnded then 1 else 0)"
    and "running_locals (set_local i t a) + (if ad_locals a ! i = Running then 1 else 0)
      = running_locals a + (if t = Running then 1 else 0)"
  using count_if_update [OF assms, of "\<lambda>t. t \<noteq> RequestEnded" t] count_if_update [OF assms, of "\<lambda>t. t = Running" t]
  by (simp_all add: holder_defs set_local_def)

lemma streams_update:
  assumes "j < length (ad_streams a)"
  shows "running_streams (set_stream j t a) + (if snd (ad_streams a ! j) = Running then 1 else 0)
      = running_streams a + (if t = Running then 1 else 0)"
  using count_if_update [OF assms, of "\<lambda>s. snd s = Running" "(fst (ad_streams a ! j), t)"]
  by (simp add: holder_defs set_stream_def)

lemma conserved_peer:
  assumes "peer_step a b" "conserved settings a"
  shows "conserved settings b"
  using assms(1)
proof (cases rule: peer_step.cases)
  case incoming
  then show ?thesis
    using assms(2) by (auto simp: conserved_def accept_connection_def holder_defs try_acquire_Some
        split: option.split)
next
  case (handshaken i)
  then show ?thesis
    using assms(2) open_conns_update [of i a Serving] by (simp add: conserved_def holder_defs)
next
  case (handshake_fails i)
  then show ?thesis
    using assms(2) open_conns_update [of i a ConnectionEnded]
    by (simp add: conserved_def holder_defs end_connection_def)
next
  case (closes i)
  then show ?thesis
    using assms(2) open_conns_update [of i a ConnectionEnded]
    by (simp add: conserved_def holder_defs end_connection_def)
next
  case (opens i)
  then show ?thesis using assms(2) by (simp add: conserved_def holder_defs)
next
  case (requests j)
  then show ?thesis
    using assms(2) streams_update [of j a Running] streams_update [of j a Replying]
    by (auto simp: conserved_def holder_defs peer_request_def set_stream_def try_acquire_Some
        split: option.split)
next
  case (unreadable j)
  then show ?thesis
    using assms(2) streams_update [of j a RequestEnded] by (simp add: conserved_def holder_defs set_stream_def)
next
  case (ran j)
  then show ?thesis
    using assms(2) streams_update [of j a Replying]
    by (simp add: conserved_def holder_defs peer_request_done_def set_stream_def)
next
  case (replied j)
  then show ?thesis
    using assms(2) streams_update [of j a RequestEnded] by (simp add: conserved_def holder_defs set_stream_def)
qed

lemma conserved_local:
  assumes "local_step a b" "conserved settings a"
  shows "conserved settings b"
  using assms(1)
proof (cases rule: local_step.cases)
  case local_connects
  then show ?thesis
    using assms(2) by (auto simp: conserved_def accept_local_def holder_defs try_acquire_Some
        split: option.split)
next
  case (local_asks i)
  then show ?thesis
    using assms(2) locals_update [of i a Running] locals_update [of i a Replying]
    by (auto simp: conserved_def holder_defs admit_local_request_def set_local_def try_acquire_Some
        split: option.split)
next
  case (local_gives_up i)
  then show ?thesis
    using assms(2) locals_update [of i a RequestEnded]
    by (simp add: conserved_def holder_defs end_local_def set_local_def)
next
  case (local_done i)
  then show ?thesis
    using assms(2) locals_update [of i a Replying]
    by (simp add: conserved_def holder_defs local_request_done_def set_local_def)
next
  case (local_replied i)
  then show ?thesis
    using assms(2) locals_update [of i a RequestEnded]
    by (simp add: conserved_def holder_defs end_local_def set_local_def)
qed

lemma admitted_conserved: "admitted settings a \<Longrightarrow> conserved settings a"
  by (induction rule: admitted.induct) (blast intro: conserved_new conserved_peer conserved_local)+

text \<open>What peers do leaves every local count and task alone.\<close>

definition same_locals :: "admission \<Rightarrow> admission \<Rightarrow> bool" where
  "same_locals a b \<longleftrightarrow> ad_locals b = ad_locals a \<and> ad_local_slots b = ad_local_slots a
     \<and> ad_local_permits b = ad_local_permits a"

lemma peer_step_locals:
  assumes "peer_step a b"
  shows "same_locals a b"
  using assms
  by (cases rule: peer_step.cases)
    (simp_all add: same_locals_def accept_connection_def end_connection_def peer_request_def
      peer_request_done_def set_stream_def split: option.split)

lemma peer_steps_locals: "peer_step\<^sup>*\<^sup>* a b \<Longrightarrow> same_locals a b"
proof (induction rule: rtranclp_induct)
  case base
  then show ?case by (simp add: same_locals_def)
next
  case (step b c)
  then show ?case using peer_step_locals [OF step.hyps(2)] by (simp add: same_locals_def)
qed

lemma peer_steps_admitted: "peer_step\<^sup>*\<^sup>* a b \<Longrightarrow> admitted settings a \<Longrightarrow> admitted settings b"
  by (induction rule: rtranclp_induct) (blast intro: by_peer)+

section \<open>Properties\<close>

text \<open>
  Strangers are never served: a connection task serves the streams of a connection only after
  its handshake completed in time with the identity of a configured peer, and then all of
  them; a connection with any other identity is closed with the code \<open>UNAUTHORIZED\<close> before any
  of its streams is read, and one without a completed handshake ends with an error, so neither
  starts any work or gets any reply.
\<close>

theorem strangers_are_never_served:
  "case hp_handshake env of
     Completed (Ok remote) \<Rightarrow>
       handle_peer cs node env =
         Ok (if remote \<in> peer_id ` set (bt_values (cf_peers (nd_config node)))
             then (None, map (serve_stream cs node) (hp_streams env)) else (Some UNAUTHORIZED, []))
   | Completed (Err m) \<Rightarrow> handle_peer cs node env = Err (transport m)
   | Elapsed \<Rightarrow> handle_peer cs node env = Err NodeTimeout"
  by (simp add: handle_peer_def serve_peer_configured split: timed.split result.split)

text \<open>
  C16. The limits hold in every reachable state, over any interleaving: at most 64 incoming
  connections, handshakes included, at most \<open>max_concurrent\<close> peer requests and as many local
  requests running, at most twice that many local connections; and every slot and permit that
  is not free is held by exactly one task, so none is lost or returned twice.
\<close>

theorem admission_limits:
  assumes "admitted settings a"
  shows "open_conns a \<le> 64 \<and> running_streams a \<le> dc_max_concurrent settings
    \<and> running_locals a \<le> dc_max_concurrent settings \<and> open_locals a \<le> 2 * dc_max_concurrent settings
    \<and> ad_connection_slots a = 64 - open_conns a
    \<and> ad_peer_permits a = dc_max_concurrent settings - running_streams a
    \<and> ad_local_permits a = dc_max_concurrent settings - running_locals a
    \<and> ad_local_slots a = 2 * dc_max_concurrent settings - open_locals a"
  using admitted_conserved [OF assms] by (auto simp: conserved_def MAX_CONNECTIONS_def)

theorem admission_limits_witness:
  "open_conns (accept_connection (admission_new daemon_config_default)) = 1
   \<and> ad_connection_slots (accept_connection (admission_new daemon_config_default)) = 63"
proof -
  have "open_conns (accept_connection (admission_new daemon_config_default)) = 1"
    by (simp add: accept_connection_def admission_new_def MAX_CONNECTIONS_def open_conns_def
        try_acquire.simps(2) [of 63, simplified])
  then show ?thesis
    using admission_limits [OF by_peer [OF starts incoming, of daemon_config_default]] by simp
qed

text \<open>
  C17. Neither strangers nor a busy peer can lock the local command out: whatever happens on the
  network between two local steps, a new local connection is taken unless \<open>2 * max_concurrent\<close>
  local connections are open, and its request runs unless \<open>max_concurrent\<close> local requests are
  running; nothing peers do changes either count.
\<close>

theorem peers_cannot_lock_out_local:
  assumes "admitted settings a" "peer_step\<^sup>*\<^sup>* a b"
  shows "open_locals b = open_locals a \<and> running_locals b = running_locals a
    \<and> accept_local b =
        (if open_locals a = 2 * dc_max_concurrent settings then b
         else b\<lparr>ad_local_slots := ad_local_slots b - 1, ad_locals := ad_locals a @ [Receiving]\<rparr>)
    \<and> admit_local_request i b =
        (if running_locals a = dc_max_concurrent settings then set_local i Replying b
         else set_local i Running (b\<lparr>ad_local_permits := ad_local_permits b - 1\<rparr>))"
proof -
  note same = peer_steps_locals [OF assms(2)]
  have counts: "open_locals b = open_locals a" "running_locals b = running_locals a"
    using same by (simp_all add: same_locals_def holder_defs)
  have slots: "ad_local_slots b = 0 \<longleftrightarrow> open_locals a = 2 * dc_max_concurrent settings"
    "ad_local_permits b = 0 \<longleftrightarrow> running_locals a = dc_max_concurrent settings"
    using admitted_conserved [OF peer_steps_admitted [OF assms(2,1)]] counts
    by (auto simp: conserved_def)
  have take: "try_acquire n = (if n = 0 then None else Some (n - 1))" for n by (cases n) auto
  show ?thesis
    unfolding accept_local_def admit_local_request_def take slots
    using counts same by (simp add: same_locals_def)
qed

theorem peers_cannot_lock_out_local_witness:
  "ad_locals (accept_local (accept_connection (admission_new daemon_config_default))) = [Receiving]"
proof -
  have "peer_step\<^sup>*\<^sup>* (admission_new daemon_config_default) (accept_connection (admission_new daemon_config_default))"
    by (rule r_into_rtranclp, rule incoming)
  from peers_cannot_lock_out_local [OF starts this] show ?thesis
    by (simp add: admission_new_def open_locals_def daemon_config_default_def)
qed

text \<open>
  C20. Taking over the socket removes nothing but a stale socket: an entry is only removed if it
  is a socket that refuses connections, in a private directory; a running daemon, a file that
  is no socket and a directory open to others stop it without any change. It succeeds only
  with a socket that it bound and made private, and a bound socket that could not be made
  private is removed again.
\<close>

theorem socket_takeover_is_safe:
  "case bind_socket env layout of (r, effects) \<Rightarrow>
     (RemovedStale \<in> set effects \<longrightarrow> se_is_socket env = Ok True
        \<and> (\<exists>e. se_connect env = Err e \<and> io_kind e = ConnectionRefused))
     \<and> (effects \<noteq> [] \<longrightarrow> socket_fits layout \<and> (\<exists>mode. se_parent_mode env = Ok mode \<and> mode AND 63 = 0))
     \<and> (r = Ok () \<longleftrightarrow> MadePrivate \<in> set effects)
     \<and> (Bound \<in> set effects \<longrightarrow> last effects = (if r = Ok () then MadePrivate else GuardRemoved))
     \<and> (se_connect env = Ok () \<and> se_is_socket env = Ok True \<longrightarrow> effects = [] \<and> r \<noteq> Ok ())"
  by (auto simp: bind_socket_def clear_stale_def result_simps split: result.splits if_splits)

theorem socket_takeover_is_safe_witness:
  "fst (bind_socket \<lparr>se_parent_mode = Ok 448, se_is_socket = Ok True, se_connect = Ok (),
     se_remove = Ok (), se_bind = Ok (), se_private = Ok ()\<rparr> (layout_new sample_path)) \<noteq> Ok ()"
  using socket_takeover_is_safe [of "\<lparr>se_parent_mode = Ok 448, se_is_socket = Ok True, se_connect = Ok (),
     se_remove = Ok (), se_bind = Ok (), se_private = Ok ()\<rparr>" "layout_new sample_path"]
  by (auto split: prod.splits)

end
