(* ===== verification/Lifecycle.thy ===== *)
theory Lifecycle
  imports Daemon
begin

text \<open>
  The life of the daemon (\<open>daemon::daemon\<close>): what it takes hold of before it serves, the loop
  that accepts connections until something ends it, and what is released on every way out. The
  identity lock, the socket guard and the tasks are values whose destructors run when the
  function returns, in reverse order of their declaration.
\<close>

record start_env =
  sv_from_toml :: "string \<Rightarrow> (config, string) result"
  sv_lock_opened :: "(unit, io_error) result"
  sv_locked :: "(unit, string) result"
  sv_socket :: socket_env
  sv_key :: "(key_file, io_error) result"
  sv_endpoint :: endpoint_lib
  sv_signal :: "(unit, io_error) result"

datatype life_effect =
    Locked
  | Socket socket_effect
  | EndpointBound
  | TasksStarted
  | TasksAborted
  | EndpointClosed
  | Unlocked

text \<open>
  What ends a turn of the loop: a signal, a task that ended, an incoming connection, none
  because the endpoint was closed, or a local connection. \<open>Moved b\<close> is progress of the tasks
  between two turns, to the admission state \<open>b\<close>.
\<close>

datatype daemon_event =
    Interrupted
  | Terminated
  | TaskJoined
  | Incoming
  | EndpointGone
  | LocalAccepted
  | LocalFailed io_error
  | Moved admission

fun daemon_loop :: "daemon_event list \<Rightarrow> admission \<Rightarrow> (unit, node_error) result option \<times> admission" where
  "daemon_loop [] a = (None, a)"
| "daemon_loop (Interrupted # es) a = (Some (Ok ()), a)"
| "daemon_loop (Terminated # es) a = (Some (Ok ()), a)"
| "daemon_loop (TaskJoined # es) a = daemon_loop es a"
| "daemon_loop (Incoming # es) a = daemon_loop es (accept_connection a)"
| "daemon_loop (EndpointGone # es) a = (Some (Ok ()), a)"
| "daemon_loop (LocalAccepted # es) a = daemon_loop es (accept_local a)"
| "daemon_loop (LocalFailed e # es) a = (Some (Err (NodeIo e)), a)"
| "daemon_loop (Moved b # es) a = daemon_loop es b"

text \<open>
  Serving, from the bound endpoint on: the loop's end aborts the tasks and closes the endpoint;
  a signal handler that cannot be installed drops both.
\<close>

definition serve ::
  "start_env \<Rightarrow> config \<Rightarrow> daemon_event list \<Rightarrow> (unit, node_error) result option \<times> life_effect list" where
  "serve env cfg events =
     (case sv_signal env of
        Err e \<Rightarrow> (Some (Err (NodeIo e)), [TasksStarted, TasksAborted, EndpointClosed])
      | Ok _ \<Rightarrow>
          (case fst (daemon_loop events (admission_new (cf_daemon cfg))) of
             None \<Rightarrow> (None, [TasksStarted])
           | Some r \<Rightarrow> (Some r, [TasksStarted, TasksAborted, EndpointClosed])))"

definition with_socket ::
  "start_env \<Rightarrow> config \<Rightarrow> daemon_event list \<Rightarrow> (unit, node_error) result option \<times> life_effect list" where
  "with_socket env cfg events =
     (case and_then (load_key (sv_key env)) (\<lambda>key.
           endpoint (sv_endpoint env) key (dc_bind_port (cf_daemon cfg))) of
        Err e \<Rightarrow> (Some (Err e), [])
      | Ok _ \<Rightarrow> (case serve env cfg events of (r, effects) \<Rightarrow> (r, EndpointBound # effects)))"

definition with_lock ::
  "start_env \<Rightarrow> path \<Rightarrow> config \<Rightarrow> daemon_event list \<Rightarrow> (unit, node_error) result option \<times> life_effect list" where
  "with_lock env path cfg events =
     (case bind_socket (sv_socket env) (layout_new path) of
        (Err e, effects) \<Rightarrow> (Some (Err e), map Socket effects)
      | (Ok _, effects) \<Rightarrow>
          (case with_socket env cfg events of
             (None, served) \<Rightarrow> (None, map Socket effects @ served)
           | (Some r, served) \<Rightarrow> (Some r, map Socket effects @ served @ [Socket GuardRemoved])))"

definition daemon ::
  "start_env \<Rightarrow> files \<Rightarrow> path \<Rightarrow> daemon_event list \<Rightarrow> (unit, node_error) result option \<times> life_effect list" where
  "daemon env files path events =
     (case and_then (read_config (sv_from_toml env) files path) (\<lambda>cfg.
           map_ok (\<lambda>_. cfg) (lock_identity (sv_lock_opened env) (sv_locked env))) of
        Err e \<Rightarrow> (Some (Err e), [])
      | Ok cfg \<Rightarrow>
          (case with_lock env path cfg events of
             (None, effects) \<Rightarrow> (None, Locked # effects)
           | (Some r, effects) \<Rightarrow> (Some r, Locked # effects @ [Unlocked])))"

section \<open>Lemmas\<close>

text \<open>The loop only moves the admission state by its steps.\<close>

fun legal_moves :: "daemon_event list \<Rightarrow> admission \<Rightarrow> bool" where
  "legal_moves [] a \<longleftrightarrow> True"
| "legal_moves (Incoming # es) a \<longleftrightarrow> legal_moves es (accept_connection a)"
| "legal_moves (LocalAccepted # es) a \<longleftrightarrow> legal_moves es (accept_local a)"
| "legal_moves (Moved b # es) a \<longleftrightarrow> (peer_step a b \<or> local_step a b) \<and> legal_moves es b"
| "legal_moves (e # es) a \<longleftrightarrow> legal_moves es a"

lemma daemon_loop_admitted:
  "admitted settings a \<Longrightarrow> legal_moves es a \<Longrightarrow> admitted settings (snd (daemon_loop es a))"
  by (induction es a rule: daemon_loop.induct) (auto intro: by_peer by_local incoming local_connects)

lemma bind_socket_counts:
  assumes "bind_socket env layout = (r, effects)"
  shows "count_list effects Bound = count_list effects GuardRemoved + (if r = Ok () then 1 else 0)
    \<and> count_list effects Bound \<le> 1"
  using assms
  by (auto simp: bind_socket_def clear_stale_def result_simps split: result.splits if_splits)

lemma serve_effects:
  assumes "serve env cfg events = (r, effects)"
  shows "(r = None \<longrightarrow> effects = [TasksStarted])
    \<and> (r \<noteq> None \<longrightarrow> effects = [TasksStarted, TasksAborted, EndpointClosed])"
  using assms by (auto simp: serve_def split: result.splits option.splits)

lemma with_socket_effects:
  assumes "with_socket env cfg events = (r, effects)"
  shows "(r = None \<longrightarrow> effects = [EndpointBound, TasksStarted])
    \<and> (r \<noteq> None \<longrightarrow> effects = [] \<or> effects = [EndpointBound, TasksStarted, TasksAborted, EndpointClosed])"
  using assms serve_effects [of env cfg events]
  by (auto simp: with_socket_def split: result.splits prod.splits)

lemma count_map_Socket: "count_list (map Socket es) (Socket e) = count_list es e"
  by (induction es) auto

lemma count_served:
  assumes "with_socket env cfg events = (r, effects)"
  shows "count_list effects (Socket e) = 0 \<and> count_list effects TasksStarted = count_list effects EndpointBound
    \<and> (r \<noteq> None \<longrightarrow> count_list effects TasksAborted = count_list effects TasksStarted
         \<and> count_list effects EndpointClosed = count_list effects EndpointBound)"
  using with_socket_effects [OF assms] by (cases r) auto

text \<open>What was taken hold of has been given back.\<close>

definition released :: "life_effect list \<Rightarrow> bool" where
  "released es \<longleftrightarrow>
     count_list es (Socket GuardRemoved) = count_list es (Socket Bound)
     \<and> count_list es TasksAborted = count_list es TasksStarted
     \<and> count_list es EndpointClosed = count_list es EndpointBound"

lemma count_map_Socket_other [simp]:
  "count_list (map Socket es) EndpointBound = 0" "count_list (map Socket es) TasksStarted = 0"
  "count_list (map Socket es) TasksAborted = 0" "count_list (map Socket es) EndpointClosed = 0"
  by (induction es) auto

lemma with_lock_released:
  assumes "with_lock env path cfg events = (r, effects)"
  shows "(r \<noteq> None \<longrightarrow> released effects)
    \<and> (r = None \<longrightarrow> count_list effects (Socket Bound) = 1 \<and> count_list effects (Socket GuardRemoved) = 0)
    \<and> Locked \<notin> set effects \<and> Unlocked \<notin> set effects"
proof -
  obtain b bound where b: "bind_socket (sv_socket env) (layout_new path) = (b, bound)" by fastforce
  obtain q served where q: "with_socket env cfg events = (q, served)" by fastforce
  note counts = bind_socket_counts [OF b] count_served [OF q] with_socket_effects [OF q]
  show ?thesis
  proof (cases b)
    case (Err e)
    then show ?thesis using assms b counts
      by (auto simp: with_lock_def released_def count_map_Socket)
  next
    case (Ok u)
    then show ?thesis using assms b q counts
      by (cases q) (auto simp: with_lock_def released_def count_map_Socket)
  qed
qed

section \<open>Properties\<close>



end
