(* ===== verification/Cli.thy ===== *)
theory Cli
  imports Client Lifecycle
begin

text \<open>
  The command line \<open>sshe\<close> (\<open>args.rs\<close>, \<open>app.rs\<close>, \<open>output.rs\<close>): the arguments, how they become a
  request, the commands on the local configuration, and the process (\<open>main.rs\<close>) with its log
  settings and exit status. The parser library
  splits the arguments; what it checks by the attributes in \<open>args.rs\<close> is \<open>accepted\<close>.
\<close>

section \<open>Arguments (args.rs)\<close>

datatype kind = KindHost | KindLan | KindWan | KindServices | KindPeers

fun probe_kind_of :: "kind \<Rightarrow> probe_kind" where
  "probe_kind_of KindHost = Host"
| "probe_kind_of KindLan = Lan"
| "probe_kind_of KindWan = Wan"
| "probe_kind_of KindServices = Services"
| "probe_kind_of KindPeers = Peers"

datatype peer_action = PeerList | PeerAdd string string | PeerRemove string

datatype local_action = LocalInit | LocalId | LocalPeer peer_action | LocalDaemon

datatype remote_action =
    RemoteProbe kind
  | RemoteHistory "kind option" "string option" u64
  | RemoteExec u64 "string list"

datatype cli_action = Local local_action | Remote remote_action

record cli =
  cl_target :: "string option"
  cl_config :: "string option"
  cl_json :: bool
  cl_command :: cli_action

definition parse_target :: "string \<Rightarrow> (string, string) result" where
  "parse_target arg =
     ok_or (case strip_prefix arg ''@'' of
              None \<Rightarrow> None
            | Some s \<Rightarrow> if s \<noteq> [] then Some s else None)
       ''target must be @alias or @self''"

text \<open>The ranges and the non-empty command the parser enforces.\<close>

fun accepted :: "cli_action \<Rightarrow> bool" where
  "accepted (Remote (RemoteHistory kind about limit)) \<longleftrightarrow> 1 \<le> limit \<and> limit \<le> of_nat MAX_HISTORY_QUERY"
| "accepted (Remote (RemoteExec timeout command)) \<longleftrightarrow>
     1 \<le> timeout \<and> timeout \<le> MAX_EXEC_SECONDS \<and> command \<noteq> []"
| "accepted other \<longleftrightarrow> True"

section \<open>Requests and the exit status (app.rs, output.rs)\<close>

text \<open>\<open>None\<close>: indexing an empty command, which panics.\<close>

fun request_of :: "remote_action \<Rightarrow> request option" where
  "request_of (RemoteProbe kind) = Some (Probe (probe_kind_of kind))"
| "request_of (RemoteHistory kind about limit) =
     Some (History (map_option probe_kind_of kind) about (unat limit))"
| "request_of (RemoteExec timeout (program # args)) = Some (Exec program args timeout)"
| "request_of (RemoteExec timeout []) = None"

text \<open>What a command prints: JSON text, or the program's own output on both streams.\<close>

datatype printed =
    Printed string
  | Streams "u8 list" "u8 list"
  | Nothing

datatype cli_error =
    CliBail string
  | CliNode node_error
  | CliContext string cli_error
  | CliOutput string

text \<open>\<open>i32::clamp(0, 255) as u8\<close>; the addition wraps, as it does in a release build.\<close>

definition clamp_u8 :: "i32 \<Rightarrow> u8" where
  "clamp_u8 code = of_nat (nat (max 0 (min 255 (sint code))))"

definition status_of :: "exec_result \<Rightarrow> u8" where
  "status_of result =
     clamp_u8 (case x_exit_code result of
        Some code \<Rightarrow> code
      | None \<Rightarrow> 128 + (case x_signal result of Some s \<Rightarrow> s | None \<Rightarrow> 1))"

text \<open>Serialising a report to JSON text, and writing to the two output streams.\<close>

record render_env =
  rn_probe :: "probe_report \<Rightarrow> (string, string) result"
  rn_history :: "history_report \<Rightarrow> (string, string) result"
  rn_exec :: "exec_result \<Rightarrow> (string, string) result"
  rn_stdout :: "u8 list \<Rightarrow> (unit, string) result"
  rn_stderr :: "u8 list \<Rightarrow> (unit, string) result"

fun render :: "render_env \<Rightarrow> response \<Rightarrow> bool \<Rightarrow> (u8 \<times> printed, cli_error) result" where
  "render env (ProbeResponse report) json =
     map_ok (\<lambda>t. (0, Printed t)) (map_err CliOutput (rn_probe env report))"
| "render env (HistoryResponse report) json =
     map_ok (\<lambda>t. (0, Printed t)) (map_err CliOutput (rn_history env report))"
| "render env (HealthResponse h) json = Err (CliBail ''unexpected health response'')"
| "render env (ErrorResponse message) json = Err (CliBail message)"
| "render env (ExecResponse result) json =
     (if json then map_ok (\<lambda>t. (status_of result, Printed t)) (map_err CliOutput (rn_exec env result))
      else and_then (map_err CliOutput (rn_stdout env (x_stdout result))) (\<lambda>_.
           and_then (map_err CliOutput (rn_stderr env (x_stderr result))) (\<lambda>_.
             Ok (status_of result, Streams (x_stdout result) (x_stderr result)))))"

section \<open>The address book (app.rs)\<close>

record peer_env =
  pv_from_toml :: "string \<Rightarrow> (config, string) result"
  pv_to_toml :: "config \<Rightarrow> (string, string) result"
  pv_peers_json :: "(string, peer) btree_map \<Rightarrow> (string, string) result"
  pv_parse_id :: "string \<Rightarrow> (endpoint_id, string) result"
  pv_write :: write_env

definition edit_peers :: "peer_env \<Rightarrow> peer_action \<Rightarrow> config \<Rightarrow> (config, cli_error) result" where
  "edit_peers env action cfg =
     (case action of
        PeerList \<Rightarrow> Ok cfg
      | PeerAdd alias id_text \<Rightarrow>
          and_then (map_err CliNode (validate_alias alias)) (\<lambda>_.
            if bt_contains_key (cf_peers cfg) alias
            then Err (CliBail ''alias already exists; remove it explicitly before replacing'')
            else and_then (map_err (CliContext ''invalid EndpointId'' \<circ> CliBail) (pv_parse_id env id_text)) (\<lambda>id.
              Ok (cfg\<lparr>cf_peers := bt_insert alias \<lparr>peer_id = id, peer_addrs = []\<rparr> (cf_peers cfg)\<rparr>)))
      | PeerRemove alias \<Rightarrow>
          (case bt_get (cf_peers cfg) alias of
             None \<Rightarrow> Err (CliBail (''unknown peer: '' @ alias))
           | Some _ \<Rightarrow> Ok (cfg\<lparr>cf_peers := bt_remove alias (cf_peers cfg)\<rparr>)))"

definition peer_command ::
  "peer_env \<Rightarrow> files \<Rightarrow> path \<Rightarrow> peer_action \<Rightarrow> (printed, cli_error) result \<times> files" where
  "peer_command env files path action =
     (case map_err CliNode (read_config (pv_from_toml env) files path) of
        Err e \<Rightarrow> (Err e, files)
      | Ok cfg \<Rightarrow>
          (if action = PeerList
           then (map_ok Printed (map_err CliOutput (pv_peers_json env (cf_peers cfg))), files)
           else case edit_peers env action cfg of
             Err e \<Rightarrow> (Err e, files)
           | Ok cfg' \<Rightarrow>
               (case save (pv_to_toml env) (pv_write env) path cfg' files of
                  (r, files') \<Rightarrow> (map_ok (\<lambda>_. Nothing) (map_err CliNode r), files'))))"

section \<open>One invocation (app.rs, main.rs)\<close>

text \<open>\<open>XDG_CONFIG_HOME\<close>, else \<open>HOME/.config\<close>; then \<open>std::path::absolute\<close> on the result.\<close>

definition default_path :: "string option \<Rightarrow> string option \<Rightarrow> (path, node_error) result" where
  "default_path xdg home =
     map_ok (\<lambda>base. path_join base (path_of ''sshe/config.toml''))
       (ok_or (case xdg of
                 Some x \<Rightarrow> Some (path_of x)
               | None \<Rightarrow> map_option (\<lambda>h. path_join (path_of h) (path_of ''.config'')) home)
          (Invalid ''HOME or XDG_CONFIG_HOME required''))"

definition absolute_path :: "(path, io_error) result \<Rightarrow> path \<Rightarrow> (path, io_error) result" where
  "absolute_path cwd p =
     (if is_absolute p then Ok p
      else case components p of
        [] \<Rightarrow> Err (plain_io OtherKind)
      | c # cs \<Rightarrow> map_ok (\<lambda>d. path_join d (Path False (if c = ''.'' then cs else c # cs))) cwd)"

record ('f, 'c) cli_env =
  cx_xdg :: "string option"
  cx_home :: "string option"
  cx_cwd :: "(path, io_error) result"
  cx_codecs :: codecs
  cx_client :: "('f, 'c) client_env"
  cx_peer :: peer_env
  cx_render :: render_env
  cx_init :: init_env
  cx_id_text :: "endpoint_id \<Rightarrow> string"
  cx_daemon :: "start_env \<times> daemon_event list"

text \<open>The configuration files, and the directory entries that \<open>init\<close> looks at.\<close>

record machine =
  mc_files :: files
  mc_disk :: init_disk

definition endpoint_id_of :: "(secret_key \<Rightarrow> endpoint_id) \<Rightarrow> (key_file, io_error) result \<Rightarrow> (endpoint_id, node_error) result" where
  "endpoint_id_of public key = map_ok public (load_key key)"

definition endpoint_id_command :: "('f, 'c) cli_env \<Rightarrow> files \<Rightarrow> path \<Rightarrow> (printed, cli_error) result" where
  "endpoint_id_command env files path =
     map_err CliNode
       (and_then (read_config (pv_from_toml (cx_peer env)) files path) (\<lambda>cfg.
        map_ok (\<lambda>id. Printed (cx_id_text env id))
          (endpoint_id_of (ce_public (cx_client env)) (ce_key (cx_client env)))))"

fun run_local ::
  "('f, 'c) cli_env \<Rightarrow> local_action \<Rightarrow> path \<Rightarrow> machine \<Rightarrow> (printed, cli_error) result option \<times> machine" where
  "run_local env LocalInit path m =
     (case init (ce_public (cx_client env)) (pv_to_toml (cx_peer env)) (cx_init env) path (mc_disk m) of
        (r, disk') \<Rightarrow>
          (Some (map_ok (\<lambda>id. Printed (cx_id_text env id))
             (map_err (CliContext ''initialize identity and config'' \<circ> CliNode) r)),
           m\<lparr>mc_disk := disk',
             mc_files := (if dk_config (mc_disk m) = None
                          then case dk_config disk' of Some t \<Rightarrow> (mc_files m)(path := Ok t) | None \<Rightarrow> mc_files m
                          else mc_files m)\<rparr>))"
| "run_local env LocalId path m = (Some (endpoint_id_command env (mc_files m) path), m)"
| "run_local env (LocalPeer action) path m =
     (case peer_command (cx_peer env) (mc_files m) path action of
        (r, files') \<Rightarrow> (Some r, m\<lparr>mc_files := files'\<rparr>))"
| "run_local env LocalDaemon path m =
     (map_option (\<lambda>r. map_ok (\<lambda>_. Nothing) (map_err CliNode r))
        (fst (daemon (fst (cx_daemon env)) (mc_files m) path (snd (cx_daemon env)))), m)"

text \<open>
  The status, unless the answer is still awaited or the process panicked, with what the request
  did, if one was made.
\<close>

record 'c cli_outcome =
  cr_result :: "(u8 \<times> printed, cli_error) result option"
  cr_outcome :: "'c outcome option"
  cr_machine :: machine

definition cli_path :: "('f, 'c) cli_env \<Rightarrow> cli \<Rightarrow> (path, cli_error) result" where
  "cli_path env cli =
     and_then (map_err CliNode
        (case cl_config cli of Some p \<Rightarrow> Ok (path_of p) | None \<Rightarrow> default_path (cx_xdg env) (cx_home env)))
       (\<lambda>p. map_err (CliNode \<circ> NodeIo) (absolute_path (cx_cwd env) p))"

definition cli_run :: "('f, 'c) cli_env \<Rightarrow> machine \<Rightarrow> cli \<Rightarrow> 'c cli_outcome" where
  "cli_run env m cli =
     (case cli_path env cli of
        Err e \<Rightarrow> \<lparr>cr_result = Some (Err e), cr_outcome = None, cr_machine = m\<rparr>
      | Ok path \<Rightarrow>
          (case cl_command cli of
             Local action \<Rightarrow>
               if cl_target cli \<noteq> None \<and> cl_target cli \<noteq> Some ''self''
               then \<lparr>cr_result = Some (Err (CliBail ''this command is local-only'')), cr_outcome = None,
                     cr_machine = m\<rparr>
               else (case run_local env action path m of
                 (r, m') \<Rightarrow>
                   \<lparr>cr_result = map_option (map_ok (\<lambda>shown. (0, shown))) r, cr_outcome = None, cr_machine = m'\<rparr>)
           | Remote action \<Rightarrow>
               (case request_of action of
                  None \<Rightarrow> \<lparr>cr_result = None, cr_outcome = None, cr_machine = m\<rparr>
                | Some request \<Rightarrow>
                    let out = invoke (cx_codecs env) (pv_from_toml (cx_peer env)) (mc_files m) (cx_client env)
                                path (cl_target cli) request
                    in \<lparr>cr_result =
                         map_option (\<lambda>r.
                           and_then (map_err (CliContext ''sshe request failed'' \<circ> CliNode) r)
                             (\<lambda>response. render (cx_render env) response (cl_json cli))) (oc_result out),
                        cr_outcome = Some out, cr_machine = m\<rparr>)))"

fun exit_code :: "(u8 \<times> printed, cli_error) result \<Rightarrow> u8" where
  "exit_code (Ok (code, shown)) = code"
| "exit_code (Err e) = 1"

section \<open>The process (main.rs)\<close>

text \<open>
  How log lines are written: to standard error and without the target; under systemd also
  without time and colours, which are otherwise left to the library (\<open>None\<close>). \<open>from_env\<close> is the filter in \<open>RUST_LOG\<close>, if it is set and valid.
\<close>

record log_setup =
  ls_filter :: string
  ls_with_target :: bool
  ls_with_time :: bool
  ls_with_ansi :: "bool option"

definition init_logging :: "string option \<Rightarrow> bool \<Rightarrow> bool \<Rightarrow> log_setup" where
  "init_logging from_env journal is_daemon =
     (let default = if is_daemon then ''warn,sshe_node=info'' else ''off,sshe_node=warn'';
          filter = (case from_env of Some f \<Rightarrow> f | None \<Rightarrow> default)
      in \<lparr>ls_filter = filter, ls_with_target = False, ls_with_time = \<not> journal,
          ls_with_ansi = (if journal then Some False else None)\<rparr>)"

definition is_daemon_command :: "cli \<Rightarrow> bool" where
  "is_daemon_command cli \<longleftrightarrow> cl_command cli = Local LocalDaemon"

text \<open>\<open>None\<close>: the process does not end by itself.\<close>

definition cli_main ::
  "string option \<Rightarrow> bool \<Rightarrow> ('f, 'c) cli_env \<Rightarrow> machine \<Rightarrow> cli \<Rightarrow> log_setup \<times> u8 option" where
  "cli_main from_env journal env m cli =
     (init_logging from_env journal (is_daemon_command cli),
      map_option exit_code (cr_result (cli_run env m cli)))"

section \<open>Lemmas\<close>

text \<open>The status of \<open>sshe daemon\<close> tells whether it stopped by a signal or failed.\<close>

lemma daemon_status:
  assumes "cl_command cli = Local LocalDaemon" "cl_target cli = None" "cli_path env cli = Ok path"
  shows "snd (cli_main from_env journal env m cli) =
     (case fst (daemon (fst (cx_daemon env)) (mc_files m) path (snd (cx_daemon env))) of
        None \<Rightarrow> None | Some (Ok _) \<Rightarrow> Some 0 | Some (Err e) \<Rightarrow> Some 1)"
    and "ls_filter (fst (cli_main None journal env m cli)) = ''warn,sshe_node=info''"
  using assms
  by (auto simp: cli_main_def cli_run_def init_logging_def is_daemon_command_def Let_def
      split: option.split result.split)

lemma parse_target_at: "s \<noteq> [] \<Longrightarrow> parse_target (''@'' @ s) = Ok s"
  by (simp only: parse_target_def strip_prefix_append) simp

lemma parse_target_Ok: "parse_target arg = Ok s \<Longrightarrow> arg = ''@'' @ s \<and> s \<noteq> []"
  by (auto simp: parse_target_def result_simps text_simps split: option.splits if_splits)

text \<open>The parser's checks are those the node makes again, and nothing it lets through panics.\<close>

lemma accepted_request:
  assumes "accepted (Remote action)"
  obtains request where "request_of action = Some request"
    "\<And>p as t. request = Exec p as t \<Longrightarrow> 1 \<le> t \<and> t \<le> MAX_EXEC_SECONDS"
    "\<And>k about n. request = History k about n \<Longrightarrow> 1 \<le> n \<and> n \<le> MAX_HISTORY_QUERY"
proof (cases action)
  case (RemoteExec t command)
  with assms obtain p as where "command = p # as" by (cases command) auto
  with assms RemoteExec that show ?thesis by auto
next
  case (RemoteHistory k about n)
  with assms have "1 \<le> n" "n \<le> of_nat MAX_HISTORY_QUERY" by simp_all
  then have "1 \<le> unat n" "unat n \<le> MAX_HISTORY_QUERY"
    by (simp_all add: word_le_nat_alt MAX_HISTORY_QUERY_def)
  with RemoteHistory that show ?thesis by auto
qed (use that in auto)

lemma unat_clamp_u8: "unat (clamp_u8 code) = nat (max 0 (min 255 (sint code)))"
proof -
  have "nat (max 0 (min 255 (sint code))) < 2 ^ 8" by (simp add: nat_less_iff)
  then show ?thesis by (simp only: clamp_u8_def unsigned_of_nat) (simp add: take_bit_nat_eq_self)
qed

lemma sint_signal:
  assumes "0 \<le> sint (s :: i32)" "sint s < 2 ^ 31 - 128"
  shows "sint (128 + s) = 128 + sint s"
proof -
  have "sint (128 + s) = signed_take_bit 31 (128 + sint s)"
    by (simp add: sint_word_ariths signed_take_bit_int_eq_self)
  then show ?thesis using assms by (simp add: signed_take_bit_int_eq_self)
qed

lemma edit_peers_valid:
  assumes "validate cfg = Ok ()" "valid_alias alias"
  shows "validate (cfg\<lparr>cf_peers := bt_insert alias p (cf_peers cfg)\<rparr>) = Ok ()"
proof -
  have "set (bt_keys (bt_insert alias p (cf_peers cfg))) = insert alias (set (bt_keys (cf_peers cfg)))"
    by (simp add: bt_keys_def bt_insert_keys)
  with assms show ?thesis by (simp add: validate_Ok_iff within_limits_def)
qed

lemma peer_command_saves:
  assumes "read_config (pv_from_toml env) files path = Ok cfg" "is_absolute path" "components path \<noteq> []"
    "action \<noteq> PeerList" "edit_peers env action cfg = Ok cfg'" "writes_succeed (pv_write env)"
    "validate cfg' = Ok ()" "cf_identity cfg' = cf_identity cfg"
    "pv_to_toml env (relative_identity (layout_dir (layout_new path)) cfg') = Ok t"
    "pv_from_toml env t = Ok (relative_identity (layout_dir (layout_new path)) cfg')"
  shows "peer_command env files path action = (Ok Nothing, files(path := Ok t))
     \<and> read_config (pv_from_toml env) (files(path := Ok t)) path = Ok cfg'"
proof -
  have "is_absolute (cf_identity cfg')"
    using read_config_Ok [OF assms(1-3)] assms(8) by simp
  then have "save (pv_to_toml env) (pv_write env) path cfg' files = (Ok (), files(path := Ok t))
      \<and> read_config (pv_from_toml env) (files(path := Ok t)) path = Ok cfg'"
    using assms by (intro save_reads_back)
  then show ?thesis using assms(1,4,5) by (simp add: peer_command_def)
qed

lemma cli_run_remote:
  assumes "cl_command cli = Remote action" "cr_outcome (cli_run env m cli) = Some out"
  shows "cr_result (cli_run env m cli) = map_option (\<lambda>r.
      and_then (map_err (CliContext ''sshe request failed'' \<circ> CliNode) r)
        (\<lambda>response. render (cx_render env) response (cl_json cli))) (oc_result out)"
  using assms
  by (cases "cli_path env cli"; cases "request_of action") (auto simp: cli_run_def Let_def)

lemma render_exec_code:
  "render env (ExecResponse x) json = Ok (code, shown) \<Longrightarrow>
     code = status_of x \<and> (\<not> json \<longrightarrow> shown = Streams (x_stdout x) (x_stderr x))"
  by (auto simp: result_simps split: if_splits)

section \<open>Properties\<close>


text \<open>In the example a local \<open>sh\<close> ends with exit code 7, without a daemon or an endpoint.\<close>

definition sample_cli :: cli where
  "sample_cli = \<lparr>cl_target = None, cl_config = Some ''/etc/sshe/config.toml'', cl_json = False,
                 cl_command = Remote (RemoteExec 2 [''sh''])\<rparr>"

definition local_exec_env :: "(nat, nat) cli_env \<Rightarrow> (nat, nat) cli_env" where
  "local_exec_env env = env\<lparr>
     cx_client := (cx_client env)\<lparr>ce_key := Ok \<lparr>kf_mode = 384, kf_bytes = replicate 32 7\<rparr>,
       ce_dispatch := (ce_dispatch (cx_client env))\<lparr>de_exec := sample_env\<rparr>\<rparr>,
     cx_peer := (cx_peer env)\<lparr>pv_from_toml := (\<lambda>_. Ok sample_config)\<rparr>,
     cx_render := (cx_render env)\<lparr>rn_stdout := (\<lambda>_. Ok ()), rn_stderr := (\<lambda>_. Ok ())\<rparr>\<rparr>"

lemma sample_execute:
  "execute sample_env ''sh'' [] 2 = (Some (Ok \<lparr>x_stdout = [104, 105], x_stderr = [], x_exit_code = Some 7,
     x_signal = None, x_duration_ms = 3\<rparr>), [Spawned 41 ''sh'' [], KillGroup 41])"
  by (simp add: execute_def sample_env_def MAX_EXEC_SECONDS_def read_output_def read_to_end_def OUTPUT_LIMIT_def)

lemma sample_invoke:
  "oc_result (invoke cs (\<lambda>_. Ok sample_config) (\<lambda>_. Ok []) (cx_client (local_exec_env env)) path None
     (Exec ''sh'' [] 2)) = Some (Ok (ExecResponse
       \<lparr>x_stdout = [104, 105], x_stderr = [], x_exit_code = Some 7, x_signal = None, x_duration_ms = 3\<rparr>))"
proof -
  have "read_config (\<lambda>_. Ok sample_config) (\<lambda>_. Ok []) path = Ok sample_config"
    using sample_config_valid by (simp add: read_config_def sample_config_def)
  moreover have "ce_key (cx_client (local_exec_env env)) = Ok \<lparr>kf_mode = 384, kf_bytes = replicate 32 7\<rparr>"
    "de_exec (ce_dispatch (cx_client (local_exec_env env))) = sample_env"
    by (simp_all add: local_exec_env_def)
  ultimately show ?thesis
    by (simp add: invoke_def target_of_def Let_def in_process_def load_key_def run_dispatch_def dispatch_def
        sample_execute)
qed


text \<open>A signal number near the top of \<open>i32\<close>, which no system reports, would wrap to status 0.\<close>

lemma huge_signal_wraps:
  "status_of \<lparr>x_stdout = [], x_stderr = [], x_exit_code = None, x_signal = Some 2147483647, x_duration_ms = 0\<rparr> = 0"
  by (simp add: status_of_def clamp_u8_def)

text \<open>
  Adding a peer and removing it again restores the configuration. After a successful
  \<open>peer add\<close> the configuration reads back with exactly that peer more, a second \<open>add\<close> of the
  alias is refused and changes nothing, \<open>peer remove\<close> then leaves a file that reads back as the
  original, and no other file is touched. TOML is assumed to read back the two configurations.
\<close>

theorem peer_add_then_remove:
  assumes "read_config (pv_from_toml env) files path = Ok cfg"
    and "is_absolute path" "components path \<noteq> []" "bt_wf (cf_peers cfg)"
    and "valid_alias alias" "bt_get (cf_peers cfg) alias = None" "pv_parse_id env id_text = Ok eid"
    and "writes_succeed (pv_write env)"
    and with_peer: "cfg' = cfg\<lparr>cf_peers := bt_insert alias \<lparr>peer_id = eid, peer_addrs = []\<rparr> (cf_peers cfg)\<rparr>"
    and toml: "\<forall>c \<in> {cfg, cfg'}. \<exists>t.
        pv_to_toml env (relative_identity (layout_dir (layout_new path)) c) = Ok t
        \<and> pv_from_toml env t = Ok (relative_identity (layout_dir (layout_new path)) c)"
  shows "\<exists>files1 files2.
     peer_command env files path (PeerAdd alias id_text) = (Ok Nothing, files1)
     \<and> read_config (pv_from_toml env) files1 path = Ok cfg'
     \<and> (\<forall>other. peer_command env files1 path (PeerAdd alias other)
          = (Err (CliBail ''alias already exists; remove it explicitly before replacing''), files1))
     \<and> peer_command env files1 path (PeerRemove alias) = (Ok Nothing, files2)
     \<and> read_config (pv_from_toml env) files2 path = Ok cfg
     \<and> (\<forall>p. p \<noteq> path \<longrightarrow> files2 p = files p)"
proof -
  have valid: "validate cfg = Ok ()" using read_config_Ok [OF assms(1-3)] by simp
  have valid': "validate cfg' = Ok ()" using edit_peers_valid [OF valid assms(5)] by (simp add: with_peer)
  have alias_ok: "validate_alias alias = Ok ()" using assms(5) by (simp add: validate_alias_Ok_iff)
  obtain t1 t2 where t: "pv_to_toml env (relative_identity (layout_dir (layout_new path)) cfg') = Ok t1"
    "pv_from_toml env t1 = Ok (relative_identity (layout_dir (layout_new path)) cfg')"
    "pv_to_toml env (relative_identity (layout_dir (layout_new path)) cfg) = Ok t2"
    "pv_from_toml env t2 = Ok (relative_identity (layout_dir (layout_new path)) cfg)"
    using toml by blast
  have add: "edit_peers env (PeerAdd alias id_text) cfg = Ok cfg'"
    using alias_ok assms(6,7) by (simp add: edit_peers_def bt_contains_key_def with_peer)
  have added: "peer_command env files path (PeerAdd alias id_text) = (Ok Nothing, files(path := Ok t1))
      \<and> read_config (pv_from_toml env) (files(path := Ok t1)) path = Ok cfg'"
    using assms(1-3,8) add valid' t(1,2) by (intro peer_command_saves) (simp_all add: with_peer)
  have get: "bt_get (cf_peers cfg') alias = Some \<lparr>peer_id = eid, peer_addrs = []\<rparr>"
    using assms(4) by (simp add: with_peer btree.get_put_same)
  have "edit_peers env (PeerRemove alias) cfg' = Ok cfg"
    using assms(4,6) by (simp add: edit_peers_def get) (simp add: with_peer btree.del_put_fresh)
  then have removed: "peer_command env (files(path := Ok t1)) path (PeerRemove alias)
        = (Ok Nothing, (files(path := Ok t1))(path := Ok t2))
      \<and> read_config (pv_from_toml env) ((files(path := Ok t1))(path := Ok t2)) path = Ok cfg"
    using assms(2,3,8) added valid t(3,4)
    by (intro peer_command_saves [where cfg = cfg' and cfg' = cfg]) (simp_all add: with_peer)
  have again: "edit_peers env (PeerAdd alias other) cfg'
      = Err (CliBail ''alias already exists; remove it explicitly before replacing'')" for other
    using alias_ok get by (simp add: edit_peers_def bt_contains_key_def)
  show ?thesis
  proof (rule exI [of _ "files(path := Ok t1)"], rule exI [of _ "files(path := Ok t2)"], intro conjI allI impI)
    show "peer_command env (files(path := Ok t1)) path (PeerAdd alias other)
        = (Err (CliBail ''alias already exists; remove it explicitly before replacing''), files(path := Ok t1))" for other
      using added again by (simp add: peer_command_def)
  qed (use added removed in simp_all)
qed

definition sample_with_new :: config where
  "sample_with_new = sample_config\<lparr>cf_peers := [(''new'', \<lparr>peer_id = ''n'', peer_addrs = []\<rparr>),
                                                (''vps'', \<lparr>peer_id = ''k'', peer_addrs = []\<rparr>)]\<rparr>"

definition sample_peer_env :: peer_env where
  "sample_peer_env =
     \<lparr>pv_from_toml = (\<lambda>t. if t = ''old'' then Ok (relative_identity (layout_dir (layout_new sample_path)) sample_config)
                       else Ok (relative_identity (layout_dir (layout_new sample_path)) sample_with_new)),
      pv_to_toml = (\<lambda>c. Ok (if length (cf_peers c) = 1 then ''old'' else ''with new'')),
      pv_peers_json = (\<lambda>_. Ok []), pv_parse_id = (\<lambda>t. Ok t),
      pv_write = \<lparr>we_create = Ok (), we_write = Ok (), we_sync = Ok (), we_persist = Ok (), we_sync_dir = Ok ()\<rparr>\<rparr>"

theorem peer_add_then_remove_witness:
  "\<exists>files1 files2.
     peer_command sample_peer_env (\<lambda>_. Ok ''old'') sample_path (PeerAdd ''new'' ''n'') = (Ok Nothing, files1)
     \<and> peer_command sample_peer_env files1 sample_path (PeerRemove ''new'') = (Ok Nothing, files2)
     \<and> read_config (pv_from_toml sample_peer_env) files2 sample_path = Ok sample_config"
proof -
  have rel: "relative_identity (layout_dir (layout_new sample_path)) sample_config
      = sample_config\<lparr>cf_identity := Path False [''config.key'']\<rparr>"
    by (simp add: sample_config_def sample_path_def relative_identity_def path_strip_prefix_def layout_dir_def
        layout_new_def path_parent_def)
  have "read_config (pv_from_toml sample_peer_env) (\<lambda>_. Ok ''old'') sample_path = Ok sample_config"
    using sample_config_valid
    by (simp add: read_config_def sample_peer_env_def rel)
      (simp add: sample_config_def sample_path_def layout_dir_def layout_new_def path_parent_def path_join_def)
  moreover have "is_absolute sample_path" "components sample_path \<noteq> []" by (simp_all add: sample_path_def)
  moreover have "bt_wf (cf_peers sample_config)" "valid_alias ''new''" "bt_get (cf_peers sample_config) ''new'' = None"
    by (simp_all add: bt_wf_def sample_config_def valid_alias_def alias_char_def is_ascii_alphanumeric_def bt_get_def)
  moreover have "pv_parse_id sample_peer_env ''n'' = Ok ''n''" "writes_succeed (pv_write sample_peer_env)"
    by (simp_all add: sample_peer_env_def writes_succeed_def)
  moreover have "sample_with_new = sample_config\<lparr>cf_peers :=
      bt_insert ''new'' \<lparr>peer_id = ''n'', peer_addrs = []\<rparr> (cf_peers sample_config)\<rparr>"
    by (simp add: sample_with_new_def sample_config_def)
  moreover have "\<forall>c \<in> {sample_config, sample_with_new}. \<exists>t.
      pv_to_toml sample_peer_env (relative_identity (layout_dir (layout_new sample_path)) c) = Ok t
      \<and> pv_from_toml sample_peer_env t = Ok (relative_identity (layout_dir (layout_new sample_path)) c)"
    by (simp add: sample_peer_env_def sample_with_new_def sample_config_def relative_identity_def
        split: option.split)
  ultimately show ?thesis
    using peer_add_then_remove [of sample_peer_env "\<lambda>_. Ok ''old''" sample_path sample_config "''new''" "''n''" "''n''"
        sample_with_new] by blast
qed

end
