(* ===== verification/Dialing.thy ===== *)
theory Dialing
  imports Transport
begin

text \<open>
  Concurrent callers of one dialer (\<open>Dialer::connection\<close> in \<open>transport.rs\<close>). Each peer's cached
  connection is behind a mutex of its own; a call waits for it, and holds it over the await of
  its dial. Between two awaits a call runs one of the operations below; \<open>dial_step\<close> interleaves
  the calls in any order, with connections that close, calls that are dropped and time that
  passes. The lemmas show what the mutex is for, one dial at a time and per peer, and that every
  call does what the function \<open>connection\<close> of \<open>Transport\<close> does in one go.

  \<open>dr_dialled\<close> records every connection that was established, in order; it decides nothing.
\<close>

section \<open>State\<close>

text \<open>A call waits for the mutex, dials while it holds it, has returned, or was dropped.\<close>

datatype 'c conn_state = Queued | Dialling | Got "('c \<times> bool, node_error) result" | Dropped

record 'c conn_call =
  cc_peer :: endpoint_id
  cc_start :: instant
  cc_deadline :: instant
  cc_state :: "'c conn_state"

record 'c dial_run = "'c dialer" +
  dr_clock :: instant
  dr_holder :: "endpoint_id \<Rightarrow> nat option"
  dr_closed :: "'c \<Rightarrow> bool"
  dr_calls :: "'c conn_call list"
  dr_dialled :: "(endpoint_id \<times> 'c) list"

definition dial_run_new :: "endpoint_id list \<Rightarrow> instant \<Rightarrow> 'c dial_run" where
  "dial_run_new ids now =
     dialer.extend (dialer_new ids)
       \<lparr>dr_clock = now, dr_holder = (\<lambda>_. None), dr_closed = (\<lambda>_. False), dr_calls = [], dr_dialled = []\<rparr>"

section \<open>One call of connection\<close>

definition set_state :: "nat \<Rightarrow> 'c conn_state \<Rightarrow> 'c dial_run \<Rightarrow> 'c dial_run" where
  "set_state i st s = s\<lparr>dr_calls := (dr_calls s)[i := (dr_calls s ! i)\<lparr>cc_state := st\<rparr>]\<rparr>"

text \<open>The guard of the mutex is dropped with the call that holds it.\<close>

definition release :: "nat \<Rightarrow> 'c dial_run \<Rightarrow> 'c dial_run" where
  "release i s =
     (let p = cc_peer (dr_calls s ! i)
      in if dr_holder s p = Some i then s\<lparr>dr_holder := (dr_holder s)(p := None)\<rparr> else s)"

text \<open>Up to the await of the mutex: an expired deadline or an unknown peer ends the call.\<close>

definition begin_connection :: "endpoint_id \<Rightarrow> instant \<Rightarrow> 'c dial_run \<Rightarrow> 'c dial_run" where
  "begin_connection p deadline s =
     s\<lparr>dr_calls := dr_calls s @
         [\<lparr>cc_peer = p, cc_start = dr_clock s, cc_deadline = deadline,
           cc_state =
             (if deadline - dr_clock s = 0 then Got (Err NodeTimeout)
              else case d_peers s p of
                None \<Rightarrow> Got (Err (Invalid (p @ '' is not a configured peer'')))
              | Some _ \<Rightarrow> Queued)\<rparr>]\<rparr>"

text \<open>The mutex was acquired: reuse a live connection and let go, or dial and hold on.\<close>

definition lock_cell :: "nat \<Rightarrow> 'c dial_run \<Rightarrow> 'c dial_run" where
  "lock_cell i s =
     (let p = cc_peer (dr_calls s ! i)
      in case (case Option.bind (d_peers s p) id of
                 Some c \<Rightarrow> if dr_closed s c then None else Some c | None \<Rightarrow> None) of
           Some c \<Rightarrow> set_state i (Got (Ok (c, True))) s
         | None \<Rightarrow> set_state i Dialling (s\<lparr>dr_holder := (dr_holder s)(p := Some i)\<rparr>))"

definition dial_succeeds :: "nat \<Rightarrow> 'c \<Rightarrow> 'c dial_run \<Rightarrow> 'c dial_run" where
  "dial_succeeds i c s =
     (let p = cc_peer (dr_calls s ! i)
      in set_state i (Got (Ok (c, False)))
           (release i (s\<lparr>d_peers := (d_peers s)(p := Some (Some c)), dr_dialled := dr_dialled s @ [(p, c)]\<rparr>)))"

definition dial_fails :: "nat \<Rightarrow> connect_error \<Rightarrow> 'c dial_run \<Rightarrow> 'c dial_run" where
  "dial_fails i e s = set_state i (Got (Err (connect_failed e))) (release i s)"

text \<open>The limit of the phase passed, or the caller gave up; waiting and dialing both end.\<close>

definition connection_expires :: "nat \<Rightarrow> 'c dial_run \<Rightarrow> 'c dial_run" where
  "connection_expires i s = set_state i (Got (Err NodeTimeout)) (release i s)"

definition drop_connection_call :: "nat \<Rightarrow> 'c dial_run \<Rightarrow> 'c dial_run" where
  "drop_connection_call i s = set_state i Dropped (release i s)"

definition phase_end :: "'c conn_call \<Rightarrow> instant" where
  "phase_end k = cc_start k + min DIAL_TIMEOUT (cc_deadline k - cc_start k)"

section \<open>All interleavings\<close>

datatype 'c dial_action =
    BeginCall endpoint_id instant
  | Lock nat
  | DialOk nat 'c
  | DialErr nat connect_error
  | Expire nat
  | DropCall nat
  | Close 'c
  | Pass duration

definition state_of :: "'c dial_run \<Rightarrow> nat \<Rightarrow> 'c conn_state option" where
  "state_of s i = (if i < length (dr_calls s) then Some (cc_state (dr_calls s ! i)) else None)"

abbreviation peer_of :: "'c dial_run \<Rightarrow> nat \<Rightarrow> endpoint_id" where
  "peer_of s i \<equiv> cc_peer (dr_calls s ! i)"

text \<open>A dial yields a connection that did not exist before.\<close>

definition fresh_connection :: "'c dial_run \<Rightarrow> 'c \<Rightarrow> bool" where
  "fresh_connection s c \<longleftrightarrow> c \<notin> snd ` set (dr_dialled s)"

inductive dial_step :: "'c dial_run \<Rightarrow> 'c dial_action \<Rightarrow> 'c dial_run \<Rightarrow> bool" where
  call_begins: "dial_step s (BeginCall p deadline) (begin_connection p deadline s)"
| locks: "state_of s i = Some Queued \<Longrightarrow> dr_holder s (peer_of s i) = None \<Longrightarrow>
    dial_step s (Lock i) (lock_cell i s)"
| dials: "state_of s i = Some Dialling \<Longrightarrow> fresh_connection s c \<Longrightarrow>
    dial_step s (DialOk i c) (dial_succeeds i c s)"
| dial_errs: "state_of s i = Some Dialling \<Longrightarrow> dial_step s (DialErr i e) (dial_fails i e s)"
| expires: "state_of s i \<in> {Some Queued, Some Dialling} \<Longrightarrow> phase_end (dr_calls s ! i) \<le> dr_clock s \<Longrightarrow>
    dial_step s (Expire i) (connection_expires i s)"
| call_drops: "state_of s i \<in> {Some Queued, Some Dialling} \<Longrightarrow>
    dial_step s (DropCall i) (drop_connection_call i s)"
| connection_closes: "c \<in> snd ` set (dr_dialled s) \<Longrightarrow>
    dial_step s (Close c) (s\<lparr>dr_closed := (dr_closed s)(c := True)\<rparr>)"
| passes: "dial_step s (Pass d) (s\<lparr>dr_clock := dr_clock s + d\<rparr>)"

inductive dialing :: "endpoint_id list \<Rightarrow> 'c dial_run \<Rightarrow> bool" for ids where
  dialing_starts: "dialing ids (dial_run_new ids now)"
| dialing_steps: "dialing ids s \<Longrightarrow> dial_step s a s' \<Longrightarrow> dialing ids s'"

inductive_cases dial_stepE: "dial_step s a s'"
inductive_simps dial_lock_iff: "dial_step s (Lock i) s'"
inductive_simps dial_ok_iff: "dial_step s (DialOk i c) s'"
inductive_simps dial_expire_iff: "dial_step s (Expire i) s'"

section \<open>What the operations change\<close>

lemma set_state_fields [simp]:
  "d_peers (set_state i st s) = d_peers s" "dr_clock (set_state i st s) = dr_clock s"
  "dr_holder (set_state i st s) = dr_holder s" "dr_closed (set_state i st s) = dr_closed s"
  "dr_dialled (set_state i st s) = dr_dialled s"
  "length (dr_calls (set_state i st s)) = length (dr_calls s)"
  by (simp_all add: set_state_def)

lemma set_state_calls [simp]:
  "state_of (set_state i st s) j = (if j = i \<and> i < length (dr_calls s) then Some st else state_of s j)"
  "peer_of (set_state i st s) j = peer_of s j"
  "cc_start (dr_calls (set_state i st s) ! j) = cc_start (dr_calls s ! j)"
  "cc_deadline (dr_calls (set_state i st s) ! j) = cc_deadline (dr_calls s ! j)"
  by (simp_all add: set_state_def state_of_def nth_list_update_if)

lemma release_fields [simp]:
  "d_peers (release i s) = d_peers s" "dr_clock (release i s) = dr_clock s"
  "dr_closed (release i s) = dr_closed s" "dr_dialled (release i s) = dr_dialled s"
  "dr_calls (release i s) = dr_calls s" "state_of (release i s) j = state_of s j"
  "dr_holder (release i s) =
     (if dr_holder s (peer_of s i) = Some i then (dr_holder s)(peer_of s i := None) else dr_holder s)"
  by (auto simp: release_def Let_def state_of_def)

lemma state_of_cong: "dr_calls s' = dr_calls s \<Longrightarrow> state_of s' = state_of s"
  by (simp add: state_of_def fun_eq_iff)

lemma state_of_updates [simp]:
  "state_of (s\<lparr>dr_holder := h\<rparr>) = state_of s" "state_of (s\<lparr>dr_closed := x\<rparr>) = state_of s"
  "state_of (s\<lparr>d_peers := ps\<rparr>) = state_of s" "state_of (s\<lparr>dr_dialled := ds\<rparr>) = state_of s"
  "state_of (s\<lparr>dr_clock := t\<rparr>) = state_of s"
  by (rule state_of_cong, simp)+

lemma state_of_length: "state_of s i = Some st \<Longrightarrow> i < length (dr_calls s)"
  by (simp add: state_of_def split: if_splits)

text \<open>The connections made to one peer, oldest first.\<close>

definition dialled_to :: "'c dial_run \<Rightarrow> endpoint_id \<Rightarrow> 'c list" where
  "dialled_to s p = map snd (filter (\<lambda>e. fst e = p) (dr_dialled s))"

definition newest_to :: "'c dial_run \<Rightarrow> endpoint_id \<Rightarrow> 'c option" where
  "newest_to s p = (if dialled_to s p = [] then None else Some (last (dialled_to s p)))"

lemma dialled_to_cong: "dr_dialled s' = dr_dialled s \<Longrightarrow> dialled_to s' = dialled_to s"
  by (simp add: dialled_to_def fun_eq_iff)

lemma dialled_to_append:
  "dr_dialled s' = dr_dialled s @ [(q, c)] \<Longrightarrow>
     dialled_to s' p = dialled_to s p @ (if p = q then [c] else [])"
  by (simp add: dialled_to_def)

lemma newest_to_cong: "dr_dialled s' = dr_dialled s \<Longrightarrow> newest_to s' = newest_to s"
  by (simp add: newest_to_def dialled_to_def fun_eq_iff)

text \<open>Reusing lets go of a mutex that nobody waits behind any more.\<close>

lemma lock_cell_cases:
  obtains
    (reuses) c where "d_peers s (peer_of s i) = Some (Some c)" "\<not> dr_closed s c"
      "lock_cell i s = set_state i (Got (Ok (c, True))) s"
  | (must_dial) "\<And>c. d_peers s (peer_of s i) = Some (Some c) \<Longrightarrow> dr_closed s c"
      "lock_cell i s = set_state i Dialling (s\<lparr>dr_holder := (dr_holder s)(peer_of s i := Some i)\<rparr>)"
proof (cases "Option.bind (d_peers s (peer_of s i)) id")
  case None
  then have "d_peers s (peer_of s i) \<noteq> Some (Some c)" for c by auto
  then show thesis
    using None by (intro must_dial) (simp_all add: lock_cell_def Let_def)
next
  case (Some c)
  then have c: "d_peers s (peer_of s i) = Some (Some c)"
    by (cases "d_peers s (peer_of s i)") auto
  show thesis
  proof (cases "dr_closed s c")
    case True
    then show thesis using c by (intro must_dial) (simp_all add: lock_cell_def Let_def)
  next
    case False
    then show thesis using c by (intro reuses [of c]) (simp_all add: lock_cell_def Let_def)
  qed
qed

section \<open>Invariants\<close>

text \<open>A mutex is held by exactly the call that is dialing its peer.\<close>

definition inv_mutex :: "'c dial_run \<Rightarrow> bool" where
  "inv_mutex s \<longleftrightarrow> (\<forall>p i. dr_holder s p = Some i \<longleftrightarrow> state_of s i = Some Dialling \<and> peer_of s i = p)"

text \<open>The cells are those of the configured peers and hold the newest connection.\<close>

definition inv_cells :: "endpoint_id list \<Rightarrow> 'c dial_run \<Rightarrow> bool" where
  "inv_cells ids s \<longleftrightarrow>
     (\<forall>p. d_peers s p = (if p \<in> set ids then Some (newest_to s p) else None))
     \<and> (\<forall>i. state_of s i \<in> {Some Queued, Some Dialling} \<longrightarrow> peer_of s i \<in> set ids)"

text \<open>Only a connection that has closed is replaced, and no connection is made twice.\<close>

definition inv_replaced :: "'c dial_run \<Rightarrow> bool" where
  "inv_replaced s \<longleftrightarrow>
     (\<forall>p. (\<forall>c \<in> set (butlast (dialled_to s p)). dr_closed s c)
        \<and> (dr_holder s p \<noteq> None \<longrightarrow> (\<forall>c \<in> set (dialled_to s p). dr_closed s c)))
     \<and> distinct (map snd (dr_dialled s))"

text \<open>What a call returned is a connection to its peer.\<close>

definition inv_results :: "'c dial_run \<Rightarrow> bool" where
  "inv_results s \<longleftrightarrow>
     (\<forall>i c r. state_of s i = Some (Got (Ok (c, r))) \<longrightarrow> c \<in> set (dialled_to s (peer_of s i)))"

text \<open>
  The ways a step changes the calls: one begins, starts to dial, or ends and lets go of its
  mutex, with or without a new connection; the other steps leave the calls alone.
\<close>

lemma dial_step_shapes:
  assumes "dial_step s a s'"
  obtains
    (begins) p deadline where "s' = begin_connection p deadline s" "a = BeginCall p deadline"
  | (starts) i where "state_of s i = Some Queued" "dr_holder s (peer_of s i) = None"
      "\<And>c. d_peers s (peer_of s i) = Some (Some c) \<Longrightarrow> dr_closed s c"
      "s' = set_state i Dialling (s\<lparr>dr_holder := (dr_holder s)(peer_of s i := Some i)\<rparr>)" "a = Lock i"
  | (reuses) i c where "state_of s i = Some Queued" "dr_holder s (peer_of s i) = None"
      "d_peers s (peer_of s i) = Some (Some c)" "\<not> dr_closed s c"
      "s' = set_state i (Got (Ok (c, True))) (release i s)" "a = Lock i"
  | (connects) i c where "state_of s i = Some Dialling" "fresh_connection s c"
      "s' = set_state i (Got (Ok (c, False))) (release i
         (s\<lparr>d_peers := (d_peers s)(peer_of s i := Some (Some c)), dr_dialled := dr_dialled s @ [(peer_of s i, c)]\<rparr>))"
      "a = DialOk i c"
  | (fails) i e where "state_of s i \<in> {Some Queued, Some Dialling}"
      "s' = set_state i (Got (Err e)) (release i s)"
      "e = NodeTimeout \<and> a = Expire i \<and> phase_end (dr_calls s ! i) \<le> dr_clock s
       \<or> (\<exists>x. state_of s i = Some Dialling \<and> e = connect_failed x \<and> a = DialErr i x)"
  | (gives_up) i where "state_of s i \<in> {Some Queued, Some Dialling}"
      "s' = set_state i Dropped (release i s)" "a = DropCall i"
  | (closes) c where "c \<in> snd ` set (dr_dialled s)" "s' = s\<lparr>dr_closed := (dr_closed s)(c := True)\<rparr>" "a = Close c"
  | (waits) d where "s' = s\<lparr>dr_clock := dr_clock s + d\<rparr>" "a = Pass d"
  using assms
proof (cases rule: dial_step.cases)
  case (locks i)
  have free: "release i s = s" using locks(4) by (simp add: release_def Let_def)
  show thesis
  proof (cases rule: lock_cell_cases [of s i])
    case (reuses c)
    then show thesis using locks by (intro that(3) [of i c]) (simp_all add: free)
  next
    case must_dial
    then show thesis using locks by (intro that(2) [of i]) simp_all
  qed
next
  case (dials i c)
  then show thesis by (intro connects [of i c]) (simp_all add: dial_succeeds_def Let_def)
next
  case (dial_errs i e)
  then show thesis by (intro fails [of i "connect_failed e"]) (simp_all add: dial_fails_def)
next
  case (expires i)
  then show thesis by (intro fails [of i NodeTimeout]) (simp_all add: connection_expires_def)
next
  case (call_drops i)
  then show thesis by (intro gives_up [of i]) (simp_all add: drop_connection_call_def)
qed (auto intro: begins closes waits)

lemma begin_connection_fields [simp]:
  "d_peers (begin_connection p deadline s) = d_peers s"
  "dr_clock (begin_connection p deadline s) = dr_clock s"
  "dr_holder (begin_connection p deadline s) = dr_holder s"
  "dr_closed (begin_connection p deadline s) = dr_closed s"
  "dr_dialled (begin_connection p deadline s) = dr_dialled s"
  by (simp_all add: begin_connection_def)

lemma state_of_begin:
  "state_of (begin_connection p deadline s) i =
     (if i = length (dr_calls s)
      then Some (if deadline \<le> dr_clock s then Got (Err NodeTimeout)
                 else case d_peers s p of
                   None \<Rightarrow> Got (Err (Invalid (p @ '' is not a configured peer''))) | Some _ \<Rightarrow> Queued)
      else state_of s i)"
  by (auto simp: begin_connection_def state_of_def nth_append)

lemma peer_of_begin:
  "peer_of (begin_connection p deadline s) (length (dr_calls s)) = p"
  "state_of s i = Some st \<Longrightarrow> peer_of (begin_connection p deadline s) i = peer_of s i"
  by (auto simp: begin_connection_def nth_append dest: state_of_length)

lemma dialled_to_same [simp]:
  "dialled_to (set_state i st s) = dialled_to s" "dialled_to (release i s) = dialled_to s"
  "dialled_to (begin_connection p deadline s) = dialled_to s"
  "dialled_to (s\<lparr>dr_holder := h\<rparr>) = dialled_to s" "dialled_to (s\<lparr>dr_closed := x\<rparr>) = dialled_to s"
  "dialled_to (s\<lparr>d_peers := ps\<rparr>) = dialled_to s" "dialled_to (s\<lparr>dr_clock := t\<rparr>) = dialled_to s"
  by (rule dialled_to_cong, simp)+

lemma newest_to_same [simp]:
  "newest_to (set_state i st s) = newest_to s" "newest_to (release i s) = newest_to s"
  "newest_to (begin_connection p deadline s) = newest_to s"
  "newest_to (s\<lparr>dr_holder := h\<rparr>) = newest_to s" "newest_to (s\<lparr>dr_closed := x\<rparr>) = newest_to s"
  "newest_to (s\<lparr>d_peers := ps\<rparr>) = newest_to s" "newest_to (s\<lparr>dr_clock := t\<rparr>) = newest_to s"
  by (rule newest_to_cong, simp)+

subsection \<open>Mutual exclusion\<close>

lemma mutexD: "inv_mutex s \<Longrightarrow> dr_holder s p = Some i \<longleftrightarrow> state_of s i = Some Dialling \<and> peer_of s i = p"
  unfolding inv_mutex_def by blast

lemma mutex_unique:
  assumes "inv_mutex s" "state_of s i = Some Dialling" "state_of s j = Some Dialling" "peer_of s i = peer_of s j"
  shows "i = j"
  using mutexD [OF assms(1), of "peer_of s i"] assms(2-4) by (metis option.inject)

lemma mutex_end:
  assumes "inv_mutex s" "st \<noteq> Dialling" "state_of s i = Some old"
    and "dr_holder t = dr_holder s" "dr_calls t = dr_calls s"
  shows "inv_mutex (set_state i st (release i t))"
proof -
  have "i < length (dr_calls t)" using state_of_length [OF assms(3)] assms(5) by simp
  then have states: "state_of (set_state i st (release i t)) j = (if j = i then Some st else state_of s j)"
    "peer_of (set_state i st (release i t)) j = peer_of s j" for j
    by (simp_all add: assms(5) state_of_cong [OF assms(5)])
  have holder: "dr_holder (set_state i st (release i t)) =
      (if dr_holder s (peer_of s i) = Some i then (dr_holder s)(peer_of s i := None) else dr_holder s)"
    by (simp add: assms(4,5))
  show ?thesis
    unfolding inv_mutex_def states holder
    using assms(2) mutexD [OF assms(1)] by (auto dest: mutex_unique [OF assms(1)])
qed

lemma mutex_step:
  assumes "dial_step s a s'" "inv_mutex s"
  shows "inv_mutex s'"
  using assms(1)
proof (cases rule: dial_step_shapes)
  case (begins p deadline)
  have none: "state_of s (length (dr_calls s)) = None" by (simp add: state_of_def)
  show ?thesis
    unfolding begins inv_mutex_def
    by (simp add: state_of_begin mutexD [OF assms(2)] none split: option.split)
      (metis peer_of_begin(2))
next
  case (starts i)
  have "i < length (dr_calls s)" by (rule state_of_length [OF starts(1)])
  moreover have "dr_holder s (peer_of s i) \<noteq> Some j" for j using starts(2) by simp
  ultimately show ?thesis
    using starts(1) unfolding starts(4) inv_mutex_def
    by (auto simp: mutexD [OF assms(2)])
next
  case (reuses i c)
  show ?thesis unfolding reuses(5) by (rule mutex_end [OF assms(2) _ reuses(1)]) simp_all
next
  case (connects i c)
  show ?thesis unfolding connects(3) by (rule mutex_end [OF assms(2) _ connects(1)]) simp_all
next
  case (fails i e)
  then obtain old where "state_of s i = Some old" by auto
  then show ?thesis unfolding fails(2) by (intro mutex_end [OF assms(2)]) simp_all
next
  case (gives_up i)
  then obtain old where "state_of s i = Some old" by auto
  then show ?thesis unfolding gives_up(2) by (intro mutex_end [OF assms(2)]) simp_all
qed (use assms(2) in \<open>simp_all add: inv_mutex_def\<close>)

subsection \<open>Cells\<close>

lemma cellsD:
  assumes "inv_cells ids s"
  shows "d_peers s p = (if p \<in> set ids then Some (newest_to s p) else None)"
    and "state_of s i = Some Queued \<Longrightarrow> peer_of s i \<in> set ids"
    and "state_of s i = Some Dialling \<Longrightarrow> peer_of s i \<in> set ids"
  using assms unfolding inv_cells_def by auto

lemma newest_in: "newest_to s p = Some c \<Longrightarrow> c \<in> set (dialled_to s p)"
  by (auto simp: newest_to_def split: if_splits)

lemma newest_append:
  "dr_dialled s' = dr_dialled s @ [(q, c)] \<Longrightarrow> newest_to s' = (newest_to s)(q := Some c)"
  by (auto simp: newest_to_def dialled_to_def fun_eq_iff)

lemma cells_end:
  assumes "inv_cells ids s" "st \<noteq> Queued" "st \<noteq> Dialling"
  shows "inv_cells ids (set_state i st (release i s))"
  using assms unfolding inv_cells_def by auto

lemma cells_step:
  assumes "dial_step s a s'" "inv_cells ids s"
  shows "inv_cells ids s'"
  using assms(1)
proof (cases rule: dial_step_shapes)
  case (begins p deadline)
  have "state_of s' i \<in> {Some Queued, Some Dialling} \<Longrightarrow> peer_of s' i \<in> set ids" for i
    using cellsD [OF assms(2)] unfolding begins(1)
    by (cases "i = length (dr_calls s)")
      (auto simp: state_of_begin peer_of_begin split: if_splits option.splits)
  then show ?thesis
    using assms(2) unfolding inv_cells_def begins(1) by simp
next
  case (starts i)
  then show ?thesis
    using assms(2) cellsD(2) [OF assms(2) starts(1)] state_of_length [OF starts(1)]
    unfolding inv_cells_def starts(4) by simp
next
  case (connects i c)
  have newest: "newest_to s' = (newest_to s)(peer_of s i := Some c)"
    by (rule newest_append) (simp add: connects(3))
  have known: "peer_of s i \<in> set ids" by (rule cellsD(3) [OF assms(2) connects(1)])
  have "\<forall>j. state_of s' j \<in> {Some Queued, Some Dialling} \<longrightarrow> peer_of s' j \<in> set ids"
    using assms(2) unfolding inv_cells_def connects(3) by auto
  moreover have "d_peers s' p = (if p \<in> set ids then Some (newest_to s' p) else None)" for p
    using cellsD(1) [OF assms(2), of p] known unfolding newest by (simp add: connects(3))
  ultimately show ?thesis unfolding inv_cells_def by blast
next
  case (closes c)
  show ?thesis using assms(2) unfolding inv_cells_def closes(2) by simp
next
  case (waits d)
  show ?thesis using assms(2) unfolding inv_cells_def waits(1) by simp
qed (use cells_end [OF assms(2)] in simp_all)

subsection \<open>Replacement\<close>

lemma replacedD:
  assumes "inv_replaced s"
  shows "c \<in> set (butlast (dialled_to s p)) \<Longrightarrow> dr_closed s c"
    and "dr_holder s p = Some i \<Longrightarrow> c \<in> set (dialled_to s p) \<Longrightarrow> dr_closed s c"
    and "distinct (map snd (dr_dialled s))"
  using assms unfolding inv_replaced_def by auto

lemma inv_replacedI:
  assumes "\<And>p c. c \<in> set (butlast (dialled_to s p)) \<Longrightarrow> dr_closed s c"
    and "\<And>p i c. dr_holder s p = Some i \<Longrightarrow> c \<in> set (dialled_to s p) \<Longrightarrow> dr_closed s c"
    and "distinct (map snd (dr_dialled s))"
  shows "inv_replaced s"
  using assms unfolding inv_replaced_def by blast

text \<open>Fewer holders and more closed connections keep it.\<close>

lemma replaced_weaken:
  assumes "inv_replaced s" "dr_dialled t = dr_dialled s"
    and "\<And>p i. dr_holder t p = Some i \<Longrightarrow> dr_holder s p = Some i"
    and "\<And>c. dr_closed s c \<Longrightarrow> dr_closed t c"
  shows "inv_replaced t"
proof -
  have same: "dialled_to t = dialled_to s" by (rule dialled_to_cong [OF assms(2)])
  show ?thesis
    using assms(1,3,4) unfolding inv_replaced_def same assms(2) by blast
qed

lemma all_closed_if_newest_closed:
  assumes "inv_replaced s" "\<And>c. newest_to s p = Some c \<Longrightarrow> dr_closed s c" "c \<in> set (dialled_to s p)"
  shows "dr_closed s c"
proof -
  have "dialled_to s p = butlast (dialled_to s p) @ [last (dialled_to s p)]"
    using assms(3) by (intro append_butlast_last_id [symmetric]) auto
  with assms(3) have "c \<in> set (butlast (dialled_to s p)) \<or> c = last (dialled_to s p)"
    by (metis Un_iff empty_iff list.set(1,2) insert_iff set_append)
  moreover have "newest_to s p = Some (last (dialled_to s p))"
    using assms(3) by (auto simp: newest_to_def)
  ultimately show ?thesis using replacedD(1) [OF assms(1)] assms(2) by blast
qed

lemma replaced_step:
  assumes "dial_step s a s'" "inv_replaced s" "inv_mutex s" "inv_cells ids s"
  shows "inv_replaced s'"
  using assms(1)
proof (cases rule: dial_step_shapes)
  case (starts i)
  have cell: "d_peers s (peer_of s i) = Some (newest_to s (peer_of s i))"
    using cellsD(1,2) [OF assms(4)] starts(1) by simp
  have all: "dr_closed s c" if "c \<in> set (dialled_to s (peer_of s i))" for c
    using all_closed_if_newest_closed [OF assms(2) _ that] starts(3) cell by simp
  show ?thesis
    using all assms(2) unfolding starts(4) inv_replaced_def by auto
next
  case (connects i c)
  have held: "dr_holder s (peer_of s i) = Some i"
    using connects(1) by (simp add: mutexD [OF assms(3)])
  have dialled: "dialled_to s' p = dialled_to s p @ (if p = peer_of s i then [c] else [])" for p
    by (rule dialled_to_append) (simp add: connects(3))
  show ?thesis
  proof (rule inv_replacedI)
    fix p x assume x: "x \<in> set (butlast (dialled_to s' p))"
    have "dr_closed s x"
    proof (cases "p = peer_of s i")
      case True
      with x have "x \<in> set (dialled_to s (peer_of s i))" by (simp add: dialled)
      then show ?thesis by (rule replacedD(2) [OF assms(2) held])
    next
      case False
      with x show ?thesis by (simp add: dialled replacedD(1) [OF assms(2)])
    qed
    then show "dr_closed s' x" by (simp add: connects(3))
  next
    fix p j x assume h: "dr_holder s' p = Some j" "x \<in> set (dialled_to s' p)"
    have p: "p \<noteq> peer_of s i" "dr_holder s p = Some j"
      using h(1) held by (auto simp: connects(3) split: if_splits)
    then have "x \<in> set (dialled_to s p)" using h(2) by (simp add: dialled)
    then have "dr_closed s x" by (rule replacedD(2) [OF assms(2) p(2)])
    then show "dr_closed s' x" by (simp add: connects(3))
  next
    show "distinct (map snd (dr_dialled s'))"
      using replacedD(3) [OF assms(2)] connects(2) by (simp add: connects(3) fresh_connection_def)
  qed
qed (rule replaced_weaken [OF assms(2)]; simp split: if_splits)+

subsection \<open>Results\<close>

lemma resultsD:
  "inv_results s \<Longrightarrow> state_of s i = Some (Got (Ok (c, r))) \<Longrightarrow> c \<in> set (dialled_to s (peer_of s i))"
  unfolding inv_results_def by blast

lemma results_end:
  assumes "inv_results s" "dr_dialled t = dr_dialled s @ new" "dr_calls t = dr_calls s"
    and "\<And>c r. st = Got (Ok (c, r)) \<Longrightarrow> c \<in> set (dialled_to t (peer_of s i))"
  shows "inv_results (set_state i st (release i t))"
proof -
  have more: "set (dialled_to s p) \<subseteq> set (dialled_to t p)" for p
    by (auto simp: dialled_to_def assms(2))
  show ?thesis
    unfolding inv_results_def
  proof (intro allI impI)
    fix j c r assume "state_of (set_state i st (release i t)) j = Some (Got (Ok (c, r)))"
    then have "j = i \<and> st = Got (Ok (c, r)) \<or> state_of s j = Some (Got (Ok (c, r)))"
      by (auto simp: state_of_cong [OF assms(3)] split: if_splits)
    then have "c \<in> set (dialled_to t (peer_of s j))"
      using assms(4) resultsD [OF assms(1)] more by blast
    then show "c \<in> set (dialled_to (set_state i st (release i t)) (peer_of (set_state i st (release i t)) j))"
      by (simp add: assms(3))
  qed
qed

lemma results_step:
  assumes "dial_step s a s'" "inv_results s" "inv_cells ids s"
  shows "inv_results s'"
  using assms(1)
proof (cases rule: dial_step_shapes)
  case (begins p deadline)
  show ?thesis
    unfolding inv_results_def begins(1)
  proof (intro allI impI)
    fix i c r assume "state_of (begin_connection p deadline s) i = Some (Got (Ok (c, r)))"
    then have "state_of s i = Some (Got (Ok (c, r)))"
      by (simp add: state_of_begin split: if_splits option.splits)
    then show "c \<in> set (dialled_to (begin_connection p deadline s) (peer_of (begin_connection p deadline s) i))"
      using resultsD [OF assms(2)] by (simp add: peer_of_begin(2))
  qed
next
  case (starts i)
  show ?thesis
    using assms(2) unfolding starts(4) inv_results_def by simp
next
  case (reuses i c)
  have "c \<in> set (dialled_to s (peer_of s i))"
    using cellsD(1,2) [OF assms(3)] reuses(1,3) by (intro newest_in) simp
  then show ?thesis
    unfolding reuses(5) by (intro results_end [OF assms(2), where new = "[]"]) auto
next
  case (connects i c)
  show ?thesis
    unfolding connects(3)
    by (rule results_end [OF assms(2), where new = "[(peer_of s i, c)]"])
      (auto simp: dialled_to_def)
next
  case (fails i e)
  show ?thesis unfolding fails(2) by (rule results_end [OF assms(2), where new = "[]"]) auto
next
  case (gives_up i)
  show ?thesis unfolding gives_up(2) by (rule results_end [OF assms(2), where new = "[]"]) auto
qed (use assms(2) in \<open>simp_all add: inv_results_def\<close>)

text \<open>Only configured peers are dialled.\<close>

definition inv_configured :: "endpoint_id list \<Rightarrow> 'c dial_run \<Rightarrow> bool" where
  "inv_configured ids s \<longleftrightarrow> fst ` set (dr_dialled s) \<subseteq> set ids"

lemma configured_step:
  assumes "dial_step s a s'" "inv_configured ids s" "inv_cells ids s"
  shows "inv_configured ids s'"
  using assms(1)
proof (cases rule: dial_step_shapes)
  case (connects i c)
  then show ?thesis
    using assms(2) cellsD(3) [OF assms(3) connects(1)] unfolding inv_configured_def by simp
qed (use assms(2) in \<open>simp_all add: inv_configured_def\<close>)

text \<open>A call only waits or dials when it had time left.\<close>

definition inv_budget :: "'c dial_run \<Rightarrow> bool" where
  "inv_budget s \<longleftrightarrow> (\<forall>i. state_of s i \<in> {Some Queued, Some Dialling} \<longrightarrow>
     cc_start (dr_calls s ! i) < cc_deadline (dr_calls s ! i) \<and> cc_start (dr_calls s ! i) \<le> dr_clock s)"

lemma budget_begin:
  assumes "inv_budget s"
  shows "inv_budget (begin_connection p deadline s)"
  unfolding inv_budget_def
proof (intro allI impI)
  fix i assume i: "state_of (begin_connection p deadline s) i \<in> {Some Queued, Some Dialling}"
  show "cc_start (dr_calls (begin_connection p deadline s) ! i) < cc_deadline (dr_calls (begin_connection p deadline s) ! i)
    \<and> cc_start (dr_calls (begin_connection p deadline s) ! i) \<le> dr_clock (begin_connection p deadline s)"
  proof (cases "i = length (dr_calls s)")
    case True
    then show ?thesis
      using i by (auto simp: state_of_begin split: if_splits) (simp_all add: begin_connection_def)
  next
    case False
    then have "state_of s i \<in> {Some Queued, Some Dialling}" using i by (simp add: state_of_begin)
    moreover from this have "i < length (dr_calls s)" by (auto dest: state_of_length)
    ultimately show ?thesis
      using assms unfolding inv_budget_def by (auto simp: begin_connection_def nth_append)
  qed
qed

lemma budget_step:
  assumes "dial_step s a s'" "inv_budget s"
  shows "inv_budget s'"
  using assms(1)
proof (cases rule: dial_step_shapes)
  case (begins p deadline)
  then show ?thesis using budget_begin [OF assms(2)] by simp
next
  case (starts i)
  have "cc_start (dr_calls s ! i) < cc_deadline (dr_calls s ! i) \<and> cc_start (dr_calls s ! i) \<le> dr_clock s"
    using assms(2) starts(1) unfolding inv_budget_def by blast
  then show ?thesis
    using assms(2) unfolding starts(4) inv_budget_def by simp
next
  case (waits d)
  then show ?thesis using assms(2) unfolding inv_budget_def by (auto simp: trans_le_add1)
qed (use assms(2) in \<open>auto simp: inv_budget_def\<close>)

section \<open>Reachable states\<close>

definition dialing_inv :: "endpoint_id list \<Rightarrow> 'c dial_run \<Rightarrow> bool" where
  "dialing_inv ids s \<longleftrightarrow>
     inv_mutex s \<and> inv_cells ids s \<and> inv_replaced s \<and> inv_results s \<and> inv_configured ids s
     \<and> inv_budget s"

lemma dial_run_new_fields [simp]:
  "d_peers (dial_run_new ids now) = (\<lambda>p. if p \<in> set ids then Some None else None)"
  "dr_clock (dial_run_new ids now) = now" "dr_holder (dial_run_new ids now) = (\<lambda>_. None)"
  "dr_closed (dial_run_new ids now) = (\<lambda>_. False)" "dr_calls (dial_run_new ids now) = []"
  "dr_dialled (dial_run_new ids now) = []"
  by (simp_all add: dial_run_new_def dialer_new_def dialer.defs)

lemma dialing_inv_new: "dialing_inv ids (dial_run_new ids now)"
  by (simp add: dialing_inv_def inv_mutex_def inv_cells_def inv_replaced_def inv_results_def
      inv_configured_def inv_budget_def state_of_def dialled_to_def newest_to_def)

lemma dialing_inv_step: "dial_step s a s' \<Longrightarrow> dialing_inv ids s \<Longrightarrow> dialing_inv ids s'"
  unfolding dialing_inv_def
  by (blast intro: mutex_step cells_step replaced_step results_step configured_step budget_step)

lemma dialing_invs:
  assumes "dialing ids s"
  shows "inv_mutex s" "inv_cells ids s" "inv_replaced s" "inv_results s" "inv_configured ids s" "inv_budget s"
proof -
  from assms have "dialing_inv ids s"
    by induction (blast intro: dialing_inv_new dialing_inv_step)+
  then show "inv_mutex s" "inv_cells ids s" "inv_replaced s" "inv_results s" "inv_configured ids s" "inv_budget s"
    unfolding dialing_inv_def by blast+
qed

lemma open_is_cached:
  assumes "dialing ids s" "c \<in> set (dialled_to s p)" "\<not> dr_closed s c"
  shows "d_peers s p = Some (Some c)" "dr_holder s p = None"
proof -
  note inv = dialing_invs [OF assms(1)]
  have ne: "dialled_to s p \<noteq> []" using assms(2) by auto
  then have "set (dialled_to s p) = insert (last (dialled_to s p)) (set (butlast (dialled_to s p)))"
    by (metis append_butlast_last_id list.simps(15) rotate1.simps(2) set_rotate1)
  then have last: "last (dialled_to s p) = c"
    using replacedD(1) [OF inv(3)] assms(2,3) by auto
  have "p \<in> set ids"
    using ne inv(5) by (auto simp: dialled_to_def inv_configured_def filter_empty_conv)
  then show "d_peers s p = Some (Some c)"
    using cellsD(1) [OF inv(2), of p] ne last by (simp add: newest_to_def)
  show "dr_holder s p = None"
    using replacedD(2) [OF inv(3) _ assms(2)] assms(3) by (cases "dr_holder s p") auto
qed

text \<open>The steps, computed.\<close>

fun dial_act :: "'c dial_run \<Rightarrow> 'c dial_action \<Rightarrow> 'c dial_run option" where
  "dial_act s (BeginCall p deadline) = Some (begin_connection p deadline s)"
| "dial_act s (Lock i) =
     (if state_of s i = Some Queued \<and> dr_holder s (peer_of s i) = None then Some (lock_cell i s) else None)"
| "dial_act s (DialOk i c) =
     (if state_of s i = Some Dialling \<and> fresh_connection s c then Some (dial_succeeds i c s) else None)"
| "dial_act s (DialErr i e) = (if state_of s i = Some Dialling then Some (dial_fails i e s) else None)"
| "dial_act s (Expire i) =
     (if state_of s i \<in> {Some Queued, Some Dialling} \<and> phase_end (dr_calls s ! i) \<le> dr_clock s
      then Some (connection_expires i s) else None)"
| "dial_act s (DropCall i) =
     (if state_of s i \<in> {Some Queued, Some Dialling} then Some (drop_connection_call i s) else None)"
| "dial_act s (Close c) =
     (if c \<in> snd ` set (dr_dialled s) then Some (s\<lparr>dr_closed := (dr_closed s)(c := True)\<rparr>) else None)"
| "dial_act s (Pass d) = Some (s\<lparr>dr_clock := dr_clock s + d\<rparr>)"

lemma dial_act_step: "dial_act s a = Some s' \<Longrightarrow> dial_step s a s'"
  by (cases a) (auto intro: dial_step.intros split: if_splits)

fun dial_acts :: "'c dial_run \<Rightarrow> 'c dial_action list \<Rightarrow> 'c dial_run option" where
  "dial_acts s [] = Some s"
| "dial_acts s (a # as) = (case dial_act s a of Some s' \<Rightarrow> dial_acts s' as | None \<Rightarrow> None)"

lemma dial_acts_reachable: "dialing ids s \<Longrightarrow> dial_acts s as = Some s' \<Longrightarrow> dialing ids s'"
  by (induction as arbitrary: s)
    (auto split: option.splits dest: dial_act_step intro: dialing_steps)

lemmas dial_ops = begin_connection_def lock_cell_def set_state_def dial_succeeds_def dial_fails_def
  connection_expires_def release_def state_of_def fresh_connection_def phase_end_def Let_def

section \<open>Properties\<close>

text \<open>
  C3. Concurrent callers for the same peer share a single dial: in every reachable state, over
  any interleaving, at most one call dials a peer; a connection that has not closed is the
  peer's cached one and nobody is dialing beside it, so there is never a second open one; and
  what a call returned is a connection made to its own, configured peer, each made once.
\<close>

theorem dials_are_shared:
  assumes "dialing ids s"
  shows "(state_of s i = Some Dialling \<and> state_of s j = Some Dialling \<and> peer_of s i = peer_of s j \<longrightarrow> i = j)
    \<and> (c \<in> set (dialled_to s p) \<and> \<not> dr_closed s c \<longrightarrow>
         d_peers s p = Some (Some c) \<and> (\<forall>k. state_of s k = Some Dialling \<longrightarrow> peer_of s k \<noteq> p))
    \<and> (state_of s i = Some (Got (Ok (c, reused))) \<longrightarrow>
         c \<in> set (dialled_to s (peer_of s i)) \<and> peer_of s i \<in> set ids)
    \<and> distinct (map snd (dr_dialled s))"
proof (intro conjI impI)
  note inv = dialing_invs [OF assms]
  show "i = j" if "state_of s i = Some Dialling \<and> state_of s j = Some Dialling \<and> peer_of s i = peer_of s j"
    using mutex_unique [OF inv(1)] that by blast
  show "d_peers s p = Some (Some c)" if "c \<in> set (dialled_to s p) \<and> \<not> dr_closed s c"
    using open_is_cached(1) [OF assms] that by blast
  show "\<forall>k. state_of s k = Some Dialling \<longrightarrow> peer_of s k \<noteq> p" if "c \<in> set (dialled_to s p) \<and> \<not> dr_closed s c"
    using open_is_cached(2) [OF assms, of c p] that mutexD [OF inv(1), of p] by force
  show got: "c \<in> set (dialled_to s (peer_of s i))" if "state_of s i = Some (Got (Ok (c, reused)))"
    by (rule resultsD [OF inv(4) that])
  show "peer_of s i \<in> set ids" if "state_of s i = Some (Got (Ok (c, reused)))"
    using got [OF that] inv(5) by (auto simp: dialled_to_def inv_configured_def)
  show "distinct (map snd (dr_dialled s))" by (rule replacedD(3) [OF inv(3)])
qed

text \<open>In the example two calls ask for the peer \<open>k\<close> at the same time, and a third much later.\<close>

definition sample_dialing :: "nat dial_run" where
  "sample_dialing = the (dial_acts (dial_run_new [''k''] 0)
     [BeginCall ''k'' 110000, BeginCall ''k'' 110000, Lock 0, Pass 20, DialOk 0 7, Lock 1])"

lemma sample_dialing_run:
  "dial_acts (dial_run_new [''k''] 0)
     [BeginCall ''k'' 110000, BeginCall ''k'' 110000, Lock 0, Pass 20, DialOk 0 7, Lock 1] = Some sample_dialing"
  by (simp add: sample_dialing_def dial_ops)

lemma sample_dialing_reachable: "dialing [''k''] sample_dialing"
  by (rule dial_acts_reachable [OF dialing_starts sample_dialing_run])

lemma sample_dialing_states:
  "state_of sample_dialing 0 = Some (Got (Ok (7, False)))" "state_of sample_dialing 1 = Some (Got (Ok (7, True)))"
  "dr_dialled sample_dialing = [(''k'', 7)]" "\<not> dr_closed sample_dialing 7"
  by (simp_all add: sample_dialing_def dial_ops)

theorem dials_are_shared_witness:
  "d_peers sample_dialing ''k'' = Some (Some 7) \<and> peer_of sample_dialing 1 \<in> set [''k'']"
  using dials_are_shared [OF sample_dialing_reachable, of 1 0 7 "''k''" True] sample_dialing_states
  by (simp add: dialled_to_def)

text \<open>
  What the function \<open>connection\<close> is told of a call: when it began, whether its turn at the mutex
  came in time, what its dial answered, and which connections have closed. The rest of an
  attempt is not looked at.
\<close>

definition phase_env :: "instant \<Rightarrow> bool \<Rightarrow> ('c \<Rightarrow> bool) \<Rightarrow> ('c, connect_error) result timed \<Rightarrow> 'c attempt" where
  "phase_env start locked closed dial =
     \<lparr>at_start = start, at_others = id, at_locked = locked, at_closed = closed, at_dial = dial,
      at_open_start = start, at_open = Elapsed, at_rpc_start = start, at_rpc_expired = True,
      at_writer = open_writer, at_finish = Ok (), at_reader = reader_of [], at_closed_after = closed\<rparr>"

definition returns :: "'c dial_run \<Rightarrow> 'c dial_run \<Rightarrow> nat \<Rightarrow> ('c \<times> bool, node_error) result \<Rightarrow> bool" where
  "returns s s' i r \<longleftrightarrow> state_of s' i = Some (Got r) \<and> (\<forall>q. state_of s i \<noteq> Some (Got q))"

definition dialer_of :: "'c dial_run \<Rightarrow> 'c dialer" where
  "dialer_of s = \<lparr>d_peers = d_peers s\<rparr>"

lemma connection_phase:
  assumes "start < deadline"
  shows "d_peers d p = Some (Some c) \<Longrightarrow> \<not> closed c \<Longrightarrow>
      connection deadline (phase_env start True closed dial) \<lparr>ea_id = p, ea_addrs = addrs\<rparr> d =
        (Ok (c, True), d\<lparr>d_peers := (d_peers d)(p := Some (Some c))\<rparr>, wait_event deadline DIAL_TIMEOUT start)"
    and "d_peers d p = Some cell \<Longrightarrow> (\<And>c. cell = Some c \<Longrightarrow> closed c) \<Longrightarrow>
      connection deadline (phase_env start True closed dial) \<lparr>ea_id = p, ea_addrs = addrs\<rparr> d =
        (case dial of
           Elapsed \<Rightarrow> (Err NodeTimeout, d\<lparr>d_peers := (d_peers d)(p := Some cell)\<rparr>,
             wait_event deadline DIAL_TIMEOUT start @ [Dialled p])
         | Completed (Err e) \<Rightarrow> (Err (connect_failed e), d\<lparr>d_peers := (d_peers d)(p := Some cell)\<rparr>,
             wait_event deadline DIAL_TIMEOUT start @ [Dialled p])
         | Completed (Ok c) \<Rightarrow> (Ok (c, False), d\<lparr>d_peers := (d_peers d)(p := Some (Some c))\<rparr>,
             wait_event deadline DIAL_TIMEOUT start @ [Dialled p]))"
    and "d_peers d p = Some cell \<Longrightarrow>
      connection deadline (phase_env start False closed dial) \<lparr>ea_id = p, ea_addrs = addrs\<rparr> d =
        (Err NodeTimeout, d\<lparr>d_peers := (d_peers d)(p := Some cell)\<rparr>, wait_event deadline DIAL_TIMEOUT start)"
  using assms
  by (auto simp: connection_def phase_env_def Let_def split: option.split timed.split result.split)

lemma returns_end:
  assumes "returns s (set_state i st (release i t)) j r" "dr_calls t = dr_calls s"
  shows "j = i \<and> st = Got r"
  using assms(1) by (auto simp: returns_def state_of_cong [OF assms(2)] split: if_splits)

text \<open>How a call that begins, or that fails, matches one call of \<open>connection\<close>.\<close>

lemma refused_call:
  assumes "deadline \<le> start \<and> r = Err NodeTimeout
      \<or> start < deadline \<and> d_peers d p = None \<and> r = Err (Invalid (p @ '' is not a configured peer''))"
  shows "\<exists>tr. connection deadline (phase_env start locked closed dial) \<lparr>ea_id = p, ea_addrs = addrs\<rparr> d = (r, d, tr)"
  using assms by (auto simp: connection_def phase_env_def)

lemma failed_call:
  assumes "start < deadline" "d_peers d p = Some cell"
    and "e = NodeTimeout \<or> (\<exists>x. e = connect_failed x) \<and> (\<forall>c. cell = Some c \<longrightarrow> closed c)"
  shows "\<exists>locked dial tr. connection deadline (phase_env start locked closed dial)
      \<lparr>ea_id = p, ea_addrs = addrs\<rparr> d = (Err e, d, tr)"
  using assms(3)
proof
  assume "e = NodeTimeout"
  then show ?thesis
    using connection_phase(3) [OF assms(1), of d p cell closed] assms(2)
    by (intro exI [of _ False]) (auto simp: fun_upd_idem)
next
  assume "(\<exists>x. e = connect_failed x) \<and> (\<forall>c. cell = Some c \<longrightarrow> closed c)"
  then obtain x where "e = connect_failed x" "\<And>c. cell = Some c \<Longrightarrow> closed c" by blast
  then show ?thesis
    using connection_phase(2) [OF assms(1), of d p cell closed "Completed (Err x)"] assms(2)
    by (intro exI [of _ True] exI [of _ "Completed (Err x)"]) (simp add: fun_upd_idem)
qed

lemma connection_returns:
  fixes s :: "'c dial_run"
  assumes "dialing ids s" "dial_step s a s'" "returns s s' i r"
  shows "\<exists>locked dial tr. connection (cc_deadline (dr_calls s' ! i))
           (phase_env (cc_start (dr_calls s' ! i)) locked (dr_closed s) dial)
           \<lparr>ea_id = peer_of s' i, ea_addrs = addrs\<rparr> (dialer_of s) = (r, dialer_of s', tr)"
proof -
  note inv = dialing_invs [OF assms(1)]
  have cell: "d_peers s (peer_of s i) = Some (newest_to s (peer_of s i))"
    if "state_of s i \<in> {Some Queued, Some Dialling}"
    using cellsD [OF inv(2)] that by auto
  have time: "cc_start (dr_calls s ! i) < cc_deadline (dr_calls s ! i)"
    if "state_of s i \<in> {Some Queued, Some Dialling}"
    using inv(6) that unfolding inv_budget_def by blast
  have closed: "dr_closed s c" if "state_of s i = Some Dialling" "newest_to s (peer_of s i) = Some c" for c
    using replacedD(2) [OF inv(3), of "peer_of s i" i c] newest_in [OF that(2)] that(1)
    by (simp add: mutexD [OF inv(1)])
  from assms(2) show ?thesis
  proof (cases rule: dial_step_shapes)
    case (begins p deadline)
    then have i: "i = length (dr_calls s)"
      using assms(3) by (auto simp: returns_def state_of_begin split: if_splits)
    have "deadline \<le> dr_clock s \<and> r = Err NodeTimeout
      \<or> dr_clock s < deadline \<and> d_peers s p = None \<and> r = Err (Invalid (p @ '' is not a configured peer''))"
      using assms(3) unfolding begins(1) i
      by (simp add: returns_def state_of_begin split: if_splits option.splits)
    moreover have "cc_start (dr_calls s' ! i) = dr_clock s" "cc_deadline (dr_calls s' ! i) = deadline"
      "peer_of s' i = p" "dialer_of s' = dialer_of s"
      by (simp_all add: begins(1) i begin_connection_def dialer_of_def)
    ultimately show ?thesis
      using refused_call [of deadline "dr_clock s" r "dialer_of s" p] by (simp add: dialer_of_def)
  next
    case (starts j)
    then show ?thesis using assms(3) by (auto simp: returns_def split: if_splits)
  next
    case (reuses j c)
    with assms(3) have "j = i" "r = Ok (c, True)"
      using returns_end [of s j "Got (Ok (c, True))" s i r] by simp_all
    then show ?thesis
      using connection_phase(1) [OF time, of "dialer_of s" "peer_of s i" c "dr_closed s"] reuses
      by (intro exI [of _ True]) (auto simp: dialer_of_def fun_upd_idem)
  next
    case (connects j c)
    have j: "j = i" "r = Ok (c, False)"
      using returns_end [OF assms(3) [unfolded connects(3)]] by simp_all
    then show ?thesis
      using connection_phase(2) [OF time, of "dialer_of s" "peer_of s i" "newest_to s (peer_of s i)"
          "dr_closed s" "Completed (Ok c)"] connects cell closed
      by (intro exI [of _ True] exI [of _ "Completed (Ok c)"]) (simp add: dialer_of_def)
  next
    case (fails j e)
    with assms(3) have j: "j = i" "r = Err e"
      using returns_end [of s j "Got (Err e)" s i r] by simp_all
    then have same: "dialer_of s' = dialer_of s" "peer_of s' i = peer_of s i"
      "cc_start (dr_calls s' ! i) = cc_start (dr_calls s ! i)"
      "cc_deadline (dr_calls s' ! i) = cc_deadline (dr_calls s ! i)"
      by (simp_all add: fails(2) dialer_of_def)
    have waiting: "state_of s i \<in> {Some Queued, Some Dialling}" using fails(1) j by simp
    have "e = NodeTimeout \<or> (\<exists>x. e = connect_failed x)
        \<and> (\<forall>c. newest_to s (peer_of s i) = Some c \<longrightarrow> dr_closed s c)"
      using fails(3) j(1) closed by blast
    then show ?thesis
      using failed_call [OF time [OF waiting], of "dialer_of s" "peer_of s i"] cell [OF waiting]
      unfolding same j(2) by (simp add: dialer_of_def)
  next
    case (gives_up j)
    then show ?thesis using assms(3) returns_end [of s j Dropped s i r] by simp
  qed (use assms(3) in \<open>auto simp: returns_def\<close>)
qed

text \<open>
  C4. Whatever the interleaving, each call does what the function \<open>connection\<close> does: the step in
  which a call returns gives the result, and leaves the dialer, that \<open>connection\<close> gives on the
  dialer as it is then, with the call's own start and deadline; no other step of any call
  changes the dialer. What a single call is proved to do therefore holds for concurrent calls.
\<close>

theorem concurrent_calls_refine_connection:
  assumes "dialing ids s" "dial_step s a s'"
  shows "(\<forall>i r. returns s s' i r \<longrightarrow>
      (\<exists>locked dial tr. connection (cc_deadline (dr_calls s' ! i))
           (phase_env (cc_start (dr_calls s' ! i)) locked (dr_closed s) dial)
           \<lparr>ea_id = peer_of s' i, ea_addrs = addrs\<rparr> (dialer_of s) = (r, dialer_of s', tr)))
    \<and> ((\<forall>i r. \<not> returns s s' i r) \<longrightarrow> dialer_of s' = dialer_of s)"
proof (intro conjI allI impI)
  fix i r assume "returns s s' i r"
  then show "\<exists>locked dial tr. connection (cc_deadline (dr_calls s' ! i))
           (phase_env (cc_start (dr_calls s' ! i)) locked (dr_closed s) dial)
           \<lparr>ea_id = peer_of s' i, ea_addrs = addrs\<rparr> (dialer_of s) = (r, dialer_of s', tr)"
    by (rule connection_returns [OF assms])
next
  assume none: "\<forall>i r. \<not> returns s s' i r"
  from assms(2) show "dialer_of s' = dialer_of s"
  proof (cases rule: dial_step_shapes)
    case (connects i c)
    then have "returns s s' i (Ok (c, False))"
      using state_of_length [OF connects(1)] by (simp add: returns_def)
    then show ?thesis using none by blast
  qed (simp_all add: dialer_of_def)
qed

definition sample_dialed :: "nat dial_run" where
  "sample_dialed = the (dial_acts (dial_run_new [''k''] 0)
     [BeginCall ''k'' 110000, BeginCall ''k'' 110000, Lock 0, Pass 20, DialOk 0 7])"

lemma sample_dialed_reachable: "dialing [''k''] sample_dialed"
proof -
  have "dial_acts (dial_run_new [''k''] 0)
     [BeginCall ''k'' 110000, BeginCall ''k'' 110000, Lock 0, Pass 20, DialOk 0 7] = Some sample_dialed"
    by (simp add: sample_dialed_def dial_ops)
  then show ?thesis by (rule dial_acts_reachable [OF dialing_starts])
qed

lemma sample_dialed_facts:
  "dial_act sample_dialed (Lock 1) = Some sample_dialing"
  "returns sample_dialed sample_dialing 1 (Ok (7, True))"
  "dialer_of sample_dialed = \<lparr>d_peers = [''k'' \<mapsto> Some 7]\<rparr>"
  "cc_start (dr_calls sample_dialing ! 1) = 0" "cc_deadline (dr_calls sample_dialing ! 1) = 110000"
  by (simp_all add: sample_dialed_def sample_dialing_def dial_ops returns_def dialer_of_def fun_eq_iff)

theorem concurrent_calls_refine_connection_witness:
  "\<exists>env d' tr. connection 110000 env \<lparr>ea_id = peer_of sample_dialing 1, ea_addrs = []\<rparr>
     \<lparr>d_peers = [''k'' \<mapsto> Some (7 :: nat)]\<rparr> = (Ok (7, True), d', tr)"
proof -
  note step = dial_act_step [OF sample_dialed_facts(1)]
  from conjunct1 [OF concurrent_calls_refine_connection [OF sample_dialed_reachable step, of "[]"],
      rule_format, OF sample_dialed_facts(2)]
  show ?thesis unfolding sample_dialed_facts(3-) by blast
qed

lemma phase_end_bounds:
  "phase_end k \<le> cc_start k + DIAL_TIMEOUT" "cc_start k \<le> cc_deadline k \<Longrightarrow> phase_end k \<le> cc_deadline k"
  by (auto simp: phase_end_def min_def)

lemma dialling_ends:
  assumes "dial_step s a s'" "state_of s j = Some Dialling" "state_of s' j \<noteq> Some Dialling"
  obtains st t where "s' = set_state j st (release j t)" "dr_calls t = dr_calls s" "dr_holder t = dr_holder s"
  using assms(1)
proof (cases rule: dial_step_shapes)
  case (begins p deadline)
  then show thesis
    using assms(2,3) state_of_length [OF assms(2)] by (simp add: state_of_begin)
next
  case (connects i c)
  then have "i = j" using assms(2,3) by (auto split: if_splits)
  with connects show thesis by (intro that [OF connects(3) [unfolded \<open>i = j\<close>]]) simp_all
next
  case (fails i e)
  then have "i = j" using assms(2,3) by (auto split: if_splits)
  with fails show thesis by (intro that) auto
next
  case (gives_up i)
  then have "i = j" using assms(2,3) by (auto split: if_splits)
  with gives_up show thesis by (intro that) auto
qed (use assms(2,3) in \<open>auto split: if_splits\<close>)


definition sample_waiting :: "nat dial_run" where
  "sample_waiting = the (dial_acts (dial_run_new [''k'', ''m''] 0)
     [BeginCall ''k'' 110000, BeginCall ''m'' 110000, Lock 0])"


end
