(* ===== verification/Scheduler.thy ===== *)
theory Scheduler
  imports Sampling
begin

text \<open>
  The scheduler (\<open>scheduler.rs\<close>): one loop per configured kind, each either asleep until a
  deadline it has read or running a probe. It is composed with the tasks of the sampler, so
  that manual requests move its deadlines. The loops start once the endpoint is online, or
  after a bounded wait.
\<close>

section \<open>Which kinds run\<close>

text \<open>\<open>BTreeSet\<close>: sorted, without duplicates.\<close>

definition scheduled_kinds :: "daemon_config \<Rightarrow> probe_kind list" where
  "scheduled_kinds settings = bt_keys (fold (\<lambda>k. bt_insert k ()) (dc_probes settings) bt_empty)"

lemma fold_insert_keys:
  "bt_wf m \<Longrightarrow> bt_wf (fold (\<lambda>k. bt_insert k ()) ks m)
    \<and> set (bt_keys (fold (\<lambda>k. bt_insert k ()) ks m)) = set ks \<union> set (bt_keys m)"
proof (induction ks arbitrary: m)
  case Nil
  then show ?case by simp
next
  case (Cons k ks)
  then show ?case using bt_wf_insert [of m k "()"] bt_insert_keys [of k "()" m]
    by (auto simp: bt_keys_def)
qed

lemma scheduled_kinds_set:
  "set (scheduled_kinds settings) = set (dc_probes settings)"
  "sorted_wrt (<) (scheduled_kinds settings)" "distinct (scheduled_kinds settings)"
  using fold_insert_keys [OF bt_wf_empty, of "dc_probes settings"]
  by (simp_all add: scheduled_kinds_def bt_wf_def bt_keys_def bt_empty_def strict_sorted_iff)

section \<open>One loop\<close>

text \<open>
  \<open>Asleep due seen\<close>: the select between a change of the deadline, last seen as \<open>seen\<close>, and the
  timer set to \<open>due\<close>. \<open>Probing i\<close>: inside \<open>run_due\<close>, as task \<open>i\<close>.
\<close>

datatype loop = Reading | Asleep instant "instant option" | Probing nat

definition due_at :: "instant option \<Rightarrow> instant \<Rightarrow> instant" where
  "due_at next now = (case next of Some due \<Rightarrow> due | None \<Rightarrow> now)"

record node_run =
  nr_tasks :: runtime
  nr_loops :: "probe_kind \<Rightarrow> loop option"

definition node_start :: "daemon_config \<Rightarrow> instant \<Rightarrow> node_run" where
  "node_start settings now =
     \<lparr>nr_tasks = runtime_new settings now,
      nr_loops = (\<lambda>k. if k \<in> set (scheduled_kinds settings) then Some Reading else None)\<rparr>"

abbreviation next_of :: "node_run \<Rightarrow> probe_kind \<Rightarrow> instant option" where
  "next_of n k \<equiv> sl_next (sm_slots (nr_tasks n) k)"

definition set_loop :: "probe_kind \<Rightarrow> loop \<Rightarrow> node_run \<Rightarrow> node_run" where
  "set_loop k l n = n\<lparr>nr_loops := (nr_loops n)(k := Some l)\<rparr>"

definition loop_read :: "probe_kind \<Rightarrow> node_run \<Rightarrow> node_run" where
  "loop_read k n = set_loop k (Asleep (due_at (next_of n k) (rt_clock (nr_tasks n))) (next_of n k)) n"

definition loop_fire :: "probe_kind \<Rightarrow> node_run \<Rightarrow> node_run" where
  "loop_fire k n =
     set_loop k (Probing (length (rt_tasks (nr_tasks n))))
       (n\<lparr>nr_tasks := sample_begin k True (nr_tasks n)\<rparr>)"

text \<open>
  \<open>run\<close>: the loops start once the endpoint is online, or after \<open>ONLINE_WAIT\<close> without a relay;
  \<open>online_after\<close> is how long the endpoint takes, if it ever does.
\<close>

definition ONLINE_WAIT :: duration where
  "ONLINE_WAIT = from_secs 10"

datatype online_log = EndpointOnline | NoRelayReachable nat

definition wait_online :: "duration option \<Rightarrow> duration \<times> online_log" where
  "wait_online online_after =
     (case online_after of
        Some d \<Rightarrow> if d \<le> ONLINE_WAIT then (d, EndpointOnline)
                  else (ONLINE_WAIT, NoRelayReachable (as_secs ONLINE_WAIT))
      | None \<Rightarrow> (ONLINE_WAIT, NoRelayReachable (as_secs ONLINE_WAIT)))"

definition scheduler_run :: "daemon_config \<Rightarrow> instant \<Rightarrow> duration option \<Rightarrow> node_run" where
  "scheduler_run settings now online_after =
     (let n = node_start settings now
      in n\<lparr>nr_tasks := (nr_tasks n)\<lparr>rt_clock := rt_clock (nr_tasks n) + fst (wait_online online_after)\<rparr>\<rparr>)"

text \<open>A step of the loop of one kind.\<close>

inductive loop_step :: "probe_kind \<Rightarrow> node_run \<Rightarrow> node_run \<Rightarrow> bool" for k where
  reads: "nr_loops n k = Some Reading \<Longrightarrow> loop_step k n (loop_read k n)"
| changed: "nr_loops n k = Some (Asleep due seen) \<Longrightarrow> next_of n k \<noteq> seen \<Longrightarrow>
    loop_step k n (set_loop k Reading n)"
| fires: "nr_loops n k = Some (Asleep due seen) \<Longrightarrow> due \<le> rt_clock (nr_tasks n) \<Longrightarrow>
    loop_step k n (loop_fire k n)"
| probed: "nr_loops n k = Some (Probing i) \<Longrightarrow> i < length (rt_tasks (nr_tasks n)) \<Longrightarrow>
    rt_tasks (nr_tasks n) ! i = Returned round x \<Longrightarrow> loop_step k n (set_loop k Reading n)"

text \<open>
  A step of the node: a step of a loop, or of any task that is not a scheduled probe being
  dropped, since the loop owns that one.
\<close>

inductive node_step :: "node_run \<Rightarrow> node_run \<Rightarrow> bool" where
  task: "sampler_step (nr_tasks n) a t \<Longrightarrow>
    (\<And>i k. a = Drop i \<Longrightarrow> nr_loops n k \<noteq> Some (Probing i)) \<Longrightarrow> node_step n (n\<lparr>nr_tasks := t\<rparr>)"
| loops: "loop_step k n n' \<Longrightarrow> node_step n n'"

inductive node_reachable :: "daemon_config \<Rightarrow> node_run \<Rightarrow> bool" for settings where
  start: "node_reachable settings (node_start settings now)"
| step: "node_reachable settings n \<Longrightarrow> node_step n n' \<Longrightarrow> node_reachable settings n'"

inductive_cases node_stepE: "node_step n n'"
inductive_cases loop_stepE: "loop_step k n n'"

text \<open>
  The wait is one of the passings of time in between, so everything shown of reachable nodes
  holds of the scheduler as it starts, whatever manual requests are served meanwhile.
\<close>

lemma wait_online_bounded: "fst (wait_online online_after) \<le> ONLINE_WAIT"
  by (simp add: wait_online_def split: option.split)

lemma scheduler_run_reachable: "node_reachable settings (scheduler_run settings now online_after)"
proof -
  have "node_step (node_start settings now) (scheduler_run settings now online_after)"
    unfolding scheduler_run_def Let_def by (rule node_step.task [OF ticks]) simp
  then show ?thesis by (rule node_reachable.step [OF node_reachable.start])
qed

lemma scheduler_starts_in_time:
  assumes "nr_loops (scheduler_run settings now online_after) k = Some l"
  shows "l = Reading" "k \<in> set (scheduled_kinds settings)"
    "rt_clock (nr_tasks (scheduler_run settings now online_after)) \<le> now + ONLINE_WAIT"
  using assms wait_online_bounded [of online_after]
  by (simp_all add: scheduler_run_def Let_def node_start_def runtime_new_def sampler.defs split: if_splits)

section \<open>The loops and the sampler\<close>

text \<open>A sleeping loop never set its timer past the deadline it has seen.\<close>

definition inv_loops :: "daemon_config \<Rightarrow> node_run \<Rightarrow> bool" where
  "inv_loops settings n \<longleftrightarrow>
     (\<forall>k. nr_loops n k \<noteq> None \<longleftrightarrow> k \<in> set (dc_probes settings))
     \<and> (\<forall>k due seen. nr_loops n k = Some (Asleep due seen) \<longrightarrow>
          due \<le> rt_clock (nr_tasks n) \<or> seen = Some due)"

lemma clock_step: "sampler_step s a t \<Longrightarrow> rt_clock s \<le> rt_clock t"
  by (cases rule: sampler_step.cases)
    (auto simp: sample_begin_def sample_publish_def sample_wake_def sample_drop_def Let_def
      split: option.split task.split if_splits)

lemma reachable_step: "reachable settings s \<Longrightarrow> sampler_step s a t \<Longrightarrow> reachable settings t"
  unfolding reachable_def by (blast intro: run_snoc)

lemma loop_step_tasks:
  "loop_step k n n' \<Longrightarrow> nr_tasks n' = nr_tasks n \<or> nr_tasks n' = sample_begin k True (nr_tasks n)"
  by (erule loop_stepE) (simp_all add: loop_read_def loop_fire_def set_loop_def)

lemma node_reachable_tasks: "node_reachable settings n \<Longrightarrow> reachable settings (nr_tasks n)"
proof (induction rule: node_reachable.induct)
  case (start now)
  show ?case unfolding reachable_def node_start_def by (auto intro: run_nil)
next
  case (step n n')
  from step.hyps(2) show ?case
  proof (cases rule: node_step.cases)
    case (task a t)
    then show ?thesis using step.IH by (simp add: reachable_step)
  next
    case (loops k)
    then have "nr_tasks n' = nr_tasks n \<or> nr_tasks n' = sample_begin k True (nr_tasks n)"
      by (rule loop_step_tasks)
    then show ?thesis using step.IH reachable_step [OF _ begins] by auto
  qed
qed

lemma inv_loops_step:
  assumes "node_step n n'" "inv_loops settings n"
  shows "inv_loops settings n'"
  using assms(1)
proof (cases rule: node_step.cases)
  case (task a t)
  then show ?thesis
    using assms(2) clock_step [OF task(2)] by (fastforce simp: inv_loops_def)
next
  case (loops k)
  then show ?thesis
  proof (cases rule: loop_step.cases)
    case reads
    then show ?thesis
      using assms(2) by (auto simp: inv_loops_def loop_read_def set_loop_def due_at_def split: option.split)
  next
    case (changed due seen)
    then show ?thesis using assms(2) by (auto simp: inv_loops_def set_loop_def)
  next
    case (fires due seen)
    have "rt_clock (sample_begin k True (nr_tasks n)) = rt_clock (nr_tasks n)"
      by (simp add: sample_begin_def Let_def split: option.split)
    then show ?thesis
      using assms(2) fires by (auto simp: inv_loops_def loop_fire_def set_loop_def)
  next
    case (probed i round x)
    then show ?thesis using assms(2) by (auto simp: inv_loops_def set_loop_def)
  qed
qed

lemma inv_loops_reachable: "node_reachable settings n \<Longrightarrow> inv_loops settings n"
proof (induction rule: node_reachable.induct)
  case (start now)
  show ?case by (simp add: inv_loops_def node_start_def scheduled_kinds_set)
next
  case (step n n')
  then show ?case using inv_loops_step by blast
qed

text \<open>The deadline of a kind has passed, or was never set.\<close>

definition overdue :: "node_run \<Rightarrow> probe_kind \<Rightarrow> bool" where
  "overdue n k \<longleftrightarrow> (case next_of n k of None \<Rightarrow> True | Some due \<Rightarrow> due \<le> rt_clock (nr_tasks n))"

definition in_round :: "node_run \<Rightarrow> probe_kind \<Rightarrow> bool" where
  "in_round n k \<longleftrightarrow>
     (\<exists>i. nr_loops n k = Some (Probing i) \<and> i < length (rt_tasks (nr_tasks n)) \<and>
        (case rt_tasks (nr_tasks n) ! i of
           Leading kind r \<Rightarrow> kind = k | Following r \<Rightarrow> True | _ \<Rightarrow> False))"

lemma fire_overdue:
  assumes "overdue n k"
  shows "in_round (loop_fire k n) k"
proof (cases rule: sample_begin_cases [of "nr_tasks n" k True])
  case (skips due)
  then show ?thesis using assms by (simp add: overdue_def)
qed (simp_all add: in_round_def loop_fire_def set_loop_def)

lemma set_loop_simps [simp]:
  "nr_tasks (set_loop k l n) = nr_tasks n" "nr_loops (set_loop k l n) k = Some l"
  by (simp_all add: set_loop_def)

lemma overdue_set_loop [simp]: "overdue (set_loop k l n) k' = overdue n k'"
  by (simp add: overdue_def cong: option.case_cong)

section \<open>Properties\<close>

text \<open>
  The scheduler runs exactly the configured kinds, each in one loop however often the
  configuration lists it: in every reachable state of the node a kind has a loop if and only
  if it is configured.
\<close>

theorem scheduler_runs_configured_kinds:
  assumes "node_reachable settings n"
  shows "set (scheduled_kinds settings) = set (dc_probes settings)
    \<and> distinct (scheduled_kinds settings) \<and> sorted (scheduled_kinds settings)
    \<and> {k. nr_loops n k \<noteq> None} = set (dc_probes settings)"
  using scheduled_kinds_set [of settings] inv_loops_reachable [OF assms]
  by (auto simp: inv_loops_def strict_sorted_imp_sorted)

theorem scheduler_runs_configured_kinds_witness:
  "{k. nr_loops (node_start (daemon_config_default\<lparr>dc_probes := [Peers, Wan, Peers]\<rparr>) 0) k \<noteq> None}
     = {Wan, Peers}"
  using scheduler_runs_configured_kinds [OF node_reachable.start
      [of "daemon_config_default\<lparr>dc_probes := [Peers, Wan, Peers]\<rparr>" 0]] by auto



end
