(* ===== verification/Sampler_Calls.thy ===== *)
theory Sampler_Calls
  imports Sampling Probing
begin

text \<open>
  The sampler as its callers see it (\<open>Sampler::run\<close> for a manual request, \<open>Sampler::run_due\<close> for
  the scheduler, \<open>sampling.rs\<close>): one whole call of \<open>sample\<close>, put together from the critical
  sections of \<open>Sampling\<close>, with a probe round of \<open>Probing\<close> as its work. It is the run of the step
  relation in which no other task steps in between; the lemmas say so, and what such a
  call does.
\<close>

section \<open>One call\<close>

definition returned :: "runtime \<Rightarrow> nat \<Rightarrow> shared_result option" where
  "returned s i = (case rt_tasks s ! i of Returned _ x \<Rightarrow> Some x | _ \<Rightarrow> None)"

text \<open>
  Only a leader polls the work, which takes the time \<open>took\<close> and may change \<open>d\<close>, the dialer. A
  call that joined another round has no result yet.
\<close>

definition sample ::
  "probe_kind \<Rightarrow> bool \<Rightarrow> ('d \<Rightarrow> (check_record list, node_error) result \<times> 'd) \<Rightarrow> duration
   \<Rightarrow> 'd \<Rightarrow> runtime \<Rightarrow> shared_result option \<times> 'd \<times> runtime" where
  "sample kind due_only work took d s =
     (let i = length (rt_tasks s);
          s1 = sample_begin kind due_only s
      in case rt_tasks s1 ! i of
           Leading k r \<Rightarrow>
             (case work d of
                (result, d') \<Rightarrow>
                  let s2 = sample_record_round i k r result (s1\<lparr>rt_clock := rt_clock s1 + took\<rparr>)
                  in (case rt_tasks s2 ! i of
                        Publishing k' r' shared \<Rightarrow>
                          (let s3 = sample_publish i k' r' shared s2 in (returned s3 i, d', s3))
                      | _ \<Rightarrow> (None, d', s2)))
         | _ \<Rightarrow> (returned s1 i, d, s1))"

definition run_now ::
  "codecs \<Rightarrow> ('f, 'c) probe_env \<Rightarrow> config \<Rightarrow> probe_kind \<Rightarrow> duration
   \<Rightarrow> 'c dialer option \<Rightarrow> runtime \<Rightarrow> shared_result option \<times> 'c dialer option \<times> runtime" where
  "run_now cs env cfg kind took dialer s =
     sample kind False (\<lambda>d. run_probe cs env cfg d kind) took dialer s"

definition run_due ::
  "codecs \<Rightarrow> ('f, 'c) probe_env \<Rightarrow> config \<Rightarrow> probe_kind \<Rightarrow> duration
   \<Rightarrow> 'c dialer option \<Rightarrow> runtime \<Rightarrow> (unit, node_error) result option \<times> 'c dialer option \<times> runtime" where
  "run_due cs env cfg kind took dialer s =
     (case sample kind True (\<lambda>d. run_probe cs env cfg d kind) took dialer s of
        (r, d', s') \<Rightarrow> (map_option (map_ok (\<lambda>_. ())) r, d', s'))"

section \<open>A call is a run of the step relation\<close>

lemma sampler_run_one: "sampler_step s a s' \<Longrightarrow> sampler_run s [a] s'"
  using run_snoc [OF run_nil] by simp

lemma sample_leads:
  fixes took :: duration
  assumes "rt_tasks (sample_begin kind due_only s) = rt_tasks s @ [Leading kind r]"
    and "work d = (result, d')"
  defines "i \<equiv> length (rt_tasks s)"
    and "s1 \<equiv> (sample_begin kind due_only s)\<lparr>rt_clock := rt_clock (sample_begin kind due_only s) + took\<rparr>"
  shows "sample kind due_only work took d s =
      (Some (map_err ProbeFailed (annotated_result s1 result)), d',
       sample_publish i kind r (annotated_result s1 result) (sample_record_round i kind r result s1))"
  using assms(1,2) by (simp add: sample_def Let_def i_def s1_def returned_def sample_publish_def)

lemma sample_waits_or_skips:
  assumes "rt_tasks (sample_begin kind due_only s) = rt_tasks s @ [t]" "leads t = None"
  shows "sample kind due_only work took d s =
      (case t of Returned _ x \<Rightarrow> Some x | _ \<Rightarrow> None, d, sample_begin kind due_only s)"
  using assms by (cases t) (simp_all add: sample_def Let_def returned_def)

lemma sample_is_run:
  "\<exists>as. sampler_run s as (snd (snd (sample kind due_only work took d s)))"
proof (cases rule: sample_begin_cases [of s kind due_only])
  case leads
  let ?i = "length (rt_tasks s)" and ?r = "length (rt_rounds s)"
  obtain result d' where w: "work d = (result, d')" by fastforce
  define s1 where "s1 = (sample_begin kind due_only s)\<lparr>rt_clock := rt_clock (sample_begin kind due_only s) + took\<rparr>"
  define s2 where "s2 = sample_record_round ?i kind ?r result s1"
  have tasks: "rt_tasks (sample_begin kind due_only s) = rt_tasks s @ [Leading kind ?r]"
    by (simp add: leads(3))
  have "sampler_step (sample_begin kind due_only s) (Tick took) s1"
    unfolding s1_def by (rule ticks)
  moreover have "sampler_step s1 (Work ?i result) s2"
    unfolding s2_def by (rule works) (simp_all add: s1_def tasks)
  moreover have "sampler_step s2 (Publish ?i) (sample_publish ?i kind ?r (annotated_result s1 result) s2)"
    by (rule publishes) (simp_all add: s2_def s1_def tasks)
  ultimately have "sampler_run s [Begin kind due_only, Tick took, Work ?i result, Publish ?i]
      (sample_publish ?i kind ?r (annotated_result s1 result) s2)"
    by (meson begins sampler_run_Cons sampler_run_one)
  then show ?thesis
    unfolding sample_leads [where took = took and d = d and work = work, OF tasks w] s2_def s1_def by auto
next
  case (follows r)
  then show ?thesis
    using sampler_run_one [OF begins, of s kind due_only]
    by (intro exI) (simp add: sample_waits_or_skips [where t = "Following r"])
next
  case (skips due)
  then show ?thesis
    using sampler_run_one [OF begins, of s kind due_only]
    by (intro exI) (simp add: sample_waits_or_skips [where t = "Returned None (Ok [])"])
qed

lemma sample_reachable:
  assumes "reachable settings s"
  shows "reachable settings (snd (snd (sample kind due_only work took d s)))"
  using assms sample_is_run [of s kind due_only work took d] sampler_run_trans
  unfolding reachable_def by blast

text \<open>When no round of the kind is running, a manual call leads one.\<close>

definition idle :: "runtime \<Rightarrow> probe_kind \<Rightarrow> bool" where
  "idle s kind \<longleftrightarrow> (case sl_running (sm_slots s kind) of Some r \<Rightarrow> \<not> round_live s r | None \<Rightarrow> True)"

lemma sample_idle:
  assumes "idle s kind" "work d = (result, d')"
  shows "sample kind False work took d s =
      (Some (map_err ProbeFailed (annotated_result s result)), d',
       snd (snd (sample kind False work took d s)))"
    and "sm_history (snd (snd (sample kind False work took d s))) =
      (case result of Ok records \<Rightarrow> snd (insert_all history_insert (sm_history s) records)
       | Err e \<Rightarrow> sm_history s)"
    and "sm_slots (snd (snd (sample kind False work took d s))) =
      (sm_slots s)(kind := \<lparr>sl_running = None, sl_next = Some (rt_clock s + took + sm_interval s)\<rparr>)"
    and "rt_clock (snd (snd (sample kind False work took d s))) = rt_clock s + took"
proof -
  let ?r = "length (rt_rounds s)"
  have begun: "sample_begin kind False s =
      s\<lparr>rt_rounds := rt_rounds s @ [RoundOpen],
        sm_slots := (sm_slots s)(kind := (sm_slots s kind)\<lparr>sl_running := Some ?r\<rparr>),
        rt_tasks := rt_tasks s @ [Leading kind ?r]\<rparr>"
    using assms(1) by (auto simp: sample_begin_def idle_def Let_def split: option.split)
  then have tasks: "rt_tasks (sample_begin kind False s) = rt_tasks s @ [Leading kind ?r]" by simp
  note sample = sample_leads [where took = took and work = work and d = d, OF tasks assms(2)]
  have same: "annotated_result ((sample_begin kind False s)\<lparr>rt_clock := c\<rparr>) result = annotated_result s result" for c
    by (simp add: annotated_result_def begun)
  show "sample kind False work took d s =
      (Some (map_err ProbeFailed (annotated_result s result)), d',
       snd (snd (sample kind False work took d s)))"
    by (simp add: sample same)
  show "sm_history (snd (snd (sample kind False work took d s))) =
      (case result of Ok records \<Rightarrow> snd (insert_all history_insert (sm_history s) records)
       | Err e \<Rightarrow> sm_history s)"
    by (simp add: sample sample_publish_def begun split: result.split)
  show "sm_slots (snd (snd (sample kind False work took d s))) =
      (sm_slots s)(kind := \<lparr>sl_running = None, sl_next = Some (rt_clock s + took + sm_interval s)\<rparr>)"
    by (simp add: sample sample_publish_def begun)
  show "rt_clock (snd (snd (sample kind False work took d s))) = rt_clock s + took"
    by (simp add: sample sample_publish_def begun)
qed

text \<open>Before the deadline the scheduler's call does nothing.\<close>

lemma run_due_early:
  assumes "idle s kind" "sl_next (sm_slots s kind) = Some due" "rt_clock s < due"
  shows "run_due cs env cfg kind took d s = (Some (Ok ()), d, s\<lparr>rt_tasks := rt_tasks s @ [Returned None (Ok [])]\<rparr>)"
proof -
  have "sample_begin kind True s = s\<lparr>rt_tasks := rt_tasks s @ [Returned None (Ok [])]\<rparr>"
    using assms by (auto simp: sample_begin_def idle_def Let_def split: option.split)
  then show ?thesis
    by (simp add: run_due_def sample_waits_or_skips [where t = "Returned None (Ok [])"])
qed

section \<open>Properties\<close>



end
