(* ===== verification/Requests.thy ===== *)
theory Requests
  imports Scheduler Sampler_Calls Dispatch
begin

text \<open>
  A daemon that serves requests (\<open>Daemon::node\<close> in \<open>daemon.rs\<close>, \<open>dispatch.rs\<close>): every request is a
  task of its own that calls \<open>dispatch\<close> on the state all of them share, the sampler with its
  history, while the scheduler's loops run. Between two awaits a request runs one of the
  operations below; \<open>serving_step\<close> interleaves requests, loops and rounds in any order, with
  requests that are dropped and time that passes. Every round's work is the probe of
  \<open>Probing\<close> on what that round meets, \<open>world r\<close>: the answers of the system and the dialer,
  which forwarded requests use as well.

  \<open>dn_round_kinds\<close> records the kind of every round and \<open>dn_processes\<close> what was done to processes;
  they decide nothing.
\<close>

section \<open>State\<close>

text \<open>
  A request waits for its round or its process, has its answer, or was dropped. What the
  process of an exec does, and in what order, is the environment it began with.
\<close>

datatype request_state =
    AwaitsRound nat | Executes exec_env | Answers "(response, node_error) result" | Gone

record running_request =
  rq_request :: request
  rq_state :: request_state

record daemon_run =
  dn_config :: config
  dn_id :: string
  dn_node :: node_run
  dn_round_kinds :: "probe_kind list"
  dn_requests :: "running_request list"
  dn_processes :: "exec_effect list"

abbreviation tasks_of :: "daemon_run \<Rightarrow> runtime" where
  "tasks_of d \<equiv> nr_tasks (dn_node d)"

definition daemon_start :: "config \<Rightarrow> string \<Rightarrow> instant \<Rightarrow> daemon_run" where
  "daemon_start cfg name now =
     \<lparr>dn_config = cfg, dn_id = name, dn_node = node_start (cf_daemon cfg) now,
      dn_round_kinds = [], dn_requests = [], dn_processes = []\<rparr>"

text \<open>What a request may use, with the dialer as it is then.\<close>

definition daemon_node :: "'c dialer \<Rightarrow> daemon_run \<Rightarrow> 'c node" where
  "daemon_node dialer d =
     \<lparr>nd_config = dn_config d, nd_id = dn_id d, nd_dialer = Some dialer,
      nd_sampler = Some (sampler.truncate (tasks_of d))\<rparr>"

section \<open>One request\<close>

text \<open>A call of \<open>sample\<close> for a kind may open a round of that kind.\<close>

definition with_node :: "probe_kind \<Rightarrow> node_run \<Rightarrow> daemon_run \<Rightarrow> daemon_run" where
  "with_node kind n d =
     d\<lparr>dn_node := n,
       dn_round_kinds := dn_round_kinds d @
         (if length (rt_rounds (tasks_of d)) < length (rt_rounds (nr_tasks n)) then [kind] else [])\<rparr>"

definition with_tasks :: "runtime \<Rightarrow> daemon_run \<Rightarrow> daemon_run" where
  "with_tasks s d = d\<lparr>dn_node := (dn_node d)\<lparr>nr_tasks := s\<rparr>\<rparr>"

definition add_request :: "request \<Rightarrow> request_state \<Rightarrow> daemon_run \<Rightarrow> daemon_run" where
  "add_request request st d = d\<lparr>dn_requests := dn_requests d @ [\<lparr>rq_request = request, rq_state = st\<rparr>]\<rparr>"

definition set_request :: "nat \<Rightarrow> request_state \<Rightarrow> daemon_run \<Rightarrow> daemon_run" where
  "set_request j st d = d\<lparr>dn_requests := (dn_requests d)[j := (dn_requests d ! j)\<lparr>rq_state := st\<rparr>]\<rparr>"

text \<open>
  The process group of an exec is started before the first await, and killed by its guard when
  the future ends: the first and the other effects of \<open>execute\<close>.
\<close>

definition note_effects :: "exec_effect list \<Rightarrow> daemon_run \<Rightarrow> daemon_run" where
  "note_effects es d = d\<lparr>dn_processes := dn_processes d @ es\<rparr>"

definition ending :: "running_request \<Rightarrow> exec_effect list" where
  "ending q =
     (case (rq_request q, rq_state q) of
        (Exec program args secs, Executes process) \<Rightarrow> tl (snd (execute process program args secs))
      | _ \<Rightarrow> [])"

text \<open>
  Up to the first await. A health request needs none, and a history request only that of the
  history's lock, which nobody holds over an await; \<open>now\<close> is the clock it read before.
\<close>

definition begin_request :: "u64 \<Rightarrow> exec_env \<Rightarrow> request \<Rightarrow> daemon_run \<Rightarrow> daemon_run" where
  "begin_request now process request d =
     (case request of
        Health \<Rightarrow>
          add_request request (Answers (Ok (HealthResponse
            \<lparr>h_endpoint_id = dn_id d, h_status = ''ok'', h_version = VERSION\<rparr>))) d
      | Probe kind \<Rightarrow>
          add_request request (AwaitsRound (length (rt_tasks (tasks_of d))))
            (with_node kind ((dn_node d)\<lparr>nr_tasks := sample_begin kind False (tasks_of d)\<rparr>) d)
      | History kind about limit \<Rightarrow>
          add_request request (Answers (Ok (HistoryResponse
            \<lparr>hr_observer = dn_id d, hr_queried_at = now,
             hr_records = history_query (sm_history (tasks_of d)) kind about limit\<rparr>))) d
      | Exec program args secs \<Rightarrow>
          note_effects (take 1 (snd (execute process program args secs)))
            (add_request request (Executes process) d))"

text \<open>The call of \<open>sample\<close> has returned \<open>x\<close>; the process has come to \<open>x\<close>.\<close>

definition answer_probe :: "nat \<Rightarrow> probe_kind \<Rightarrow> shared_result \<Rightarrow> daemon_run \<Rightarrow> daemon_run" where
  "answer_probe j kind x d =
     set_request j (Answers (map_ok (\<lambda>records. ProbeResponse
       \<lparr>pr_observer = dn_id d, pr_kind = kind, pr_records = records\<rparr>) x)) d"

definition answer_exec :: "nat \<Rightarrow> (exec_result, core_error) result \<Rightarrow> daemon_run \<Rightarrow> daemon_run" where
  "answer_exec j x d =
     set_request j (Answers (map_ok ExecResponse (map_err CoreError x)))
       (note_effects (ending (dn_requests d ! j)) d)"

text \<open>
  The task of the request is aborted, as all are when the daemon stops, or has failed; the round
  it leads and the process it runs end with it. A connection that closes drops nothing: its requests complete.
\<close>

definition drop_request :: "nat \<Rightarrow> daemon_run \<Rightarrow> daemon_run" where
  "drop_request j d =
     set_request j Gone
       (case rq_state (dn_requests d ! j) of
          AwaitsRound i \<Rightarrow> with_tasks (sample_drop i (tasks_of d)) d
        | _ \<Rightarrow> note_effects (ending (dn_requests d ! j)) d)"

section \<open>All interleavings\<close>

definition request_at :: "daemon_run \<Rightarrow> nat \<Rightarrow> running_request option" where
  "request_at d j = (if j < length (dn_requests d) then Some (dn_requests d ! j) else None)"

definition awaits :: "daemon_run \<Rightarrow> nat \<Rightarrow> request \<Rightarrow> request_state \<Rightarrow> bool" where
  "awaits d j request st \<longleftrightarrow> request_at d j = Some \<lparr>rq_request = request, rq_state = st\<rparr>"

text \<open>The steps of the sampler that neither begin nor end a call, nor do its work.\<close>

fun proceeds :: "action \<Rightarrow> bool" where
  "proceeds (Publish i) = True"
| "proceeds (Wake i) = True"
| "proceeds (Tick d) = True"
| "proceeds _ = False"

type_synonym ('f, 'c) world = "nat \<Rightarrow> ('f, 'c) probe_env \<times> 'c dialer"

definition round_work ::
  "codecs \<Rightarrow> ('f, 'c) world \<Rightarrow> config \<Rightarrow> nat \<Rightarrow> probe_kind \<Rightarrow> (check_record list, node_error) result" where
  "round_work cs world cfg r kind = fst (run_probe cs (fst (world r)) cfg (Some (snd (world r))) kind)"

inductive serving_step ::
  "codecs \<Rightarrow> ('f, 'c) world \<Rightarrow> daemon_run \<Rightarrow> daemon_run \<Rightarrow> bool" for cs world where
  request_begins: "serving_step cs world d (begin_request now process request d)"
| probe_answered: "awaits d j (Probe kind) (AwaitsRound i) \<Longrightarrow> i < length (rt_tasks (tasks_of d)) \<Longrightarrow>
    rt_tasks (tasks_of d) ! i = Returned round x \<Longrightarrow> serving_step cs world d (answer_probe j kind x d)"
| exec_answered: "awaits d j (Exec program args secs) (Executes process) \<Longrightarrow>
    fst (execute process program args secs) = Some x \<Longrightarrow> serving_step cs world d (answer_exec j x d)"
| request_drops: "awaits d j request st \<Longrightarrow> st \<in> range AwaitsRound \<union> range Executes \<Longrightarrow>
    serving_step cs world d (drop_request j d)"
| round_works: "i < length (rt_tasks (tasks_of d)) \<Longrightarrow> rt_tasks (tasks_of d) ! i = Leading kind r \<Longrightarrow>
    serving_step cs world d
      (with_tasks (sample_record_round i kind r (round_work cs world (dn_config d) r kind) (tasks_of d)) d)"
| sampler_proceeds: "sampler_step (tasks_of d) a s \<Longrightarrow> proceeds a \<Longrightarrow> serving_step cs world d (with_tasks s d)"
| loop_steps: "loop_step kind (dn_node d) n \<Longrightarrow> serving_step cs world d (with_node kind n d)"

inductive serving :: "codecs \<Rightarrow> ('f, 'c) world \<Rightarrow> config \<Rightarrow> daemon_run \<Rightarrow> bool" for cs world cfg where
  serving_starts: "serving cs world cfg (daemon_start cfg name now)"
| serving_steps: "serving cs world cfg d \<Longrightarrow> serving_step cs world d d' \<Longrightarrow> serving cs world cfg d'"

inductive_cases serving_stepE: "serving_step cs world d d'"

section \<open>What the operations change\<close>

lemma request_fields [simp]:
  "dn_node (add_request request st d) = dn_node d" "dn_node (set_request j st d) = dn_node d"
  "dn_config (add_request request st d) = dn_config d" "dn_config (set_request j st d) = dn_config d"
  "dn_id (add_request request st d) = dn_id d" "dn_id (set_request j st d) = dn_id d"
  "dn_round_kinds (add_request request st d) = dn_round_kinds d"
  "dn_round_kinds (set_request j st d) = dn_round_kinds d"
  "dn_processes (add_request request st d) = dn_processes d"
  "dn_processes (set_request j st d) = dn_processes d"
  by (simp_all add: add_request_def set_request_def)

lemma with_fields [simp]:
  "dn_requests (with_node kind n d) = dn_requests d" "dn_requests (with_tasks s d) = dn_requests d"
  "dn_config (with_node kind n d) = dn_config d" "dn_config (with_tasks s d) = dn_config d"
  "dn_id (with_node kind n d) = dn_id d" "dn_id (with_tasks s d) = dn_id d"
  "dn_node (with_node kind n d) = n" "dn_node (with_tasks s d) = (dn_node d)\<lparr>nr_tasks := s\<rparr>"
  "dn_round_kinds (with_tasks s d) = dn_round_kinds d"
  "dn_processes (with_node kind n d) = dn_processes d" "dn_processes (with_tasks s d) = dn_processes d"
  by (simp_all add: with_node_def with_tasks_def)

lemma note_effects_fields [simp]:
  "dn_node (note_effects es d) = dn_node d" "dn_config (note_effects es d) = dn_config d"
  "dn_id (note_effects es d) = dn_id d" "dn_round_kinds (note_effects es d) = dn_round_kinds d"
  "dn_requests (note_effects es d) = dn_requests d"
  "dn_processes (note_effects es d) = dn_processes d @ es" "note_effects [] d = d"
  by (simp_all add: note_effects_def)

lemma request_at_same [simp]:
  "request_at (with_node kind n d) = request_at d" "request_at (with_tasks s d) = request_at d"
  "request_at (note_effects es d) = request_at d"
  by (simp_all add: request_at_def fun_eq_iff)

lemma request_at_add [simp]:
  "request_at (add_request request st d) j =
     (if j = length (dn_requests d) then Some \<lparr>rq_request = request, rq_state = st\<rparr> else request_at d j)"
  by (simp add: request_at_def add_request_def nth_append)

lemma request_at_set [simp]:
  "request_at (set_request j st d) k =
     (if k = j then map_option (\<lambda>q. q\<lparr>rq_state := st\<rparr>) (request_at d j) else request_at d k)"
  by (simp add: request_at_def set_request_def)

lemma awaits_same [simp]:
  "awaits (with_node kind n d) = awaits d" "awaits (with_tasks s d) = awaits d"
  "awaits (note_effects es d) = awaits d"
  by (simp_all add: awaits_def fun_eq_iff)

lemma awaits_add [simp]:
  "awaits (add_request request st d) j request' st' \<longleftrightarrow>
     (if j = length (dn_requests d) then request' = request \<and> st' = st else awaits d j request' st')"
  by (auto simp: awaits_def)

lemma awaits_set [simp]:
  "awaits (set_request j st d) k request st' \<longleftrightarrow>
     (if k = j then st' = st \<and> (\<exists>old. awaits d j request old) else awaits d k request st')"
  by (cases "request_at d j"; cases "the (request_at d j)") (auto simp: awaits_def)

lemma awaits_unique: "awaits d j request st \<Longrightarrow> awaits d j request' st' \<Longrightarrow> request' = request \<and> st' = st"
  by (simp add: awaits_def)

lemma awaits_bound: "awaits d j request st \<Longrightarrow> j < length (dn_requests d)"
  by (simp add: awaits_def request_at_def split: if_splits)

lemma awaits_state: "awaits d j request st \<Longrightarrow> rq_state (dn_requests d ! j) = st"
  by (auto simp: awaits_def request_at_def split: if_splits)

section \<open>Rounds have a kind\<close>

text \<open>The kind of the round a task belongs to, when \<open>ks\<close> are the kinds of the rounds.\<close>

fun task_kind :: "probe_kind list \<Rightarrow> task \<Rightarrow> probe_kind option" where
  "task_kind ks (Leading kind r) = Some kind"
| "task_kind ks (Publishing kind r x) = Some kind"
| "task_kind ks (Following r) = Some (ks ! r)"
| "task_kind ks (Returned (Some r) x) = Some (ks ! r)"
| "task_kind ks (Returned None x) = None"
| "task_kind ks TaskDropped = None"

definition kinds_ok :: "probe_kind list \<Rightarrow> runtime \<Rightarrow> bool" where
  "kinds_ok ks s \<longleftrightarrow>
     length ks = length (rt_rounds s)
     \<and> (\<forall>i kind r. leader s i kind r \<longrightarrow> ks ! r = kind)
     \<and> (\<forall>kind r. sl_running (sm_slots s kind) = Some r \<longrightarrow> ks ! r = kind)"

definition opened :: "probe_kind \<Rightarrow> runtime \<Rightarrow> runtime \<Rightarrow> probe_kind list" where
  "opened kind s s' = (if length (rt_rounds s) < length (rt_rounds s') then [kind] else [])"

lemma with_node_kinds: "dn_round_kinds (with_node kind n d) = dn_round_kinds d @ opened kind (tasks_of d) (nr_tasks n)"
  by (simp add: with_node_def opened_def)

lemma kinds_okD:
  assumes "kinds_ok ks s"
  shows "length ks = length (rt_rounds s)" "leader s i kind r \<Longrightarrow> ks ! r = kind"
    "sl_running (sm_slots s kind) = Some r \<Longrightarrow> ks ! r = kind"
  using assms unfolding kinds_ok_def by blast+

lemma kinds_ok_new: "kinds_ok [] (runtime_new settings now)"
  by (simp add: kinds_ok_def leader_def slot_default_def)

lemma kinds_ok_begin:
  assumes "kinds_ok ks s" "inv_leaders s" "inv_rounds s"
  shows "kinds_ok (ks @ opened kind s (sample_begin kind due_only s)) (sample_begin kind due_only s)"
proof (cases rule: sample_begin_cases [of s kind due_only])
  case (follows r)
  then show ?thesis
    using assms(1) leader_append [where s = s and t = "Following r" and s' = "sample_begin kind due_only s"]
    by (simp add: kinds_ok_def opened_def)
next
  case (skips due)
  then show ?thesis
    using assms(1) leader_append [where s = s and t = "Returned None (Ok [])" and s' = "sample_begin kind due_only s"]
    by (simp add: kinds_ok_def opened_def)
next
  case leads
  let ?n = "length (rt_rounds s)"
  note ok = kinds_okD [OF assms(1)]
  have "(ks @ [kind]) ! r = k" if "leader (sample_begin kind due_only s) i k r" for i k r
    using that leader_append [where s = s and t = "Leading kind ?n" and s' = "sample_begin kind due_only s"]
      leaderD(1) [OF assms(2)] ok(1,2) by (auto simp: leads(3) nth_append)
  moreover have "(ks @ [kind]) ! r = k"
    if "sl_running (sm_slots (sample_begin kind due_only s) k) = Some r" for k r
    using that roundsD(2) [OF assms(3), of k r] ok(1,3) by (auto simp: leads(3) nth_append split: if_splits)
  ultimately show ?thesis by (simp add: kinds_ok_def opened_def leads(3) ok(1))
qed

text \<open>The other steps open no round, and no task comes to lead one.\<close>

lemma other_step_rounds:
  assumes "sampler_step s a s'" "\<And>kind due_only. a \<noteq> Begin kind due_only"
  shows "length (rt_rounds s') = length (rt_rounds s)" "leader s' i kind r \<Longrightarrow> leader s i kind r"
    "sl_running (sm_slots s' kind) = Some r \<Longrightarrow> sl_running (sm_slots s kind) = Some r"
    "length (rt_tasks s') = length (rt_tasks s)"
proof -
  have "length (rt_rounds s') = length (rt_rounds s) \<and> (leader s' i kind r \<longrightarrow> leader s i kind r)
    \<and> (sl_running (sm_slots s' kind) = Some r \<longrightarrow> sl_running (sm_slots s kind) = Some r)
    \<and> length (rt_tasks s') = length (rt_tasks s)"
    using assms(1)
  proof (cases rule: sampler_step.cases)
    case (begins kind due_only)
    then show ?thesis using assms(2) by blast
  next
    case (works j k q work)
    then show ?thesis by (auto simp: leader_def nth_list_update_if split: if_splits)
  next
    case (publishes j k q result)
    then show ?thesis by (auto simp: sample_publish_def leader_def nth_list_update_if split: if_splits)
  next
    case (wakes j q)
    then show ?thesis by (auto simp: sample_wake_def leader_def nth_list_update_if split: option.splits if_splits)
  next
    case (drops j)
    then show ?thesis
      by (cases "rt_tasks s ! j") (auto simp: sample_drop_def leader_def nth_list_update_if split: if_splits)
  qed (simp add: leader_def)
  then show "length (rt_rounds s') = length (rt_rounds s)" "leader s' i kind r \<Longrightarrow> leader s i kind r"
    "sl_running (sm_slots s' kind) = Some r \<Longrightarrow> sl_running (sm_slots s kind) = Some r"
    "length (rt_tasks s') = length (rt_tasks s)" by blast+
qed

lemma kinds_ok_other:
  assumes "sampler_step s a s'" "\<And>kind due_only. a \<noteq> Begin kind due_only" "kinds_ok ks s"
  shows "kinds_ok ks s'"
  using other_step_rounds [OF assms(1,2)] kinds_okD [OF assms(3)] unfolding kinds_ok_def by metis

text \<open>What a call of \<open>sample\<close> begins as, and how a task goes on, keeps the kind.\<close>

lemma manual_task_kind:
  assumes "kinds_ok ks s" "inv_rounds s"
  shows "task_kind (ks @ opened kind s (sample_begin kind False s))
      (rt_tasks (sample_begin kind False s) ! length (rt_tasks s)) = Some kind"
proof (cases rule: sample_begin_cases [of s kind False])
  case (follows r)
  then show ?thesis
    using roundsD(2) [OF assms(2) follows(1)] kinds_okD(3) [OF assms(1) follows(1)] by (simp add: opened_def)
qed simp_all

lemma task_kind_append:
  assumes "task_kind ks t = Some kind" "\<And>r. t = Following r \<or> (\<exists>x. t = Returned (Some r) x) \<Longrightarrow> r < length ks"
  shows "task_kind (ks @ new) t = Some kind"
  using assms by (cases "(ks, t)" rule: task_kind.cases) (auto simp: nth_append)

lemma task_kind_other:
  assumes "sampler_step s a s'" "\<And>kind due_only. a \<noteq> Begin kind due_only" "a \<noteq> Drop i"
    and "kinds_ok ks s" "i < length (rt_tasks s)"
  shows "task_kind ks (rt_tasks s' ! i) = task_kind ks (rt_tasks s ! i)"
  using assms(1)
proof (cases rule: sampler_step.cases)
  case (begins kind due_only)
  then show ?thesis using assms(2) by blast
next
  case (works j k r work)
  then show ?thesis by (auto simp: nth_list_update_if)
next
  case (publishes j k r result)
  have "ks ! r = k" using publishes(3,4) by (intro kinds_okD(2) [OF assms(4), of j]) (simp add: leader_def)
  then show ?thesis using publishes by (auto simp: sample_publish_def nth_list_update_if)
next
  case (wakes j r)
  then show ?thesis by (auto simp: sample_wake_def nth_list_update_if split: option.split)
next
  case (drops j)
  then show ?thesis
    using assms(3) by (cases "rt_tasks s ! j") (auto simp: sample_drop_def nth_list_update_if)
qed simp

text \<open>A round that is over stays as it is.\<close>

lemma settled_round_step:
  assumes "sampler_step s a s'" "inv_leaders s" "r < length (rt_rounds s)" "rt_rounds s ! r \<noteq> RoundOpen"
  shows "rt_rounds s' ! r = rt_rounds s ! r"
  using assms(1)
proof (cases rule: sampler_step.cases)
  case (begins kind due_only)
  then show ?thesis
    using assms(3) by (cases rule: sample_begin_cases [of s kind due_only]) (simp_all add: nth_append)
next
  case (publishes i kind q result)
  then have "rt_rounds s ! q = RoundOpen" by (intro leaderD(2) [OF assms(2), of i kind q]) (simp add: leader_def)
  then have "q \<noteq> r" using assms(4) by auto
  then show ?thesis using publishes by (simp add: sample_publish_def)
next
  case (drops i)
  show ?thesis
  proof (cases "rt_tasks s ! i")
    case (Leading kind q)
    then have "rt_rounds s ! q = RoundOpen"
      using drops(3) by (intro leaderD(2) [OF assms(2), of i kind q]) (simp add: leader_def)
    then have "q \<noteq> r" using assms(4) by auto
    then show ?thesis using drops Leading by (simp add: sample_drop_def)
  qed (simp_all add: drops(2) sample_drop_def)
qed (simp_all add: sample_wake_def split: option.split)

section \<open>What rounds come to\<close>

text \<open>Everything the history was ever given, as it was handed back.\<close>

definition recorded_log :: "usize \<Rightarrow> runtime \<Rightarrow> check_record list" where
  "recorded_log capacity s =
     map snd (fst (insert_all history_insert (history_new capacity) (concat (map snd (rt_recorded s)))))"

text \<open>One well-formed record per configured target, in order.\<close>

definition reported :: "config \<Rightarrow> probe_kind \<Rightarrow> check_record list \<Rightarrow> bool" where
  "reported cfg kind out \<longleftrightarrow>
     map r_target out = configured_targets cfg kind
     \<and> (\<forall>x \<in> set out. r_kind x = kind \<and> (r_success x \<longleftrightarrow> r_error x = None)
          \<and> (\<not> r_success x \<longrightarrow> r_data x = None))"

definition results_ok :: "config \<Rightarrow> probe_kind list \<Rightarrow> runtime \<Rightarrow> bool" where
  "results_ok cfg ks s \<longleftrightarrow>
     (\<forall>r x. round_result s r x \<longrightarrow>
        (\<exists>out. x = Ok out \<and> reported cfg (ks ! r) out
           \<and> set out \<subseteq> set (recorded_log (dc_history_size (cf_daemon cfg)) s)))"

lemma reported_annotated:
  assumes "map r_target records = configured_targets cfg kind"
    and "\<forall>x \<in> set records. r_kind x = kind \<and> fresh_record x" "annotates records out"
  shows "reported cfg kind out"
proof -
  have len: "length out = length records"
    using assms(3) by (auto simp: annotates_def dest: list_all2_lengthD)
  have each: "\<exists>l. out ! i = (records ! i)\<lparr>r_last_success_at := l\<rparr>" if "i < length records" for i
    using assms(3) that by (auto simp: annotates_def list_all2_conv_all_nth)
  have "map r_target out = map r_target records"
  proof (rule nth_equalityI)
    fix i assume "i < length (map r_target out)"
    then have i: "i < length records" by (simp add: len)
    then obtain l where "out ! i = (records ! i)\<lparr>r_last_success_at := l\<rparr>" using each by blast
    then show "map r_target out ! i = map r_target records ! i" using i by (simp add: len)
  qed (simp add: len)
  moreover have "r_kind x = kind \<and> (r_success x \<longleftrightarrow> r_error x = None) \<and> (\<not> r_success x \<longrightarrow> r_data x = None)"
    if x: "x \<in> set out" for x
  proof -
    obtain i where i: "i < length records" "x = out ! i"
      using x by (auto simp: in_set_conv_nth len)
    then show ?thesis
      using each [OF i(1)] assms(2) nth_mem [OF i(1)] by (auto simp: fresh_record_def)
  qed
  ultimately show ?thesis using assms(1) by (simp add: reported_def)
qed

lemma round_work_reported:
  obtains records where "round_work cs world cfg r kind = Ok records"
    "map r_target records = configured_targets cfg kind"
    "\<forall>x \<in> set records. r_kind x = kind \<and> fresh_record x"
  using probe_round_reports_configuration [where cs = cs and env = "fst (world r)" and cfg = cfg
      and dialer = "Some (snd (world r))" and kind = kind]
  by (auto simp: round_work_def split_def)

lemma recorded_log_work:
  assumes "inv_history capacity s"
  shows "recorded_log capacity (sample_record_round i kind r (Ok records) s) =
      recorded_log capacity s @ map snd (fst (insert_all history_insert (sm_history s) records))"
  using assms by (simp add: recorded_log_def inv_history_def insert_all_append split_def)

lemma other_step_recorded:
  assumes "sampler_step s a s'" "\<And>i work. a \<noteq> Work i work"
  shows "rt_recorded s' = rt_recorded s"
  using assms(1)
proof (cases rule: sampler_step.cases)
  case (begins kind due_only)
  then show ?thesis by (cases rule: sample_begin_cases [of s kind due_only]) simp_all
next
  case (works i kind r work)
  then show ?thesis using assms(2) by blast
qed (simp_all add: sample_publish_def sample_wake_def sample_drop_def split: option.split task.split)

lemma other_step_result:
  assumes "sampler_step s a s'" "\<And>i work. a \<noteq> Work i work" "round_result s' r x"
  shows "round_result s r x"
  using assms(1)
proof (cases rule: sampler_step.cases)
  case (begins kind due_only)
  then show ?thesis
    using assms(3) by (cases rule: sample_begin_cases [of s kind due_only])
      (auto simp: round_result_def nth_append split: if_splits)
next
  case (works i kind r work)
  then show ?thesis using assms(2) by blast
next
  case (publishes i kind q result)
  then show ?thesis
    using assms(3) nth_mem [OF publishes(3)]
    by (auto simp: round_result_def sample_publish_def nth_list_update_if split: if_splits dest!: in_set_updateD)
next
  case (wakes i q)
  then show ?thesis
    using assms(3) by (auto simp: round_result_def sample_wake_def split: option.splits dest!: in_set_updateD)
next
  case (drops i)
  then show ?thesis
    using assms(3)
    by (cases "rt_tasks s ! i")
      (auto simp: round_result_def sample_drop_def nth_list_update_if split: if_splits dest!: in_set_updateD)
next
  case (ticks d)
  then show ?thesis using assms(3) by (simp add: round_result_def)
qed

lemma work_result:
  assumes "round_result (sample_record_round i kind q work s) r x"
  shows "round_result s r x \<or> r = q \<and> x = annotated_result s work"
  using assms by (auto simp: round_result_def dest!: in_set_updateD)

lemma round_result_bound: "inv_leaders s \<Longrightarrow> round_result s r x \<Longrightarrow> r < length (rt_rounds s)"
  using leaderD(1) [of s] by (fastforce simp: round_result_def leader_def in_set_conv_nth)

lemma results_ok_other:
  assumes "sampler_step s a s'" "\<And>i work. a \<noteq> Work i work" "results_ok cfg ks s" "inv_leaders s"
    and "length ks = length (rt_rounds s)"
  shows "results_ok cfg (ks @ new) s'"
  unfolding results_ok_def
proof (intro allI impI)
  fix r x assume "round_result s' r x"
  then have res: "round_result s r x" by (rule other_step_result [OF assms(1,2)])
  then have "r < length ks" using round_result_bound [OF assms(4)] assms(5) by simp
  then show "\<exists>out. x = Ok out \<and> reported cfg ((ks @ new) ! r) out
      \<and> set out \<subseteq> set (recorded_log (dc_history_size (cf_daemon cfg)) s')"
    using assms(3) res other_step_recorded [OF assms(1,2)]
    by (simp add: results_ok_def recorded_log_def nth_append)
qed

lemma results_ok_work:
  assumes "results_ok cfg ks s" "inv_history (dc_history_size (cf_daemon cfg)) s" "ks ! q = kind"
  shows "results_ok cfg ks (sample_record_round i kind q (round_work cs world cfg r kind) s)"
proof -
  obtain records where records: "round_work cs world cfg r kind = Ok records"
    "map r_target records = configured_targets cfg kind" "\<forall>x \<in> set records. r_kind x = kind \<and> fresh_record x"
    by (rule round_work_reported)
  let ?out = "map snd (fst (insert_all history_insert (sm_history s) records))"
  note log = recorded_log_work [OF assms(2), of i kind q records]
  have "\<exists>out. x = Ok out \<and> reported cfg (ks ! p) out
      \<and> set out \<subseteq> set (recorded_log (dc_history_size (cf_daemon cfg)) (sample_record_round i kind q (Ok records) s))"
    if "round_result (sample_record_round i kind q (Ok records) s) p x" for p x
    using work_result [OF that]
  proof
    assume "round_result s p x"
    with assms(1) obtain out where "x = Ok out" "reported cfg (ks ! p) out"
      "set out \<subseteq> set (recorded_log (dc_history_size (cf_daemon cfg)) s)"
      unfolding results_ok_def by blast
    then show ?thesis by (auto simp: log)
  next
    assume "p = q \<and> x = annotated_result s (Ok records)"
    then show ?thesis
      using reported_annotated [OF records(2,3) annotates_round [of records "sm_history s"]] assms(3)
      by (simp add: annotated_result_def log)
  qed
  then show ?thesis by (simp add: results_ok_def records(1))
qed

section \<open>Invariants\<close>

text \<open>Every task of the sampler has one owner: a request that awaits it, or a loop.\<close>

definition inv_owned :: "daemon_run \<Rightarrow> bool" where
  "inv_owned d \<longleftrightarrow>
     (\<forall>j request i. awaits d j request (AwaitsRound i) \<longrightarrow>
        i < length (rt_tasks (tasks_of d)) \<and> (\<forall>k. nr_loops (dn_node d) k \<noteq> Some (Probing i))
        \<and> (\<forall>j' request'. awaits d j' request' (AwaitsRound i) \<longrightarrow> j' = j))
     \<and> (\<forall>k i. nr_loops (dn_node d) k = Some (Probing i) \<longrightarrow> i < length (rt_tasks (tasks_of d)))"

lemma ownedD:
  assumes "inv_owned d"
  shows "awaits d j request (AwaitsRound i) \<Longrightarrow> i < length (rt_tasks (tasks_of d))"
    "awaits d j request (AwaitsRound i) \<Longrightarrow> nr_loops (dn_node d) k \<noteq> Some (Probing i)"
    "awaits d j request (AwaitsRound i) \<Longrightarrow> awaits d j' request' (AwaitsRound i) \<Longrightarrow> j' = j"
    "nr_loops (dn_node d) k = Some (Probing i) \<Longrightarrow> i < length (rt_tasks (tasks_of d))"
  using assms unfolding inv_owned_def by blast+

lemma inv_ownedI:
  assumes "\<And>j request i. awaits d j request (AwaitsRound i) \<Longrightarrow> i < length (rt_tasks (tasks_of d))"
    "\<And>j request i k. awaits d j request (AwaitsRound i) \<Longrightarrow> nr_loops (dn_node d) k \<noteq> Some (Probing i)"
    "\<And>j request i j' request'. awaits d j request (AwaitsRound i) \<Longrightarrow>
       awaits d j' request' (AwaitsRound i) \<Longrightarrow> j' = j"
    "\<And>k i. nr_loops (dn_node d) k = Some (Probing i) \<Longrightarrow> i < length (rt_tasks (tasks_of d))"
  shows "inv_owned d"
  using assms unfolding inv_owned_def by blast

text \<open>The four ways a step of the daemon looks to the sampler and its owners.\<close>

lemma begin_request_cases:
  obtains
    (probes) kind where "request = Probe kind"
      "begin_request now process request d = add_request request (AwaitsRound (length (rt_tasks (tasks_of d))))
         (with_node kind ((dn_node d)\<lparr>nr_tasks := sample_begin kind False (tasks_of d)\<rparr>) d)"
  | (others) st es where "\<And>kind. request \<noteq> Probe kind" "st \<notin> range AwaitsRound"
      "begin_request now process request d = note_effects es (add_request request st d)"
      "\<And>a. st = Answers a \<Longrightarrow> (request = Health \<or> (\<exists>k about limit. request = History k about limit))"
  using that
proof (cases request)
  case (Exec program args secs)
  then show thesis by (intro others [of "Executes process"]) (auto simp: begin_request_def)
next
  case Health
  then show thesis by (intro others [of _ "[]"]) (auto simp: begin_request_def)
next
  case (History kind about limit)
  then show thesis by (intro others [of _ "[]"]) (auto simp: begin_request_def)
qed (auto simp: begin_request_def)

lemma sample_begin_tasks: "\<exists>t. rt_tasks (sample_begin kind due_only s) = rt_tasks s @ [t]"
  by (cases rule: sample_begin_cases [of s kind due_only]) simp_all

lemma loop_step_loops:
  assumes "loop_step k n n'"
  shows "nr_loops n' = (nr_loops n)(k := nr_loops n' k)"
    and "nr_loops n' k = Some (Probing i) \<Longrightarrow>
      i = length (rt_tasks (nr_tasks n)) \<and> nr_tasks n' = sample_begin k True (nr_tasks n)"
  using assms by (cases rule: loop_step.cases; simp add: loop_read_def loop_fire_def set_loop_def)+

lemma owned_start: "inv_owned (daemon_start cfg name now)"
  by (simp add: inv_owned_def awaits_def request_at_def daemon_start_def node_start_def)

lemma owned_same:
  assumes "inv_owned d" "nr_loops (dn_node d') = nr_loops (dn_node d)"
    and "length (rt_tasks (tasks_of d')) = length (rt_tasks (tasks_of d))"
    and "\<And>j request i. awaits d' j request (AwaitsRound i) \<Longrightarrow> awaits d j request (AwaitsRound i)"
  shows "inv_owned d'"
  using assms(2-) ownedD [OF assms(1)] by (intro inv_ownedI) (metis, metis, metis, metis)

lemma proceeds_other: "proceeds a \<Longrightarrow> a \<noteq> Begin kind due_only" "proceeds a \<Longrightarrow> a \<noteq> Work i work"
  "proceeds a \<Longrightarrow> a \<noteq> Drop i"
  by auto

text \<open>What a drop does, to the sampler if the request awaits a round.\<close>

lemma drop_request_effect:
  assumes "awaits d j request st"
  shows "(\<exists>i. st = AwaitsRound i \<and> drop_request j d = set_request j Gone (with_tasks (sample_drop i (tasks_of d)) d))
    \<or> st \<notin> range AwaitsRound
       \<and> drop_request j d = set_request j Gone (note_effects (ending (dn_requests d ! j)) d)"
  using awaits_state [OF assms] by (cases st) (simp_all add: drop_request_def image_iff)

lemma sample_drop_length: "length (rt_tasks (sample_drop i s)) = length (rt_tasks s)"
  by (simp add: sample_drop_def split: task.split)

lemma owned_begin:
  assumes "inv_owned d"
  shows "inv_owned (add_request request (AwaitsRound (length (rt_tasks (tasks_of d))))
    (with_node kind ((dn_node d)\<lparr>nr_tasks := sample_begin kind False (tasks_of d)\<rparr>) d))"
proof -
  obtain t where t: "rt_tasks (sample_begin kind False (tasks_of d)) = rt_tasks (tasks_of d) @ [t]"
    using sample_begin_tasks by blast
  have fresh: "\<not> awaits d j q (AwaitsRound (length (rt_tasks (tasks_of d))))"
    "nr_loops (dn_node d) k \<noteq> Some (Probing (length (rt_tasks (tasks_of d))))" for j q k
    using ownedD(1,4) [OF assms] by fastforce+
  show ?thesis
    using ownedD [OF assms] fresh
    by (intro inv_ownedI) (auto simp: t less_Suc_eq split: if_splits)
qed

lemma owned_loop:
  assumes "loop_step kind (dn_node d) n" "inv_owned d"
  shows "inv_owned (with_node kind n d)"
proof -
  note loops = loop_step_loops [OF assms(1)]
  have tasks: "length (rt_tasks (tasks_of d)) \<le> length (rt_tasks (nr_tasks n))"
    using loop_step_tasks [OF assms(1)] sample_begin_tasks [of kind True "tasks_of d"] by auto
  have probing: "i = length (rt_tasks (tasks_of d)) \<and> i < length (rt_tasks (nr_tasks n))
      \<or> nr_loops (dn_node d) k = Some (Probing i)"
    if "nr_loops n k = Some (Probing i)" for k i
  proof (cases "k = kind")
    case True
    with that loops(2) [of i] show ?thesis
      using sample_begin_tasks [of kind True "tasks_of d"] by auto
  next
    case False
    then show ?thesis using that by (subst (asm) loops(1)) simp
  qed
  note owned = ownedD [OF assms(2)]
  show ?thesis
  proof (rule inv_ownedI; unfold awaits_same with_fields)
    fix j q i assume "awaits d j q (AwaitsRound i)"
    then show "i < length (rt_tasks (nr_tasks n))" using owned(1) tasks by fastforce
  next
    fix j q i k assume a: "awaits d j q (AwaitsRound i)"
    show "nr_loops n k \<noteq> Some (Probing i)"
      using probing [of k i] owned(1) [OF a] owned(2) [OF a] by auto
  next
    fix j q i j' q' assume "awaits d j q (AwaitsRound i)" "awaits d j' q' (AwaitsRound i)"
    then show "j' = j" by (rule owned(3))
  next
    fix k i assume "nr_loops n k = Some (Probing i)"
    then show "i < length (rt_tasks (nr_tasks n))" using probing [of k i] owned(4) [of k i] tasks by auto
  qed
qed

lemma owned_step:
  assumes "serving_step cs world d d'" "inv_owned d"
  shows "inv_owned d'"
  using assms(1)
proof (cases rule: serving_step.cases)
  case (request_begins now process request)
  show ?thesis
  proof (cases rule: begin_request_cases [of request now process d])
    case (probes kind)
    show ?thesis unfolding request_begins probes(2) by (rule owned_begin [OF assms(2)])
  next
    case (others st es)
    show ?thesis
      unfolding request_begins others(3)
      using others(2) by (intro owned_same [OF assms(2)]) (auto split: if_splits)
  qed
next
  case (probe_answered j kind i round x)
  then show ?thesis
    by (intro owned_same [OF assms(2)]) (auto simp: answer_probe_def split: if_splits)
next
  case (exec_answered j program args secs process x)
  then show ?thesis
    by (intro owned_same [OF assms(2)]) (auto simp: answer_exec_def split: if_splits)
next
  case (request_drops j request st)
  then show ?thesis
    using drop_request_effect [OF request_drops(2)]
    by (intro owned_same [OF assms(2)]) (auto simp: sample_drop_length split: if_splits)
next
  case (round_works i kind r)
  then show ?thesis by (intro owned_same [OF assms(2)]) simp_all
next
  case (sampler_proceeds a s)
  then show ?thesis
    using other_step_rounds(4) [OF sampler_proceeds(2)] proceeds_other(1)
    by (intro owned_same [OF assms(2)]) auto
next
  case (loop_steps kind n)
  show ?thesis unfolding loop_steps(1) by (rule owned_loop [OF loop_steps(2) assms(2)])
qed

text \<open>What a step of the daemon is to the sampler.\<close>

lemma serving_step_tasks:
  assumes "serving_step cs world d d'" "inv_owned d"
  obtains
    (same) "tasks_of d' = tasks_of d" "dn_round_kinds d' = dn_round_kinds d"
  | (begun) kind due_only where "tasks_of d' = sample_begin kind due_only (tasks_of d)"
      "dn_round_kinds d' = dn_round_kinds d @ opened kind (tasks_of d) (tasks_of d')"
  | (worked) i kind r where "i < length (rt_tasks (tasks_of d))" "rt_tasks (tasks_of d) ! i = Leading kind r"
      "tasks_of d' = sample_record_round i kind r (round_work cs world (dn_config d) r kind) (tasks_of d)"
      "dn_round_kinds d' = dn_round_kinds d"
  | (other) a where "sampler_step (tasks_of d) a (tasks_of d')" "\<And>kind due_only. a \<noteq> Begin kind due_only"
      "\<And>i work. a \<noteq> Work i work" "dn_round_kinds d' = dn_round_kinds d"
      "\<And>i. a = Drop i \<Longrightarrow> \<exists>j request. awaits d j request (AwaitsRound i) \<and> awaits d' j request Gone"
  using assms(1)
proof (cases rule: serving_step.cases)
  case (request_begins now process request)
  show thesis
  proof (cases rule: begin_request_cases [of request now process d])
    case (probes kind)
    then show thesis
      by (intro begun [of kind False]) (simp_all add: request_begins with_node_kinds)
  next
    case (others st es)
    then show thesis by (intro same) (simp_all add: request_begins)
  qed
next
  case (request_drops j request st)
  from drop_request_effect [OF request_drops(2)] show thesis
  proof (elim disjE exE conjE)
    fix i
    assume i: "st = AwaitsRound i" "drop_request j d = set_request j Gone (with_tasks (sample_drop i (tasks_of d)) d)"
    show thesis
      using request_drops(1,2) i ownedD(1) [OF assms(2)]
      by (intro other [of "Drop i"]) (auto simp: drops)
  next
    assume "drop_request j d = set_request j Gone (note_effects (ending (dn_requests d ! j)) d)"
    then show thesis using request_drops(1) by (intro same) simp_all
  qed
next
  case (round_works i kind r)
  then show thesis by (intro worked [of i kind r]) simp_all
next
  case (sampler_proceeds a s)
  then show thesis
    using proceeds_other [OF sampler_proceeds(3)] by (intro other [of a]) auto
next
  case (loop_steps kind n)
  from loop_step_tasks [OF loop_steps(2)] show thesis
  proof
    assume "nr_tasks n = tasks_of d"
    then show thesis using loop_steps(1) by (intro same) (simp_all add: with_node_kinds opened_def)
  next
    assume "nr_tasks n = sample_begin kind True (tasks_of d)"
    then show thesis using loop_steps(1) by (intro begun [of kind True]) (simp_all add: with_node_kinds)
  qed
qed (simp_all add: answer_probe_def answer_exec_def same)

text \<open>A request that awaits a round asked for that kind of probe.\<close>

definition inv_awaiting :: "daemon_run \<Rightarrow> bool" where
  "inv_awaiting d \<longleftrightarrow>
     (\<forall>j request i. awaits d j request (AwaitsRound i) \<longrightarrow>
        (\<exists>kind. request = Probe kind \<and> task_kind (dn_round_kinds d) (rt_tasks (tasks_of d) ! i) = Some kind))"

text \<open>A probe request was answered with what a round of its kind came to.\<close>

definition answer_of :: "daemon_run \<Rightarrow> probe_kind \<Rightarrow> nat \<Rightarrow> (response, node_error) result \<Rightarrow> bool" where
  "answer_of d kind r a \<longleftrightarrow>
     r < length (rt_rounds (tasks_of d)) \<and> dn_round_kinds d ! r = kind
     \<and> (case rt_rounds (tasks_of d) ! r of
          RoundPublished (Ok out) \<Rightarrow>
            a = Ok (ProbeResponse \<lparr>pr_observer = dn_id d, pr_kind = kind, pr_records = out\<rparr>)
        | RoundClosed \<Rightarrow> a = Err ProbeCancelled
        | _ \<Rightarrow> False)"

definition inv_answered :: "daemon_run \<Rightarrow> bool" where
  "inv_answered d \<longleftrightarrow> (\<forall>j kind a. awaits d j (Probe kind) (Answers a) \<longrightarrow> (\<exists>r. answer_of d kind r a))"

definition serving_inv :: "config \<Rightarrow> daemon_run \<Rightarrow> bool" where
  "serving_inv cfg d \<longleftrightarrow>
     dn_config d = cfg \<and> reachable (cf_daemon cfg) (tasks_of d) \<and> inv_owned d
     \<and> kinds_ok (dn_round_kinds d) (tasks_of d) \<and> results_ok cfg (dn_round_kinds d) (tasks_of d)
     \<and> inv_awaiting d \<and> inv_answered d"

lemma serving_invD:
  assumes "serving_inv cfg d"
  shows "dn_config d = cfg" "reachable (cf_daemon cfg) (tasks_of d)" "inv_owned d"
    "kinds_ok (dn_round_kinds d) (tasks_of d)" "results_ok cfg (dn_round_kinds d) (tasks_of d)"
    "inv_awaiting d" "inv_answered d"
  using assms by (simp_all add: serving_inv_def)

lemma sampler_side_step:
  assumes "serving_step cs world d d'" "serving_inv cfg d"
  shows "reachable (cf_daemon cfg) (tasks_of d')" "kinds_ok (dn_round_kinds d') (tasks_of d')"
    "results_ok cfg (dn_round_kinds d') (tasks_of d')"
proof -
  note inv = serving_invD [OF assms(2)]
  note sampler = reachable_inv [OF inv(2)]
  note len = kinds_okD(1) [OF inv(4)]
  have "reachable (cf_daemon cfg) (tasks_of d') \<and> kinds_ok (dn_round_kinds d') (tasks_of d')
    \<and> results_ok cfg (dn_round_kinds d') (tasks_of d')"
    using assms(1) inv(3)
  proof (cases rule: serving_step_tasks)
    case same
    then show ?thesis using inv by simp
  next
    case (begun kind due_only)
    have step: "sampler_step (tasks_of d) (Begin kind due_only) (tasks_of d')"
      unfolding begun(1) by (rule begins)
    show ?thesis
      using reachable_step [OF inv(2) step] kinds_ok_begin [OF inv(4) sampler(1,2), of kind due_only]
        results_ok_other [OF step _ inv(5) sampler(1) len, of "opened kind (tasks_of d) (tasks_of d')"]
      by (simp add: begun)
  next
    case (worked i kind r)
    have step: "sampler_step (tasks_of d) (Work i (round_work cs world (dn_config d) r kind)) (tasks_of d')"
      unfolding worked(3) by (rule works) (use worked(1,2) in simp_all)
    have "dn_round_kinds d ! r = kind"
      using worked(1,2) by (intro kinds_okD(2) [OF inv(4), of i]) (simp add: leader_def)
    then show ?thesis
      using reachable_step [OF inv(2) step] kinds_ok_other [OF step _ inv(4)]
        results_ok_work [OF inv(5) sampler(6), of r kind i cs world r]
      by (simp add: worked(3,4) inv(1))
  next
    case (other a)
    show ?thesis
      using reachable_step [OF inv(2) other(1)] kinds_ok_other [OF other(1,2) inv(4)]
        results_ok_other [OF other(1,3) inv(5) sampler(1) len, of "[]"]
      by (simp add: other(4))
  qed
  then show "reachable (cf_daemon cfg) (tasks_of d')" "kinds_ok (dn_round_kinds d') (tasks_of d')"
    "results_ok cfg (dn_round_kinds d') (tasks_of d')" by blast+
qed

text \<open>A request that already awaited its round still awaits one of its kind.\<close>

lemma awaited_kind_kept:
  assumes "serving_step cs world d d'" "serving_inv cfg d"
    and "awaits d j request (AwaitsRound i)" "awaits d' j request (AwaitsRound i)"
    and "task_kind (dn_round_kinds d) (rt_tasks (tasks_of d) ! i) = Some kind"
  shows "task_kind (dn_round_kinds d') (rt_tasks (tasks_of d') ! i) = Some kind"
proof -
  note inv = serving_invD [OF assms(2)]
  note sampler = reachable_inv [OF inv(2)]
  have i: "i < length (rt_tasks (tasks_of d))" by (rule ownedD(1) [OF inv(3) assms(3)])
  from assms(1) inv(3) show ?thesis
  proof (cases rule: serving_step_tasks)
    case same
    then show ?thesis using assms(5) by simp
  next
    case (begun k due_only)
    obtain t where t: "rt_tasks (sample_begin k due_only (tasks_of d)) = rt_tasks (tasks_of d) @ [t]"
      using sample_begin_tasks by blast
    have "r < length (dn_round_kinds d)"
      if "rt_tasks (tasks_of d) ! i = Following r \<or> (\<exists>x. rt_tasks (tasks_of d) ! i = Returned (Some r) x)" for r
      using that waitersD [OF sampler(3)] nth_mem [OF i] kinds_okD(1) [OF inv(4)] by auto
    then show ?thesis
      using i assms(5) by (simp add: begun t nth_append task_kind_append)
  next
    case (worked l k r)
    have "sampler_step (tasks_of d) (Work l (round_work cs world (dn_config d) r k)) (tasks_of d')"
      unfolding worked(3) by (rule works) (use worked(1,2) in simp_all)
    from task_kind_other [OF this _ _ inv(4) i] show ?thesis
      using assms(5) by (simp add: worked(4))
  next
    case (other a)
    have "a \<noteq> Drop i"
    proof
      assume "a = Drop i"
      then obtain l q where l: "awaits d l q (AwaitsRound i)" "awaits d' l q Gone" using other(5) by blast
      then have "l = j" using ownedD(3) [OF inv(3) assms(3)] by blast
      then show False using awaits_unique [OF l(2)] assms(4) by fastforce
    qed
    from task_kind_other [OF other(1,2) this inv(4) i] show ?thesis
      using assms(5) by (simp add: other(4))
  qed
qed

lemma awaits_round_step:
  assumes "serving_step cs world d d'" "awaits d' j request (AwaitsRound i)"
  obtains
    (before) "awaits d j request (AwaitsRound i)"
  | (begun) kind where "request = Probe kind" "i = length (rt_tasks (tasks_of d))"
      "tasks_of d' = sample_begin kind False (tasks_of d)"
      "dn_round_kinds d' = dn_round_kinds d @ opened kind (tasks_of d) (tasks_of d')"
  using assms(1)
proof (cases rule: serving_step.cases)
  case (request_begins now process q)
  show thesis
  proof (cases rule: begin_request_cases [of q now process d])
    case (probes kind)
    show thesis
    proof (cases "j = length (dn_requests d)")
      case True
      then show thesis
        using assms(2) probes by (intro begun [of kind]) (simp_all add: request_begins with_node_kinds)
    next
      case False
      then show thesis using assms(2) by (intro before) (simp add: request_begins probes(2))
    qed
  next
    case (others st es)
    then show thesis
      using assms(2) by (intro before) (auto simp: request_begins split: if_splits)
  qed
next
  case (probe_answered l kind k round x)
  then show thesis using assms(2) by (intro before) (auto simp: answer_probe_def split: if_splits)
next
  case (exec_answered l program args secs process x)
  then show thesis using assms(2) by (intro before) (auto simp: answer_exec_def split: if_splits)
next
  case (request_drops l q st)
  then show thesis
    using assms(2) drop_request_effect [OF request_drops(2)] by (intro before) (auto split: if_splits)
qed (use assms(2) in \<open>simp_all add: before\<close>)

lemma answer_step:
  assumes "serving_step cs world d d'" "awaits d' j request (Answers a)"
  obtains
    (before) "awaits d j request (Answers a)"
  | (immediate) now process where "request = Health \<or> (\<exists>kind about limit. request = History kind about limit)"
      "j = length (dn_requests d)" "d' = begin_request now process request d"
  | (probed) kind i round x where "request = Probe kind" "awaits d j request (AwaitsRound i)"
      "i < length (rt_tasks (tasks_of d))" "rt_tasks (tasks_of d) ! i = Returned round x"
      "a = map_ok (\<lambda>records. ProbeResponse \<lparr>pr_observer = dn_id d, pr_kind = kind, pr_records = records\<rparr>) x"
      "d' = answer_probe j kind x d"
  | (executed) program args secs process x where "request = Exec program args secs"
      "awaits d j request (Executes process)" "fst (execute process program args secs) = Some x"
      "a = map_ok ExecResponse (map_err CoreError x)" "d' = answer_exec j x d"
  using assms(1)
proof (cases rule: serving_step.cases)
  case (request_begins now process q)
  show thesis
  proof (cases "j = length (dn_requests d)")
    case True
    show thesis
    proof (cases rule: begin_request_cases [of q now process d])
      case (probes kind)
      then show thesis using assms(2) True by (simp add: request_begins)
    next
      case (others st es)
      then have "request = q" "st = Answers a"
        using assms(2) True by (simp_all add: request_begins)
      then show thesis
        using others(4) [of a] True request_begins by (intro immediate [of now process]) simp_all
    qed
  next
    case False
    then show thesis
      using assms(2) by (cases rule: begin_request_cases [of q now process d]) (auto simp: request_begins intro: before)
  qed
next
  case (probe_answered l kind i round x)
  show thesis
  proof (cases "j = l")
    case True
    then have "request = Probe kind"
      using assms(2) probe_answered(1,2) awaits_unique by (fastforce simp: answer_probe_def)
    then show thesis
      using assms(2) probe_answered True by (intro probed [of kind i round x]) (simp_all add: answer_probe_def)
  next
    case False
    then show thesis using assms(2) probe_answered(1) by (intro before) (simp add: answer_probe_def)
  qed
next
  case (exec_answered l program args secs process x)
  show thesis
  proof (cases "j = l")
    case True
    then have "request = Exec program args secs"
      using assms(2) exec_answered(1,2) awaits_unique by (fastforce simp: answer_exec_def)
    then show thesis
      using assms(2) exec_answered True by (intro executed [of program args secs process x]) (simp_all add: answer_exec_def)
  next
    case False
    then show thesis using assms(2) exec_answered(1) by (intro before) (simp add: answer_exec_def)
  qed
next
  case (request_drops l q st)
  then show thesis
    using assms(2) drop_request_effect [OF request_drops(2)] by (intro before) (auto split: if_splits)
qed (use assms(2) in \<open>simp_all add: before\<close>)

lemma answer_of_step:
  assumes "serving_step cs world d d'" "serving_inv cfg d" "answer_of d kind r a" "dn_id d' = dn_id d"
  shows "answer_of d' kind r a"
proof -
  note inv = serving_invD [OF assms(2)]
  note sampler = reachable_inv [OF inv(2)]
  have r: "r < length (rt_rounds (tasks_of d))" "dn_round_kinds d ! r = kind" "rt_rounds (tasks_of d) ! r \<noteq> RoundOpen"
    using assms(3) by (auto simp: answer_of_def split: round.splits result.splits)
  note len = kinds_okD(1) [OF inv(4)]
  have "r < length (rt_rounds (tasks_of d')) \<and> dn_round_kinds d' ! r = kind
    \<and> rt_rounds (tasks_of d') ! r = rt_rounds (tasks_of d) ! r"
    using assms(1) inv(3)
  proof (cases rule: serving_step_tasks)
    case same
    then show ?thesis using r by simp
  next
    case (begun k due_only)
    have step: "sampler_step (tasks_of d) (Begin k due_only) (tasks_of d')"
      unfolding begun(1) by (rule begins)
    have "length (rt_rounds (tasks_of d)) \<le> length (rt_rounds (tasks_of d'))"
      unfolding begun(1) by (cases rule: sample_begin_cases [of "tasks_of d" k due_only]) simp_all
    then show ?thesis
      using settled_round_step [OF step sampler(1) r(1,3)] r len by (simp add: begun(2) nth_append)
  next
    case (worked i k q)
    then show ?thesis using r by simp
  next
    case (other b)
    then show ?thesis
      using settled_round_step [OF other(1) sampler(1) r(1,3)] other_step_rounds(1) [OF other(1,2)] r by simp
  qed
  then show ?thesis using assms(3) unfolding answer_of_def assms(4) by simp
qed

lemma serving_step_fixed:
  assumes "serving_step cs world d d'"
  shows "dn_id d' = dn_id d" "dn_config d' = dn_config d"
  using assms
  by (cases rule: serving_step.cases;
      simp add: begin_request_def answer_probe_def answer_exec_def drop_request_def
        split: request.split request_state.split)+

lemma returned_answer:
  assumes "serving_inv cfg d" "awaits d j (Probe kind) (AwaitsRound i)"
    and "rt_tasks (tasks_of d) ! i = Returned round x"
  shows "\<exists>r. answer_of d kind r
      (map_ok (\<lambda>records. ProbeResponse \<lparr>pr_observer = dn_id d, pr_kind = kind, pr_records = records\<rparr>) x)"
proof -
  note inv = serving_invD [OF assms(1)]
  note sampler = reachable_inv [OF inv(2)]
  have i: "i < length (rt_tasks (tasks_of d))" by (rule ownedD(1) [OF inv(3) assms(2)])
  have "task_kind (dn_round_kinds d) (Returned round x) = Some kind"
    using inv(6) assms(2,3) unfolding inv_awaiting_def by fastforce
  then obtain r where r: "round = Some r" "dn_round_kinds d ! r = kind" by (cases round) simp_all
  have "Returned (Some r) x \<in> set (rt_tasks (tasks_of d))" using nth_mem [OF i] assms(3) r(1) by simp
  then have w: "r < length (rt_rounds (tasks_of d))" "waiter_result (rt_rounds (tasks_of d) ! r) = Some x"
    using waitersD(2) [OF sampler(3)] by blast+
  have "\<exists>out. y = Ok out" if "rt_rounds (tasks_of d) ! r = RoundPublished y" for y
    using inv(5) that w(1) unfolding results_ok_def round_result_def by blast
  then show ?thesis
    using w r(2) by (intro exI [of _ r])
      (auto simp: answer_of_def waiter_result_def split: round.splits)
qed

lemma serving_inv_step:
  assumes "serving_step cs world d d'" "serving_inv cfg d"
  shows "serving_inv cfg d'"
proof -
  note inv = serving_invD [OF assms(2)]
  note same = serving_step_fixed [OF assms(1)]
  note sampler = sampler_side_step [OF assms]
  have "inv_awaiting d'"
    unfolding inv_awaiting_def
  proof (intro allI impI)
    fix j request i assume a: "awaits d' j request (AwaitsRound i)"
    from assms(1) a show "\<exists>kind. request = Probe kind
        \<and> task_kind (dn_round_kinds d') (rt_tasks (tasks_of d') ! i) = Some kind"
    proof (cases rule: awaits_round_step)
      case before
      then obtain kind where "request = Probe kind"
        "task_kind (dn_round_kinds d) (rt_tasks (tasks_of d) ! i) = Some kind"
        using inv(6) unfolding inv_awaiting_def by blast
      then show ?thesis using awaited_kind_kept [OF assms before a] by blast
    next
      case (begun kind)
      then show ?thesis
        using manual_task_kind [OF inv(4) reachable_inv(2) [OF inv(2)], of kind] by simp
    qed
  qed
  moreover have "inv_answered d'"
    unfolding inv_answered_def
  proof (intro allI impI)
    fix j kind a assume a: "awaits d' j (Probe kind) (Answers a)"
    from assms(1) a show "\<exists>r. answer_of d' kind r a"
    proof (cases rule: answer_step)
      case before
      then obtain r where "answer_of d kind r a" using inv(7) unfolding inv_answered_def by blast
      then show ?thesis using answer_of_step [OF assms _ same(1)] by blast
    next
      case (probed kind' i round x)
      have "kind' = kind" using probed(1) by simp
      then obtain r where "answer_of d kind r a"
        using returned_answer [OF assms(2) probed(2,4)] unfolding probed(5) by blast
      then show ?thesis using answer_of_step [OF assms _ same(1)] by blast
    qed simp_all
  qed
  ultimately show ?thesis
    using inv same sampler owned_step [OF assms(1)] by (simp add: serving_inv_def)
qed

lemma serving_inv: "serving cs world cfg d \<Longrightarrow> serving_inv cfg d"
proof (induction rule: serving.induct)
  case (serving_starts name now)
  have "reachable (cf_daemon cfg) (runtime_new (cf_daemon cfg) now)"
    unfolding reachable_def by (blast intro: run_nil)
  then show ?case
    using owned_start [of cfg name now] kinds_ok_new [of "cf_daemon cfg" now]
    by (simp add: serving_inv_def daemon_start_def node_start_def inv_awaiting_def inv_answered_def
        awaits_def request_at_def results_ok_def round_result_def)
next
  case (serving_steps d d')
  then show ?case using serving_inv_step by blast
qed

section \<open>The daemon and its parts\<close>

text \<open>Seen from the scheduler, the requests are the other tasks of the node.\<close>

lemma serving_step_node:
  assumes "serving_step cs world d d'" "inv_owned d" "node_reachable settings (dn_node d)"
  shows "node_reachable settings (dn_node d')"
proof -
  have tasks: "node_reachable settings ((dn_node d)\<lparr>nr_tasks := s\<rparr>)"
    if "sampler_step (tasks_of d) a s" "\<And>i k. a = Drop i \<Longrightarrow> nr_loops (dn_node d) k \<noteq> Some (Probing i)" for a s
    using node_reachable.step [OF assms(3) task [OF that]] .
  show ?thesis
    using assms(1)
  proof (cases rule: serving_step.cases)
    case (request_begins now process request)
    show ?thesis
    proof (cases rule: begin_request_cases [of request now process d])
      case (probes kind)
      then show ?thesis using tasks [OF begins] by (simp add: request_begins)
    qed (use assms(3) in \<open>simp add: request_begins\<close>)
  next
    case (request_drops j request st)
    from drop_request_effect [OF request_drops(2)] show ?thesis
    proof (elim disjE exE conjE)
      fix i assume i: "st = AwaitsRound i" "drop_request j d = set_request j Gone (with_tasks (sample_drop i (tasks_of d)) d)"
      have "node_reachable settings ((dn_node d)\<lparr>nr_tasks := sample_drop i (tasks_of d)\<rparr>)"
        using ownedD(1,2) [OF assms(2)] request_drops(2) i(1)
        by (intro tasks [OF drops]) blast+
      then show ?thesis by (simp add: request_drops(1) i(2))
    qed (use assms(3) in \<open>simp add: request_drops(1)\<close>)
  next
    case (round_works i kind r)
    then show ?thesis using tasks [OF works [OF round_works(2,3)]] by simp
  next
    case (sampler_proceeds a s)
    then show ?thesis using tasks [OF sampler_proceeds(2)] proceeds_other(3) by (metis with_fields(8))
  next
    case (loop_steps kind n)
    then show ?thesis using node_reachable.step [OF assms(3) loops] by simp
  qed (use assms(3) in \<open>simp_all add: answer_probe_def answer_exec_def\<close>)
qed

lemma serving_node: "serving cs world cfg d \<Longrightarrow> node_reachable (cf_daemon cfg) (dn_node d)"
proof (induction rule: serving.induct)
  case (serving_starts name now)
  show ?case by (simp add: daemon_start_def node_reachable.start)
next
  case (serving_steps d d')
  then show ?case
    using serving_step_node serving_invD(3) [OF serving_inv] by blast
qed

text \<open>What the history was given is there, unless enough newer results have replaced it.\<close>

lemma history_of_log:
  assumes "serving_inv cfg d"
  shows "history_stored (sm_history (tasks_of d)) k =
      take_last (max (dc_history_size (cf_daemon cfg)) 1)
        (filter (\<lambda>y. record_key y = k) (recorded_log (dc_history_size (cf_daemon cfg)) (tasks_of d)))"
proof -
  note inv = reachable_inv(6) [OF serving_invD(2) [OF assms], unfolded inv_history_def]
  show ?thesis unfolding recorded_log_def by (subst inv) (rule history_stored_log)
qed

lemma in_take_last: "length newer < n \<Longrightarrow> x \<in> set (take_last n (older @ x # newer))"
proof -
  assume "length newer < n"
  then have "length (older @ x # newer) - n \<le> length older" by simp
  then show ?thesis by (simp add: take_last_def)
qed

text \<open>
  At least as many newer results of the same check have been recorded as the history keeps; a
  result is in the history, and a query that asks for it and is not cut off returns it.
\<close>

definition superseded :: "daemon_run \<Rightarrow> check_record \<Rightarrow> bool" where
  "superseded d x \<longleftrightarrow>
     (\<exists>older newer. filter (\<lambda>y. record_key y = record_key x)
          (recorded_log (dc_history_size (cf_daemon (dn_config d))) (tasks_of d)) = older @ x # newer
        \<and> max (dc_history_size (cf_daemon (dn_config d))) 1 \<le> length newer)"

definition in_history :: "daemon_run \<Rightarrow> check_record \<Rightarrow> bool" where
  "in_history d x \<longleftrightarrow>
     x \<in> set (history_stored (sm_history (tasks_of d)) (record_key x))
     \<and> (\<forall>kind about limit. kind_matches kind (r_kind x) \<longrightarrow> about_matches about x \<longrightarrow>
          length (matching_records (sm_history (tasks_of d)) kind about) \<le> min limit MAX_HISTORY_QUERY \<longrightarrow>
          x \<in> set (history_query (sm_history (tasks_of d)) kind about limit))"

lemma history_query_all:
  "length (matching_records h kind about) \<le> min limit MAX_HISTORY_QUERY \<Longrightarrow>
     set (history_query h kind about limit) = set (matching_records h kind about)"
  by (simp add: history_query_def Let_def)

lemma recorded_kept:
  assumes "serving_inv cfg d" "x \<in> set (recorded_log (dc_history_size (cf_daemon cfg)) (tasks_of d))"
  shows "in_history d x \<or> superseded d x"
proof (cases "x \<in> set (history_stored (sm_history (tasks_of d)) (record_key x))")
  case True
  have "history_wf (sm_history (tasks_of d))"
    using reachable_inv(6) [OF serving_invD(2) [OF assms(1)]] store.inv_insert_all [OF history_wf_new]
    by (simp add: inv_history_def)
  from matching_records_iff [OF this] True show ?thesis
    by (simp add: in_history_def history_query_all)
next
  case False
  let ?n = "max (dc_history_size (cf_daemon cfg)) 1"
  let ?F = "filter (\<lambda>y. record_key y = record_key x) (recorded_log (dc_history_size (cf_daemon cfg)) (tasks_of d))"
  have "x \<in> set ?F" using assms(2) by simp
  then obtain older newer where F: "?F = older @ x # newer" by (meson split_list)
  have "?n \<le> length newer"
  proof (rule ccontr)
    assume "\<not> ?n \<le> length newer"
    then have "x \<in> set (take_last ?n (older @ x # newer))"
      by (intro in_take_last) (simp only: not_le)
    then have "x \<in> set (history_stored (sm_history (tasks_of d)) (record_key x))"
      unfolding history_of_log [OF assms(1)] F .
    then show False using False by contradiction
  qed
  then show ?thesis
    unfolding superseded_def serving_invD(1) [OF assms(1)] using F by blast
qed

lemma probe_answer_ok:
  assumes "serving_inv cfg d" "awaits d j (Probe kind) (Answers (Ok a))"
  obtains out where "a = ProbeResponse \<lparr>pr_observer = dn_id d, pr_kind = kind, pr_records = out\<rparr>"
    "reported cfg kind out" "set out \<subseteq> set (recorded_log (dc_history_size (cf_daemon cfg)) (tasks_of d))"
proof -
  obtain r where r: "answer_of d kind r (Ok a)"
    using serving_invD(7) [OF assms(1)] assms(2) unfolding inv_answered_def by blast
  then obtain out where out: "rt_rounds (tasks_of d) ! r = RoundPublished (Ok out)"
    "a = ProbeResponse \<lparr>pr_observer = dn_id d, pr_kind = kind, pr_records = out\<rparr>"
    "r < length (rt_rounds (tasks_of d))" "dn_round_kinds d ! r = kind"
    by (auto simp: answer_of_def split: round.splits result.splits)
  then have "round_result (tasks_of d) r (Ok out)" by (simp add: round_result_def)
  then show thesis
    using serving_invD(5) [OF assms(1)] out(2,4) that unfolding results_ok_def by blast
qed

text \<open>Nothing happens to a request that has its answer.\<close>

lemma answers_stay:
  assumes "serving_step cs world d d'" "awaits d j request (Answers a)"
  shows "awaits d' j request (Answers a)"
proof -
  have other: "l \<noteq> j" if "awaits d l q st" "st \<in> range AwaitsRound \<union> range Executes" for l q st
    using awaits_unique [OF assms(2)] that by fastforce
  have new: "length (dn_requests d) \<noteq> j" using awaits_bound [OF assms(2)] by simp
  from assms(1) show ?thesis
  proof (cases rule: serving_step.cases)
    case (request_begins now process q)
    then show ?thesis
      using assms(2) new by (cases rule: begin_request_cases [of q now process d]) auto
  next
    case (probe_answered l kind i round x)
    then show ?thesis using assms(2) other [OF probe_answered(2)] by (simp add: answer_probe_def)
  next
    case (exec_answered l program args secs process x)
    then show ?thesis using assms(2) other [OF exec_answered(2)] by (simp add: answer_exec_def)
  next
    case (request_drops l q st)
    then show ?thesis
      using assms(2) other [OF request_drops(2,3)] drop_request_effect [OF request_drops(2)] by auto
  qed (use assms(2) in simp_all)
qed

lemma dispatch_health:
  "fst (dispatch env (daemon_node dialer d) Health) =
     Some (Ok (HealthResponse \<lparr>h_endpoint_id = dn_id d, h_status = ''ok'', h_version = VERSION\<rparr>))"
  by (simp add: dispatch_def daemon_node_def)

lemma dispatch_history:
  "fst (dispatch env (daemon_node dialer d) (History kind about limit)) =
     Some (Ok (HistoryResponse \<lparr>hr_observer = dn_id d, hr_queried_at = de_now env,
       hr_records = history_query (sm_history (tasks_of d)) kind about limit\<rparr>))"
  by (simp add: dispatch_def daemon_node_def sampler.defs)

lemma dispatch_probe:
  "fst (dispatch env (daemon_node dialer d) (Probe kind)) =
     Some (map_ok (\<lambda>records. ProbeResponse \<lparr>pr_observer = dn_id d, pr_kind = kind, pr_records = records\<rparr>)
       (de_sampled env))"
  by (simp add: dispatch_def daemon_node_def)

lemma dispatch_exec:
  "fst (dispatch env node (Exec program args secs)) =
     map_option (\<lambda>x. map_ok ExecResponse (map_err CoreError x)) (fst (execute (de_exec env) program args secs))"
  by (simp add: dispatch_def split_def)

lemmas dispatch_answers = dispatch_health dispatch_history dispatch_probe dispatch_exec

lemma answer_is_dispatched:
  assumes "serving_inv cfg d" "serving_step cs world d d'"
    and "awaits d' j request (Answers a)" "\<not> awaits d j request (Answers a)"
  shows "\<exists>sampled process clock.
      fst (dispatch (env\<lparr>de_sampled := sampled, de_exec := process, de_now := clock\<rparr>)
        (daemon_node dialer d) request) = Some a
      \<and> (\<forall>kind. request = Probe kind \<longrightarrow>
           (\<exists>r < length (rt_rounds (tasks_of d)). dn_round_kinds d ! r = kind
              \<and> waiter_result (rt_rounds (tasks_of d) ! r) = Some sampled))"
  using assms(2,3)
proof (cases rule: answer_step)
  case before
  then show ?thesis using assms(4) by blast
next
  case (immediate now process)
  show ?thesis
    using immediate(1) assms(3)
    by (intro exI [of _ "Ok []"] exI [of _ "de_exec env"] exI [of _ now])
      (auto simp: immediate(2,3) begin_request_def dispatch_answers)
next
  case (probed kind i round x)
  note inv = serving_invD [OF assms(1)]
  have kind: "task_kind (dn_round_kinds d) (Returned round x) = Some kind"
    using inv(6) probed(1,2,4) unfolding inv_awaiting_def by fastforce
  then obtain r where r: "round = Some r" "dn_round_kinds d ! r = kind" by (cases round) simp_all
  have "Returned (Some r) x \<in> set (rt_tasks (tasks_of d))"
    using nth_mem [OF probed(3)] probed(4) r(1) by simp
  then have "r < length (rt_rounds (tasks_of d))" "waiter_result (rt_rounds (tasks_of d) ! r) = Some x"
    using waitersD(2) [OF reachable_inv(3) [OF inv(2)]] by blast+
  then show ?thesis
    using r(2)
    by (intro exI [of _ x] exI [of _ "de_exec env"] exI [of _ 0])
      (auto simp: probed(1,5) dispatch_answers)
next
  case (executed program args secs process x)
  then show ?thesis
    by (intro exI [of _ "Ok []"] exI [of _ process] exI [of _ 0]) (simp add: dispatch_answers)
qed

text \<open>A probe request can be answered in \<open>n\<close> steps, none of which waits for time to pass.\<close>

definition answerable :: "codecs \<Rightarrow> ('f, 'c) world \<Rightarrow> nat \<Rightarrow> daemon_run \<Rightarrow> nat \<Rightarrow> probe_kind \<Rightarrow> bool" where
  "answerable cs world n d j kind \<longleftrightarrow>
     (\<exists>m d' a. m \<le> n \<and> (serving_step cs world ^^ m) d d' \<and> rt_clock (tasks_of d') = rt_clock (tasks_of d)
        \<and> awaits d' j (Probe kind) (Answers a))"

lemma answerable_step:
  assumes "serving_step cs world d e" "rt_clock (tasks_of e) = rt_clock (tasks_of d)"
    and "answerable cs world n e j kind"
  shows "answerable cs world (Suc n) d j kind"
proof -
  obtain m d' a where m: "m \<le> n" "(serving_step cs world ^^ m) e d'"
    "rt_clock (tasks_of d') = rt_clock (tasks_of e)" "awaits d' j (Probe kind) (Answers a)"
    using assms(3) unfolding answerable_def by blast
  have "(serving_step cs world ^^ Suc m) d d'" by (rule relpowp_Suc_I2 [OF assms(1) m(2)])
  then show ?thesis
    unfolding answerable_def using m assms(2) by (intro exI [of _ "Suc m"] exI [of _ d'] exI [of _ a]) simp
qed

lemma answerable_returned:
  assumes "awaits d j (Probe kind) (AwaitsRound i)" "i < length (rt_tasks (tasks_of d))"
    and "rt_tasks (tasks_of d) ! i = Returned round x"
  shows "answerable cs world 1 d j kind"
proof -
  have "serving_step cs world d (answer_probe j kind x d)" by (rule probe_answered [OF assms])
  then show ?thesis
    unfolding answerable_def using assms(1)
    by (intro exI [of _ 1] exI [of _ "answer_probe j kind x d"])
      (auto simp: answer_probe_def relcompp_apply)
qed

lemma answerable_sampler:
  assumes "sampler_step (tasks_of d) a s" "proceeds a" "rt_clock s = rt_clock (tasks_of d)"
    and "answerable cs world n (with_tasks s d) j kind"
  shows "answerable cs world (Suc n) d j kind"
  by (rule answerable_step [OF sampler_proceeds [OF assms(1,2)] _ assms(4)]) (simp add: assms(3))

lemma answerable_settled:
  assumes "awaits d j (Probe kind) (AwaitsRound i)" "i < length (rt_tasks (tasks_of d))"
    and "rt_tasks (tasks_of d) ! i = Following r" "rt_rounds (tasks_of d) ! r \<noteq> RoundOpen"
  shows "answerable cs world 2 d j kind"
proof -
  obtain x where "waiter_result (rt_rounds (tasks_of d) ! r) = Some x"
    using assms(4) by (cases "rt_rounds (tasks_of d) ! r") (simp_all add: waiter_result_def)
  then have woken: "sample_wake i r (tasks_of d) =
      (tasks_of d)\<lparr>rt_tasks := (rt_tasks (tasks_of d))[i := Returned (Some r) x]\<rparr>"
    by (simp add: sample_wake_def)
  have "answerable cs world 1 (with_tasks (sample_wake i r (tasks_of d)) d) j kind"
    using assms(1,2) by (intro answerable_returned [of _ _ _ i "Some r" x]) (simp_all add: woken)
  from answerable_sampler [OF wakes [OF assms(2-4)] _ _ this] show ?thesis
    by (simp add: woken numeral_2_eq_2)
qed

lemma answerable_publishing:
  assumes "awaits d j (Probe kind) (AwaitsRound i)" "i < length (rt_tasks (tasks_of d))"
    and "rt_tasks (tasks_of d) ! i = Publishing k r x"
  shows "answerable cs world 2 d j kind"
proof -
  let ?s = "sample_publish i k r x (tasks_of d)"
  have "answerable cs world 1 (with_tasks ?s d) j kind"
    using assms(1,2)
    by (intro answerable_returned [of _ _ _ i "Some r" "map_err ProbeFailed x"]) (simp_all add: sample_publish_def)
  from answerable_sampler [OF publishes [OF assms(2,3)] _ _ this] show ?thesis
    by (simp add: sample_publish_def numeral_2_eq_2)
qed

lemma answerable_published_for:
  assumes "awaits d j (Probe kind) (AwaitsRound i)" "i < length (rt_tasks (tasks_of d))"
    and "rt_tasks (tasks_of d) ! i = Following r" "r < length (rt_rounds (tasks_of d))"
    and "l < length (rt_tasks (tasks_of d))" "rt_tasks (tasks_of d) ! l = Publishing k r x"
  shows "answerable cs world 3 d j kind"
proof -
  let ?s = "sample_publish l k r x (tasks_of d)"
  have "l \<noteq> i" using assms(3,6) by auto
  then have "answerable cs world 2 (with_tasks ?s d) j kind"
    using assms(1-4) by (intro answerable_settled [of _ _ _ i r]) (simp_all add: sample_publish_def)
  from answerable_sampler [OF publishes [OF assms(5,6)] _ _ this] show ?thesis
    by (simp add: sample_publish_def numeral_3_eq_3 numeral_2_eq_2)
qed

lemma answerable_work:
  assumes "l < length (rt_tasks (tasks_of d))" "rt_tasks (tasks_of d) ! l = Leading k r"
    and "answerable cs world n
      (with_tasks (sample_record_round l k r (round_work cs world (dn_config d) r k) (tasks_of d)) d) j kind"
  shows "answerable cs world (Suc n) d j kind"
  by (rule answerable_step [OF round_works [OF assms(1,2)] _ assms(3)]) simp

lemma waiting_probe_answerable:
  assumes "serving_inv cfg d" "awaits d j (Probe kind) (AwaitsRound i)"
  shows "answerable cs world 4 d j kind"
proof -
  note inv = serving_invD [OF assms(1)]
  note sampler = reachable_inv [OF inv(2)]
  have i: "i < length (rt_tasks (tasks_of d))" by (rule ownedD(1) [OF inv(3) assms(2)])
  have more: "answerable cs world 4 d j kind" if "answerable cs world n d j kind" "n \<le> 4" for n
    using that unfolding answerable_def by (meson le_trans)
  have kind: "task_kind (dn_round_kinds d) (rt_tasks (tasks_of d) ! i) = Some kind"
    using inv(6) assms(2) unfolding inv_awaiting_def by blast
  show ?thesis
  proof (cases "rt_tasks (tasks_of d) ! i")
    case (Leading k r)
    let ?e = "with_tasks (sample_record_round i k r (round_work cs world (dn_config d) r k) (tasks_of d)) d"
    have "answerable cs world 2 ?e j kind"
      using assms(2) i by (intro answerable_publishing [of _ _ _ i k r]) simp_all
    from more [OF answerable_work [OF i Leading this]] show ?thesis by simp
  next
    case (Publishing k r x)
    from more [OF answerable_publishing [OF assms(2) i this]] show ?thesis by simp
  next
    case (Returned round x)
    from more [OF answerable_returned [OF assms(2) i this]] show ?thesis by simp
  next
    case TaskDropped
    then show ?thesis using kind by simp
  next
    case (Following r)
    show ?thesis
    proof (cases "rt_rounds (tasks_of d) ! r = RoundOpen")
      case False
      from more [OF answerable_settled [OF assms(2) i Following False]] show ?thesis by simp
    next
      case True
      have r: "r < length (rt_rounds (tasks_of d))"
        using waitersD(1) [OF sampler(3), of r] nth_mem [OF i] Following by simp
      obtain l k where l: "l < length (rt_tasks (tasks_of d))" "leads (rt_tasks (tasks_of d) ! l) = Some (k, r)"
        using roundsD(1) [OF sampler(2) r True] by (auto simp: leader_def)
      show ?thesis
      proof (cases "rt_tasks (tasks_of d) ! l")
        case (Leading k' r')
        then have lead: "rt_tasks (tasks_of d) ! l = Leading k r" using l(2) by simp
        let ?e = "with_tasks (sample_record_round l k r (round_work cs world (dn_config d) r k) (tasks_of d)) d"
        have "l \<noteq> i" using lead Following by auto
        then have "answerable cs world 3 ?e j kind"
          using assms(2) i l(1) r Following
          by (intro answerable_published_for [of _ _ _ i r l k]) simp_all
        from more [OF answerable_work [OF l(1) lead this]] show ?thesis by simp
      next
        case (Publishing k' r' x)
        then have "rt_tasks (tasks_of d) ! l = Publishing k r x" using l(2) by simp
        from more [OF answerable_published_for [OF assms(2) i Following r l(1) this]] show ?thesis by simp
      qed (use l(2) in simp_all)
    qed
  qed
qed

section \<open>Properties\<close>

text \<open>
  C30. A daemon that serves many requests at once answers each as \<open>dispatch\<close> does: in the step in
  which a request gets its answer, whatever the other requests and the scheduler have done,
  that answer is the one \<open>dispatch\<close> gives for it on the daemon as it is then, with the result
  of a process, the clock, or, for a probe, what a round of the sampler came to; and an answer
  that was given never changes. What holds of \<open>dispatch\<close> therefore holds for concurrent requests.
\<close>

theorem requests_refine_dispatch:
  assumes "serving cs world cfg d" "serving_step cs world d d'"
  shows "(\<forall>j request a. awaits d' j request (Answers a) \<and> \<not> awaits d j request (Answers a) \<longrightarrow>
      (\<exists>sampled process clock.
         fst (dispatch (env\<lparr>de_sampled := sampled, de_exec := process, de_now := clock\<rparr>)
           (daemon_node dialer d) request) = Some a
         \<and> (\<forall>kind. request = Probe kind \<longrightarrow>
              (\<exists>r < length (rt_rounds (tasks_of d)). dn_round_kinds d ! r = kind
                 \<and> waiter_result (rt_rounds (tasks_of d) ! r) = Some sampled))))
    \<and> (\<forall>j request a. awaits d j request (Answers a) \<longrightarrow> awaits d' j request (Answers a))"
proof (intro conjI allI impI; (elim conjE)?)
  fix j request a
  assume "awaits d' j request (Answers a)" "\<not> awaits d j request (Answers a)"
  then show "\<exists>sampled process clock.
      fst (dispatch (env\<lparr>de_sampled := sampled, de_exec := process, de_now := clock\<rparr>)
        (daemon_node dialer d) request) = Some a
      \<and> (\<forall>kind. request = Probe kind \<longrightarrow>
           (\<exists>r < length (rt_rounds (tasks_of d)). dn_round_kinds d ! r = kind
              \<and> waiter_result (rt_rounds (tasks_of d) ! r) = Some sampled))"
    by (rule answer_is_dispatched [OF serving_inv [OF assms(1)] assms(2)])
next
  fix j request a
  assume "awaits d j request (Answers a)"
  then show "awaits d' j request (Answers a)" by (rule answers_stay [OF assms(2)])
qed

text \<open>In the example one probe request comes, runs its round and is answered.\<close>

definition sample_asked :: daemon_run where
  "sample_asked = begin_request 0 sample_env (Probe Peers) (daemon_start sample_config ''me'' 0)"

definition sample_worked :: "codecs \<Rightarrow> ('f, 'c) world \<Rightarrow> daemon_run" where
  "sample_worked cs world = with_tasks
     (sample_record_round 0 Peers 0 (round_work cs world sample_config 0 Peers) (tasks_of sample_asked)) sample_asked"

definition sample_result :: "codecs \<Rightarrow> ('f, 'c) world \<Rightarrow> shared_result" where
  "sample_result cs world =
     annotated_result (tasks_of sample_asked) (round_work cs world sample_config 0 Peers)"

definition sample_published :: "codecs \<Rightarrow> ('f, 'c) world \<Rightarrow> daemon_run" where
  "sample_published cs world = with_tasks
     (sample_publish 0 Peers 0 (sample_result cs world) (tasks_of (sample_worked cs world))) (sample_worked cs world)"

definition sample_answered :: "codecs \<Rightarrow> ('f, 'c) world \<Rightarrow> daemon_run" where
  "sample_answered cs world =
     answer_probe 0 Peers (map_err ProbeFailed (sample_result cs world)) (sample_published cs world)"

definition sample_answer :: "codecs \<Rightarrow> ('f, 'c) world \<Rightarrow> (response, node_error) result" where
  "sample_answer cs world =
     map_ok (\<lambda>records. ProbeResponse \<lparr>pr_observer = ''me'', pr_kind = Peers, pr_records = records\<rparr>)
       (map_err ProbeFailed (sample_result cs world))"

lemma sample_asked_facts:
  "rt_tasks (tasks_of sample_asked) = [Leading Peers 0]" "awaits sample_asked 0 (Probe Peers) (AwaitsRound 0)"
  "dn_config sample_asked = sample_config" "dn_id sample_asked = ''me''"
  by (simp_all add: sample_asked_def begin_request_def daemon_start_def node_start_def sample_begin_def
      slot_default_def Let_def)

lemma sample_asked_serving: "serving cs world sample_config sample_asked"
  unfolding sample_asked_def by (rule serving_steps [OF serving_starts request_begins])

lemma sample_published_facts:
  "rt_tasks (tasks_of (sample_published cs world)) = [Returned (Some 0) (map_err ProbeFailed (sample_result cs world))]"
  "awaits (sample_published cs world) 0 (Probe Peers) (AwaitsRound 0)" "dn_id (sample_published cs world) = ''me''"
  by (simp_all add: sample_published_def sample_worked_def sample_publish_def sample_asked_facts)

lemma sample_published_serving: "serving cs world sample_config (sample_published cs world)"
proof -
  have "serving_step cs world sample_asked (sample_worked cs world)"
    unfolding sample_worked_def sample_asked_facts(3) [symmetric]
    by (rule round_works) (simp_all add: sample_asked_facts(1))
  moreover have "serving_step cs world (sample_worked cs world) (sample_published cs world)"
    unfolding sample_published_def
    by (intro sampler_proceeds [of _ "Publish 0"] publishes)
      (simp_all add: sample_worked_def sample_asked_facts(1) sample_result_def)
  ultimately show ?thesis using serving_steps sample_asked_serving by blast
qed

lemma sample_answered_step: "serving_step cs world (sample_published cs world) (sample_answered cs world)"
  unfolding sample_answered_def
  by (rule probe_answered [of _ _ _ 0 "Some 0"]) (simp_all add: sample_published_facts)

lemma sample_answered_facts:
  "awaits (sample_answered cs world) 0 (Probe Peers) (Answers (sample_answer cs world))"
  "\<not> awaits (sample_published cs world) 0 (Probe Peers) (Answers (sample_answer cs world))"
  "\<exists>records. sample_answer cs world =
     Ok (ProbeResponse \<lparr>pr_observer = ''me'', pr_kind = Peers, pr_records = records\<rparr>)"
proof -
  show "awaits (sample_answered cs world) 0 (Probe Peers) (Answers (sample_answer cs world))"
    using sample_published_facts(2) [of cs world]
    by (auto simp: sample_answered_def answer_probe_def sample_answer_def sample_published_facts(3))
  show "\<not> awaits (sample_published cs world) 0 (Probe Peers) (Answers (sample_answer cs world))"
    using awaits_unique [OF sample_published_facts(2)] by blast
  obtain records where "round_work cs world sample_config 0 Peers = Ok records"
    by (rule round_work_reported [where cs = cs and world = world and cfg = sample_config and r = 0 and kind = Peers])
  then show "\<exists>records. sample_answer cs world =
     Ok (ProbeResponse \<lparr>pr_observer = ''me'', pr_kind = Peers, pr_records = records\<rparr>)"
    by (simp add: sample_answer_def sample_result_def annotated_result_def)
qed

theorem requests_refine_dispatch_witness:
  "\<forall>cs (world :: (nat, nat) world) (env :: (nat, nat) dispatch_env) dialer.
     \<exists>sampled process clock.
       fst (dispatch (env\<lparr>de_sampled := sampled, de_exec := process, de_now := clock\<rparr>)
         (daemon_node (dialer :: nat dialer) (sample_published cs world)) (Probe Peers))
       = Some (sample_answer cs world)"
proof (intro allI)
  fix cs and world :: "(nat, nat) world" and env :: "(nat, nat) dispatch_env" and dialer :: "nat dialer"
  show "\<exists>sampled process clock.
       fst (dispatch (env\<lparr>de_sampled := sampled, de_exec := process, de_now := clock\<rparr>)
         (daemon_node dialer (sample_published cs world)) (Probe Peers)) = Some (sample_answer cs world)"
    using conjunct1 [OF requests_refine_dispatch [OF sample_published_serving sample_answered_step,
        of cs world env dialer], rule_format, OF conjI, OF sample_answered_facts(1,2)] by blast
qed

text \<open>
  C31. Every probe answer of a daemon, of its own round or of one that was already running, is
  one well-formed record of that kind per configured target, in order, unless the request
  that led the round was dropped; and every record of it is in the history and found by the
  history requests that ask for it, unless at least as many newer results of the same check
  as the history keeps have replaced it.
\<close>

theorem probe_answers_are_complete_and_kept:
  assumes "serving cs world cfg d" "awaits d j (Probe kind) (Answers a)"
  shows "a = Err ProbeCancelled
    \<or> (\<exists>out. a = Ok (ProbeResponse \<lparr>pr_observer = dn_id d, pr_kind = kind, pr_records = out\<rparr>)
         \<and> map r_target out = configured_targets cfg kind
         \<and> (\<forall>x \<in> set out. r_kind x = kind \<and> (r_success x \<longleftrightarrow> r_error x = None))
         \<and> (\<forall>x \<in> set out. in_history d x \<or> superseded d x))"
proof -
  note inv = serving_inv [OF assms(1)]
  show ?thesis
  proof (cases a)
    case (Err e)
    obtain r where "answer_of d kind r a"
      using serving_invD(7) [OF inv] assms(2) unfolding inv_answered_def by blast
    then have "e = ProbeCancelled" by (auto simp: answer_of_def Err split: round.splits result.splits)
    then show ?thesis by (simp add: Err)
  next
    case (Ok y)
    obtain out where out: "y = ProbeResponse \<lparr>pr_observer = dn_id d, pr_kind = kind, pr_records = out\<rparr>"
      "reported cfg kind out" "set out \<subseteq> set (recorded_log (dc_history_size (cf_daemon cfg)) (tasks_of d))"
      by (rule probe_answer_ok [OF inv]) (use assms(2) Ok in simp)
    then show ?thesis using recorded_kept [OF inv] by (fastforce simp: Ok reported_def)
  qed
qed

theorem probe_answers_are_complete_and_kept_witness:
  "\<forall>cs (world :: (nat, nat) world). \<exists>x.
     sample_answer cs world = Ok (ProbeResponse \<lparr>pr_observer = ''me'', pr_kind = Peers, pr_records = [x]\<rparr>)
     \<and> r_target x = ''k''
     \<and> (in_history (sample_answered cs world) x \<or> superseded (sample_answered cs world) x)"
proof (intro allI)
  fix cs and world :: "(nat, nat) world"
  have "serving cs world sample_config (sample_answered cs world)"
    by (rule serving_steps [OF sample_published_serving sample_answered_step])
  from probe_answers_are_complete_and_kept [OF this sample_answered_facts(1)] sample_answered_facts(3) [of cs world]
  obtain out where out: "sample_answer cs world = Ok (ProbeResponse
      \<lparr>pr_observer = ''me'', pr_kind = Peers, pr_records = out\<rparr>)"
    "map r_target out = configured_targets sample_config Peers"
    "\<forall>x \<in> set out. in_history (sample_answered cs world) x \<or> superseded (sample_answered cs world) x"
    by fastforce
  then obtain x where "out = [x]" "r_target x = ''k''"
    by (auto simp: configured_targets_def sample_config_def bt_values_def map_eq_Cons_conv)
  with out show "\<exists>x. sample_answer cs world = Ok (ProbeResponse
      \<lparr>pr_observer = ''me'', pr_kind = Peers, pr_records = [x]\<rparr>) \<and> r_target x = ''k''
     \<and> (in_history (sample_answered cs world) x \<or> superseded (sample_answered cs world) x)" by auto
qed

text \<open>
  C32. No probe request hangs: in every reachable state of the daemon, whoever leads the round it
  waits for and whatever has been dropped, it can get its answer within four steps, none of
  which waits for time to pass or for any other request.
\<close>

theorem waiting_probes_can_be_answered:
  assumes "serving cs world cfg d" "awaits d j (Probe kind) (AwaitsRound i)"
  shows "\<exists>m d' a. m \<le> 4 \<and> (serving_step cs world ^^ m) d d' \<and> rt_clock (tasks_of d') = rt_clock (tasks_of d)
    \<and> awaits d' j (Probe kind) (Answers a)"
  using waiting_probe_answerable [OF serving_inv [OF assms(1)] assms(2)] unfolding answerable_def .

theorem waiting_probes_can_be_answered_witness:
  "\<forall>cs (world :: (nat, nat) world). \<exists>m d' a. m \<le> 4 \<and> (serving_step cs world ^^ m) sample_asked d'
     \<and> awaits d' 0 (Probe Peers) (Answers a)"
proof (intro allI)
  fix cs and world :: "(nat, nat) world"
  show "\<exists>m d' a. m \<le> 4 \<and> (serving_step cs world ^^ m) sample_asked d' \<and> awaits d' 0 (Probe Peers) (Answers a)"
    using waiting_probes_can_be_answered [OF sample_asked_serving sample_asked_facts(2), of cs world] by blast
qed

end
