(* ===== verification/Stopping.thy ===== *)
theory Stopping
  imports Requests
begin

text \<open>
  What a daemon holds while it serves, and that it lets go of all of it: the process groups of its
  requests, the calls of \<open>sample\<close> with their owners, and the tasks that are aborted when it
  stops (\<open>abort_all\<close> in \<open>daemon.rs\<close>).
\<close>

section \<open>Processes\<close>

text \<open>The process groups that were started, and those that were killed.\<close>

fun started :: "exec_effect list \<Rightarrow> nat multiset" where
  "started [] = {#}"
| "started (Spawned pid program args # es) = add_mset pid (started es)"
| "started (KillGroup pid # es) = started es"

fun killed :: "exec_effect list \<Rightarrow> nat multiset" where
  "killed [] = {#}"
| "killed (Spawned pid program args # es) = killed es"
| "killed (KillGroup pid # es) = add_mset pid (killed es)"

lemma started_append [simp]: "started (es @ fs) = started es + started fs"
  by (induction es rule: started.induct) auto

lemma killed_append [simp]: "killed (es @ fs) = killed es + killed fs"
  by (induction es rule: killed.induct) auto

text \<open>The process groups of a request that have not been killed yet.\<close>

definition groups_of :: "running_request \<Rightarrow> nat multiset" where
  "groups_of q = killed (ending q)"

definition running_groups :: "daemon_run \<Rightarrow> nat multiset" where
  "running_groups d = sum_list (map groups_of (dn_requests d))"

definition inv_processes :: "daemon_run \<Rightarrow> bool" where
  "inv_processes d \<longleftrightarrow> started (dn_processes d) = killed (dn_processes d) + running_groups d"

lemma execute_started:
  "started (take 1 (snd (execute env p as secs))) = killed (tl (snd (execute env p as secs)))"
  "killed (take 1 (snd (execute env p as secs))) = {#}" "started (tl (snd (execute env p as secs))) = {#}"
  "size (killed (tl (snd (execute env p as secs)))) \<le> 1"
  using execute_effects [of env p as secs] by auto

lemma started_ending [simp]: "started (ending q) = {#}"
  by (simp add: ending_def execute_started split: request.split request_state.split)

lemma groups_of_state [simp]:
  "groups_of \<lparr>rq_request = request, rq_state = Answers a\<rparr> = {#}"
  "groups_of \<lparr>rq_request = request, rq_state = AwaitsRound i\<rparr> = {#}"
  "groups_of \<lparr>rq_request = request, rq_state = Gone\<rparr> = {#}"
  "groups_of (q\<lparr>rq_state := Answers a\<rparr>) = {#}" "groups_of (q\<lparr>rq_state := Gone\<rparr>) = {#}"
  by (simp_all add: groups_of_def ending_def split: request.split)

lemma groups_of_waiting: "rq_state q = AwaitsRound i \<Longrightarrow> groups_of q = {#}"
  by (simp add: groups_of_def ending_def split: request.split)

lemma sum_list_update:
  fixes f :: "'a \<Rightarrow> 'b multiset"
  shows "i < length xs \<Longrightarrow> sum_list (map f (xs[i := y])) + f (xs ! i) = sum_list (map f xs) + f y"
  by (induction xs arbitrary: i) (auto simp: less_Suc_eq_0_disj ac_simps)

lemma running_groups_simps [simp]:
  "running_groups (add_request request st d) = running_groups d + groups_of \<lparr>rq_request = request, rq_state = st\<rparr>"
  "running_groups (with_node kind n d) = running_groups d" "running_groups (with_tasks s d) = running_groups d"
  "running_groups (note_effects es d) = running_groups d"
  by (simp_all add: running_groups_def add_request_def)

lemma running_groups_set:
  assumes "awaits d j request old" "groups_of ((dn_requests d ! j)\<lparr>rq_state := st\<rparr>) = {#}"
  shows "running_groups (set_request j st d) + groups_of (dn_requests d ! j) = running_groups d"
  using sum_list_update [OF awaits_bound [OF assms(1)], of groups_of "(dn_requests d ! j)\<lparr>rq_state := st\<rparr>"]
    assms(2) by (simp add: running_groups_def set_request_def)

text \<open>A request that ends kills the group it runs.\<close>

lemma processes_end:
  assumes "inv_processes d" "awaits d j request old" "groups_of ((dn_requests d ! j)\<lparr>rq_state := st\<rparr>) = {#}"
  shows "inv_processes (set_request j st (note_effects (ending (dn_requests d ! j)) d))"
proof -
  let ?e = "note_effects (ending (dn_requests d ! j)) d"
  have "running_groups (set_request j st ?e) + groups_of (dn_requests d ! j) = running_groups d"
    using running_groups_set [of ?e j request old st] assms(2,3) by simp
  then show ?thesis
    using assms(1) by (simp add: inv_processes_def groups_of_def [symmetric] ac_simps)
qed

lemma processes_same:
  assumes "inv_processes d" "awaits d j request (AwaitsRound i)"
    "groups_of ((dn_requests d ! j)\<lparr>rq_state := st\<rparr>) = {#}"
  shows "inv_processes (set_request j st d)"
  using assms running_groups_set [OF assms(2,3)] groups_of_waiting [OF awaits_state [OF assms(2)]]
  by (simp add: inv_processes_def)

lemma processes_begin: "inv_processes d \<Longrightarrow> inv_processes (begin_request now process request d)"
  by (cases request)
    (simp_all add: inv_processes_def begin_request_def execute_started [unfolded One_nat_def] groups_of_def ending_def)

lemma processes_drop:
  assumes "inv_processes d" "awaits d j request st"
  shows "inv_processes (drop_request j d)"
  using drop_request_effect [OF assms(2)]
proof (elim disjE exE conjE)
  fix i assume i: "st = AwaitsRound i" "drop_request j d = set_request j Gone (with_tasks (sample_drop i (tasks_of d)) d)"
  have "inv_processes (with_tasks (sample_drop i (tasks_of d)) d)"
    using assms(1) by (simp add: inv_processes_def)
  from processes_same [OF this, of j request i Gone] assms(2) i show ?thesis by simp
next
  assume "drop_request j d = set_request j Gone (note_effects (ending (dn_requests d ! j)) d)"
  then show ?thesis using processes_end [OF assms(1,2)] by simp
qed

lemma processes_step:
  assumes "serving_step cs world d d'" "inv_processes d"
  shows "inv_processes d'"
  using assms(1)
proof (cases rule: serving_step.cases)
  case (request_begins now process request)
  then show ?thesis using processes_begin [OF assms(2)] by simp
next
  case (probe_answered j kind i round x)
  then show ?thesis using processes_same [OF assms(2) probe_answered(2)] by (simp add: answer_probe_def)
next
  case (exec_answered j program args secs process x)
  then show ?thesis using processes_end [OF assms(2) exec_answered(2)] by (simp add: answer_exec_def)
next
  case (request_drops j request st)
  then show ?thesis using processes_drop [OF assms(2)] by simp
qed (use assms(2) in \<open>simp_all add: inv_processes_def\<close>)

lemma serving_processes: "serving cs world cfg d \<Longrightarrow> inv_processes d"
proof (induction rule: serving.induct)
  case (serving_starts name now)
  show ?case by (simp add: inv_processes_def daemon_start_def running_groups_def)
next
  case (serving_steps d d')
  then show ?case using processes_step by blast
qed

section \<open>Every live call of sample has an owner\<close>

definition live :: "task \<Rightarrow> bool" where
  "live t \<longleftrightarrow> (\<exists>kind r. t = Leading kind r) \<or> (\<exists>r. t = Following r)"

definition owned_by :: "daemon_run \<Rightarrow> nat \<Rightarrow> bool" where
  "owned_by d i \<longleftrightarrow>
     (\<exists>j request. awaits d j request (AwaitsRound i)) \<or> (\<exists>kind. nr_loops (dn_node d) kind = Some (Probing i))"

definition inv_live :: "daemon_run \<Rightarrow> bool" where
  "inv_live d \<longleftrightarrow> (\<forall>i < length (rt_tasks (tasks_of d)). live (rt_tasks (tasks_of d) ! i) \<longrightarrow> owned_by d i)"

lemma live_simps [simp]:
  "live (Leading kind r)" "live (Following r)" "\<not> live (Publishing kind r x)" "\<not> live (Returned round x)"
  "\<not> live TaskDropped"
  by (auto simp: live_def)

lemma inv_liveI:
  assumes "inv_live d"
    and "\<And>i. i < length (rt_tasks (tasks_of d')) \<Longrightarrow> live (rt_tasks (tasks_of d') ! i) \<Longrightarrow>
      i < length (rt_tasks (tasks_of d)) \<and> live (rt_tasks (tasks_of d) ! i) \<and> (owned_by d i \<longrightarrow> owned_by d' i)
      \<or> owned_by d' i"
  shows "inv_live d'"
  using assms unfolding inv_live_def by blast

lemma owned_by_same [simp]: "owned_by (with_tasks s d) l = owned_by d l" "owned_by (note_effects es d) l = owned_by d l"
  by (simp_all add: owned_by_def)

lemma owned_by_set:
  assumes "owned_by d l" "awaits d j request old" "old \<noteq> AwaitsRound l"
  shows "owned_by (set_request j st d) l"
proof -
  have "awaits (set_request j st d) k q (AwaitsRound l)" if "awaits d k q (AwaitsRound l)" for k q
    using that awaits_unique [OF assms(2)] assms(3) by (cases "k = j") auto
  then show ?thesis using assms(1) unfolding owned_by_def by (metis request_fields(2))
qed

lemma owned_by_add:
  assumes "owned_by d l"
  shows "owned_by (add_request request st d) l"
proof -
  have "awaits (add_request request st d) k q (AwaitsRound l)" if "awaits d k q (AwaitsRound l)" for k q
    using that awaits_bound [OF that] by simp
  then show ?thesis using assms unfolding owned_by_def by (metis request_fields(1))
qed

lemma owned_by_loop:
  assumes "owned_by d l" "nr_loops (dn_node d) kind \<noteq> Some (Probing l)"
    "\<And>k. k \<noteq> kind \<Longrightarrow> nr_loops n k = nr_loops (dn_node d) k"
  shows "owned_by (with_node kind n d) l"
  using assms unfolding owned_by_def by (metis awaits_same(1) with_fields(7))

lemma sample_drop_task:
  "i < length (rt_tasks s) \<Longrightarrow> \<not> live (rt_tasks (sample_drop i s) ! i)"
  "i' \<noteq> i \<Longrightarrow> rt_tasks (sample_drop i s) ! i' = rt_tasks s ! i'"
  by (simp_all add: sample_drop_def split: task.split)

lemma live_answered:
  assumes "inv_live d" "awaits d j request (AwaitsRound i)" "\<not> live (rt_tasks (tasks_of d) ! i)"
  shows "inv_live (set_request j st d)"
proof (rule inv_liveI [OF assms(1)])
  fix l
  assume l: "l < length (rt_tasks (tasks_of (set_request j st d)))" "live (rt_tasks (tasks_of (set_request j st d)) ! l)"
  then have "l \<noteq> i" using assms(3) by auto
  then show "l < length (rt_tasks (tasks_of d)) \<and> live (rt_tasks (tasks_of d) ! l)
      \<and> (owned_by d l \<longrightarrow> owned_by (set_request j st d) l) \<or> owned_by (set_request j st d) l"
    using l owned_by_set [OF _ assms(2)] by simp
qed

lemma live_dropped:
  assumes "inv_live d" "awaits d j request (AwaitsRound i)" "i < length (rt_tasks (tasks_of d))"
  shows "inv_live (set_request j st (with_tasks (sample_drop i (tasks_of d)) d))"
proof -
  let ?e = "with_tasks (sample_drop i (tasks_of d)) d"
  have "inv_live ?e"
  proof (rule inv_liveI [OF assms(1)])
    fix l
    assume l: "l < length (rt_tasks (tasks_of ?e))" "live (rt_tasks (tasks_of ?e) ! l)"
    then have "l \<noteq> i" using sample_drop_task(1) [OF assms(3)] by auto
    then show "l < length (rt_tasks (tasks_of d)) \<and> live (rt_tasks (tasks_of d) ! l)
        \<and> (owned_by d l \<longrightarrow> owned_by ?e l) \<or> owned_by ?e l"
      using l by (simp add: sample_drop_task(2) sample_drop_length owned_by_def)
  qed
  then show ?thesis
    by (rule live_answered [of _ j request i]) (use assms(2) sample_drop_task(1) [OF assms(3)] in simp_all)
qed

lemma live_drop_request:
  assumes "inv_live d" "inv_owned d" "awaits d j request st"
  shows "inv_live (drop_request j d)"
  using drop_request_effect [OF assms(3)]
proof (elim disjE exE conjE)
  fix i assume i: "st = AwaitsRound i" "drop_request j d = set_request j Gone (with_tasks (sample_drop i (tasks_of d)) d)"
  show ?thesis
    unfolding i(2) using assms(3) i(1) ownedD(1) [OF assms(2)] by (intro live_dropped [OF assms(1)]) auto
next
  assume st: "st \<notin> range AwaitsRound"
    "drop_request j d = set_request j Gone (note_effects (ending (dn_requests d ! j)) d)"
  have "st \<noteq> AwaitsRound l" for l using st(1) by auto
  then show ?thesis
    using owned_by_set [of "note_effects (ending (dn_requests d ! j)) d" _ j request st] assms(3)
    by (intro inv_liveI [OF assms(1)]) (simp add: st(2))
qed

lemma live_task_update:
  assumes "inv_live d" "rt_tasks s = (rt_tasks (tasks_of d))[i := t]" "\<not> live t"
  shows "inv_live (with_tasks s d)"
  using assms(3)
  by (intro inv_liveI [OF assms(1)])
    (auto simp: assms(2) owned_by_def nth_list_update_if split: if_splits)

lemma live_begin:
  assumes "inv_live d" "inv_owned d"
  shows "inv_live (begin_request now process request d)"
proof (cases rule: begin_request_cases [of request now process d])
  case (probes kind)
  obtain t where t: "rt_tasks (sample_begin kind False (tasks_of d)) = rt_tasks (tasks_of d) @ [t]"
    using sample_begin_tasks by blast
  let ?e = "with_node kind ((dn_node d)\<lparr>nr_tasks := sample_begin kind False (tasks_of d)\<rparr>) d"
  let ?q = "add_request request (AwaitsRound (length (rt_tasks (tasks_of d)))) ?e"
  have kept: "owned_by ?q l" if "owned_by d l" for l
    by (rule owned_by_add) (use that in \<open>simp add: owned_by_def\<close>)
  have "awaits ?q (length (dn_requests d)) request (AwaitsRound (length (rt_tasks (tasks_of d))))" by simp
  then have new: "owned_by ?q (length (rt_tasks (tasks_of d)))" unfolding owned_by_def by blast
  show ?thesis
    unfolding probes(2)
    by (intro inv_liveI [OF assms(1)]) (use kept new in \<open>auto simp: t nth_append less_Suc_eq\<close>)
next
  case (others st es)
  then show ?thesis
    by (intro inv_liveI [OF assms(1)]) (simp add: owned_by_add)
qed

lemma live_loop:
  assumes "inv_live d" "loop_step kind (dn_node d) n"
  shows "inv_live (with_node kind n d)"
  using assms(2)
proof (cases rule: loop_step.cases)
  case reads
  then show ?thesis
    by (intro inv_liveI [OF assms(1)]) (auto simp: loop_read_def set_loop_def intro: owned_by_loop)
next
  case (changed due seen)
  then show ?thesis
    by (intro inv_liveI [OF assms(1)]) (auto simp: set_loop_def intro: owned_by_loop)
next
  case (fires due seen)
  obtain t where t: "rt_tasks (sample_begin kind True (tasks_of d)) = rt_tasks (tasks_of d) @ [t]"
    using sample_begin_tasks by blast
  let ?e = "with_node kind (loop_fire kind (dn_node d)) d"
  have kept: "owned_by ?e l" if "owned_by d l" for l
    by (rule owned_by_loop [OF that]) (use fires in \<open>simp_all add: loop_fire_def set_loop_def\<close>)
  have new: "owned_by ?e (length (rt_tasks (tasks_of d)))"
    unfolding owned_by_def by (intro disjI2 exI [of _ kind]) (simp add: loop_fire_def)
  show ?thesis
    unfolding fires(1)
    by (intro inv_liveI [OF assms(1)])
      (use kept new in \<open>auto simp: loop_fire_def set_loop_def t nth_append less_Suc_eq\<close>)
next
  case (probed i round x)
  then show ?thesis
    by (intro inv_liveI [OF assms(1)]) (auto simp: set_loop_def intro: owned_by_loop)
qed

lemma live_step:
  assumes "serving_step cs world d d'" "inv_live d" "inv_owned d"
  shows "inv_live d'"
  using assms(1)
proof (cases rule: serving_step.cases)
  case (request_begins now process request)
  then show ?thesis using live_begin [OF assms(2,3)] by simp
next
  case (probe_answered j kind i round x)
  then show ?thesis using live_answered [OF assms(2) probe_answered(2)] by (simp add: answer_probe_def)
next
  case (exec_answered j program args secs process x)
  then show ?thesis
    using owned_by_set [of "note_effects (ending (dn_requests d ! j)) d" _ j "Exec program args secs" "Executes process"]
    by (intro inv_liveI [OF assms(2)]) (simp add: answer_exec_def)
next
  case (request_drops j request st)
  then show ?thesis using live_drop_request [OF assms(2,3)] by simp
next
  case (round_works i kind r)
  show ?thesis
    unfolding round_works(1) by (rule live_task_update [OF assms(2) record_round_fields(1)]) simp
next
  case (sampler_proceeds a s)
  have "inv_live (with_tasks s d)"
    using sampler_proceeds(2)
  proof (cases rule: sampler_step.cases)
    case (publishes i kind r result)
    then show ?thesis
      by (intro live_task_update [OF assms(2), of _ i "Returned (Some r) (map_err ProbeFailed result)"])
        (simp_all add: sample_publish_def)
  next
    case (wakes i r)
    then obtain x where "waiter_result (rt_rounds (tasks_of d) ! r) = Some x"
      by (cases "rt_rounds (tasks_of d) ! r") (simp_all add: waiter_result_def)
    then show ?thesis
      by (intro live_task_update [OF assms(2), of _ i "Returned (Some r) x"]) (simp_all add: wakes(2) sample_wake_def)
  next
    case (ticks t)
    then show ?thesis by (intro inv_liveI [OF assms(2)]) (auto simp: owned_by_def)
  qed (use sampler_proceeds(3) in simp_all)
  then show ?thesis by (simp add: sampler_proceeds(1))
next
  case (loop_steps kind n)
  then show ?thesis using live_loop [OF assms(2)] by simp
qed

lemma serving_live: "serving cs world cfg d \<Longrightarrow> inv_live d"
proof (induction rule: serving.induct)
  case (serving_starts name now)
  show ?case by (simp add: inv_live_def daemon_start_def node_start_def)
next
  case (serving_steps d d')
  then show ?case using live_step serving_invD(3) [OF serving_inv] by blast
qed

section \<open>Stopping\<close>

text \<open>
  \<open>tasks.abort_all\<close> ends every task at the await it is in, in no given order, and the daemon waits
  for all of them: the task of the scheduler with its loops, and those that run requests. Their
  futures are dropped with all they hold. A request that has its answer only loses its reply.
\<close>

datatype daemon_task = SchedulerTask | RequestTask nat

fun unfinished :: "request_state \<Rightarrow> bool" where
  "unfinished (AwaitsRound i) = True"
| "unfinished (Executes process) = True"
| "unfinished (Answers a) = False"
| "unfinished Gone = False"

definition end_loop :: "probe_kind \<Rightarrow> daemon_run \<Rightarrow> daemon_run" where
  "end_loop kind d = d\<lparr>dn_node := (dn_node d)\<lparr>nr_loops := (nr_loops (dn_node d))(kind := None)\<rparr>\<rparr>"

definition stop_loop :: "probe_kind \<Rightarrow> daemon_run \<Rightarrow> daemon_run" where
  "stop_loop kind d =
     end_loop kind
       (case nr_loops (dn_node d) kind of
          Some (Probing i) \<Rightarrow> with_tasks (sample_drop i (tasks_of d)) d
        | _ \<Rightarrow> d)"

definition abort_request :: "nat \<Rightarrow> daemon_run \<Rightarrow> daemon_run" where
  "abort_request j d = (if unfinished (rq_state (dn_requests d ! j)) then drop_request j d else d)"

fun abort_task :: "daemon_task \<Rightarrow> daemon_run \<Rightarrow> daemon_run" where
  "abort_task SchedulerTask d = fold stop_loop ALL_KINDS d"
| "abort_task (RequestTask j) d = abort_request j d"

definition stop_daemon :: "daemon_task list \<Rightarrow> daemon_run \<Rightarrow> daemon_run" where
  "stop_daemon order d = fold abort_task order d"

definition daemon_tasks :: "daemon_run \<Rightarrow> daemon_task set" where
  "daemon_tasks d = insert SchedulerTask (RequestTask ` {..<length (dn_requests d)})"

subsection \<open>What an abort keeps\<close>

definition publishing :: "runtime \<Rightarrow> bool" where
  "publishing s \<longleftrightarrow> (\<exists>kind r x. Publishing kind r x \<in> set (rt_tasks s))"

definition stoppable :: "daemon_config \<Rightarrow> daemon_run \<Rightarrow> bool" where
  "stoppable settings d \<longleftrightarrow>
     reachable settings (tasks_of d) \<and> inv_owned d \<and> inv_live d \<and> inv_processes d \<and> \<not> publishing (tasks_of d)"

text \<open>What was done stays done: from \<open>d\<close> to \<open>e\<close>, only unfinished work has ended.\<close>

definition ends_only :: "daemon_run \<Rightarrow> daemon_run \<Rightarrow> bool" where
  "ends_only d e \<longleftrightarrow>
     sm_history (tasks_of e) = sm_history (tasks_of d)
     \<and> length (dn_requests e) = length (dn_requests d)
     \<and> (\<forall>j. \<not> unfinished (rq_state (dn_requests d ! j)) \<longrightarrow> dn_requests e ! j = dn_requests d ! j)
     \<and> (\<forall>kind. nr_loops (dn_node d) kind = None \<longrightarrow> nr_loops (dn_node e) kind = None)"

lemma ends_only_refl: "ends_only d d"
  by (simp add: ends_only_def)

lemma ends_only_trans: "ends_only d e \<Longrightarrow> ends_only e f \<Longrightarrow> ends_only d f"
  by (simp add: ends_only_def)

lemma sample_drop_history [simp]: "sm_history (sample_drop i s) = sm_history s"
  by (simp add: sample_drop_def split: task.split)

lemma sample_drop_publishing:
  assumes "\<not> publishing s"
  shows "\<not> publishing (sample_drop i s)"
proof -
  have "set (rt_tasks (sample_drop i s)) \<subseteq> insert TaskDropped (set (rt_tasks s))"
    by (cases "rt_tasks s ! i") (auto simp: sample_drop_def set_update_subset_insert)
  then show ?thesis using assms unfolding publishing_def by blast
qed

lemma set_request_other:
  "dn_requests (set_request j st d) ! k = (if k = j \<and> j < length (dn_requests d)
     then (dn_requests d ! j)\<lparr>rq_state := st\<rparr> else dn_requests d ! k)"
  by (cases "j < length (dn_requests d)") (auto simp: set_request_def list_update_beyond)

lemma length_set_request [simp]: "length (dn_requests (set_request j st d)) = length (dn_requests d)"
  by (simp add: set_request_def)

lemma end_loop_fields [simp]:
  "tasks_of (end_loop kind d) = tasks_of d" "dn_requests (end_loop kind d) = dn_requests d"
  "dn_processes (end_loop kind d) = dn_processes d"
  "nr_loops (dn_node (end_loop kind d)) = (nr_loops (dn_node d))(kind := None)"
  by (simp_all add: end_loop_def)

lemma awaits_end_loop [simp]: "awaits (end_loop kind d) = awaits d"
  by (simp add: awaits_def request_at_def fun_eq_iff)

subsection \<open>A request is aborted\<close>

lemma abort_request_step:
  assumes "j < length (dn_requests d)" "unfinished (rq_state (dn_requests d ! j))"
  shows "serving_step cs world d (abort_request j d)"
proof -
  let ?q = "dn_requests d ! j"
  have "awaits d j (rq_request ?q) (rq_state ?q)" using assms(1) by (simp add: awaits_def request_at_def)
  moreover have "rq_state ?q \<in> range AwaitsRound \<union> range Executes"
    using assms(2) by (cases "rq_state ?q") simp_all
  ultimately show ?thesis using assms(2) by (auto simp: abort_request_def intro: request_drops)
qed

lemma drop_request_tasks:
  "tasks_of (drop_request j d) = tasks_of d
   \<or> (\<exists>i request. (j < length (dn_requests d) \<longrightarrow> awaits d j request (AwaitsRound i))
        \<and> tasks_of (drop_request j d) = sample_drop i (tasks_of d))"
  by (cases "rq_state (dn_requests d ! j)"; cases "dn_requests d ! j")
    (auto simp: drop_request_def awaits_def request_at_def)

lemma stoppable_request:
  assumes "stoppable settings d" "j < length (dn_requests d)"
  shows "stoppable settings (abort_request j d)"
proof (cases "unfinished (rq_state (dn_requests d ! j))")
  case True
  note step = abort_request_step [OF assms(2) True]
  have "reachable settings (tasks_of (abort_request j d)) \<and> \<not> publishing (tasks_of (abort_request j d))"
    using drop_request_tasks [of j d]
  proof (elim disjE exE conjE)
    assume "tasks_of (drop_request j d) = tasks_of d"
    then show ?thesis using assms(1) by (simp add: abort_request_def stoppable_def)
  next
    fix i request
    assume i: "j < length (dn_requests d) \<longrightarrow> awaits d j request (AwaitsRound i)"
      "tasks_of (drop_request j d) = sample_drop i (tasks_of d)"
    then have "i < length (rt_tasks (tasks_of d))"
      using assms ownedD(1) by (auto simp: stoppable_def)
    then show ?thesis
      using assms(1) i(2) reachable_step [OF _ drops] sample_drop_publishing
      by (simp add: abort_request_def stoppable_def)
  qed
  then show ?thesis
    using assms(1) owned_step [OF step] live_step [OF step] processes_step [OF step]
    by (simp add: stoppable_def)
qed (use assms(1) in \<open>simp add: abort_request_def\<close>)

lemma ends_only_request: "ends_only d (abort_request j d)"
proof -
  have "length (dn_requests (drop_request j d)) = length (dn_requests d)
      \<and> sm_history (tasks_of (drop_request j d)) = sm_history (tasks_of d)
      \<and> nr_loops (dn_node (drop_request j d)) = nr_loops (dn_node d)
      \<and> (\<forall>k. k \<noteq> j \<longrightarrow> dn_requests (drop_request j d) ! k = dn_requests d ! k)"
    by (simp add: drop_request_def set_request_other split: request_state.split)
  then show ?thesis by (auto simp: ends_only_def abort_request_def)
qed

lemma abort_request_ends:
  assumes "j < length (dn_requests d)"
  shows "\<not> unfinished (rq_state (dn_requests (abort_request j d) ! j))"
  using assms by (simp add: abort_request_def drop_request_def set_request_other split: request_state.split)

subsection \<open>The scheduler is aborted\<close>

lemma stop_loop_fields:
  "dn_requests (stop_loop kind d) = dn_requests d" "dn_processes (stop_loop kind d) = dn_processes d"
  "nr_loops (dn_node (stop_loop kind d)) = (nr_loops (dn_node d))(kind := None)"
  "awaits (stop_loop kind d) = awaits d" "sm_history (tasks_of (stop_loop kind d)) = sm_history (tasks_of d)"
  by (simp_all add: stop_loop_def split: option.split loop.split)

lemma stop_loop_tasks:
  "(\<forall>i. nr_loops (dn_node d) kind \<noteq> Some (Probing i)) \<and> tasks_of (stop_loop kind d) = tasks_of d
   \<or> (\<exists>i. nr_loops (dn_node d) kind = Some (Probing i)
        \<and> tasks_of (stop_loop kind d) = sample_drop i (tasks_of d))"
  by (simp add: stop_loop_def split: option.split loop.split)

lemma owned_stop_loop:
  assumes "inv_owned d"
  shows "inv_owned (stop_loop kind d)"
proof -
  have "length (rt_tasks (tasks_of (stop_loop kind d))) = length (rt_tasks (tasks_of d))"
    using stop_loop_tasks [of d kind] sample_drop_length by auto
  then show ?thesis
    using ownedD [OF assms] by (intro inv_ownedI) (auto simp: stop_loop_fields split: if_splits)
qed

lemma live_stop_loop:
  assumes "inv_live d" "inv_owned d"
  shows "inv_live (stop_loop kind d)"
proof (rule inv_liveI [OF assms(1)])
  fix l
  assume l: "l < length (rt_tasks (tasks_of (stop_loop kind d)))" "live (rt_tasks (tasks_of (stop_loop kind d)) ! l)"
  have kept: "owned_by d l \<longrightarrow> owned_by (stop_loop kind d) l" if "nr_loops (dn_node d) kind \<noteq> Some (Probing l)"
    using that unfolding owned_by_def stop_loop_fields by (metis fun_upd_other)
  from stop_loop_tasks [of d kind]
  show "l < length (rt_tasks (tasks_of d)) \<and> live (rt_tasks (tasks_of d) ! l)
      \<and> (owned_by d l \<longrightarrow> owned_by (stop_loop kind d) l) \<or> owned_by (stop_loop kind d) l"
  proof (elim disjE exE conjE)
    fix i assume i: "nr_loops (dn_node d) kind = Some (Probing i)"
      "tasks_of (stop_loop kind d) = sample_drop i (tasks_of d)"
    have "l \<noteq> i" using l sample_drop_task(1) [OF ownedD(4) [OF assms(2) i(1)]] by (auto simp: i(2))
    then show ?thesis using l kept i by (simp add: sample_drop_task(2) sample_drop_length)
  qed (use l kept in simp)
qed

lemma stoppable_loop:
  assumes "stoppable settings d"
  shows "stoppable settings (stop_loop kind d)"
proof -
  have "reachable settings (tasks_of (stop_loop kind d)) \<and> \<not> publishing (tasks_of (stop_loop kind d))"
    using stop_loop_tasks [of d kind] assms ownedD(4) reachable_step [OF _ drops] sample_drop_publishing
    unfolding stoppable_def by metis
  moreover have "inv_processes (stop_loop kind d)"
    using assms by (simp add: stoppable_def inv_processes_def running_groups_def stop_loop_fields)
  ultimately show ?thesis
    using assms owned_stop_loop live_stop_loop by (simp add: stoppable_def)
qed

lemma ends_only_loop: "ends_only d (stop_loop kind d)"
  by (simp add: ends_only_def stop_loop_fields)

lemma stop_loops:
  "stoppable settings d \<Longrightarrow> stoppable settings (fold stop_loop ks d)" "ends_only d (fold stop_loop ks d)"
proof (induction ks arbitrary: d)
  case (Cons k ks)
  { case 1 then show ?case using Cons.IH(1) stoppable_loop by simp }
  { case 2 show ?case using ends_only_trans [OF ends_only_loop Cons.IH(2)] by simp }
qed (simp_all add: ends_only_refl)

lemma stop_loops_ended:
  "nr_loops (dn_node (fold stop_loop ks d)) kind = (if kind \<in> set ks then None else nr_loops (dn_node d) kind)"
  by (induction ks arbitrary: d) (simp_all add: stop_loop_fields)

subsection \<open>All tasks, in any order\<close>

fun task_ended :: "daemon_task \<Rightarrow> daemon_run \<Rightarrow> bool" where
  "task_ended SchedulerTask d = (\<forall>kind. nr_loops (dn_node d) kind = None)"
| "task_ended (RequestTask j) d = (\<not> unfinished (rq_state (dn_requests d ! j)))"

lemma task_ended_kept: "ends_only d e \<Longrightarrow> task_ended t d \<Longrightarrow> task_ended t e"
  by (cases t) (simp_all add: ends_only_def)

lemma abort_task_ends:
  assumes "t \<in> daemon_tasks d"
  shows "task_ended t (abort_task t d)" "ends_only d (abort_task t d)"
    "stoppable settings d \<Longrightarrow> stoppable settings (abort_task t d)"
    "daemon_tasks (abort_task t d) = daemon_tasks d"
proof -
  show "task_ended t (abort_task t d)"
    using assms by (cases t) (auto simp: daemon_tasks_def abort_request_ends stop_loops_ended ALL_KINDS_complete)
  show ends: "ends_only d (abort_task t d)"
    by (cases t) (simp_all add: ends_only_request stop_loops(2))
  show "stoppable settings (abort_task t d)" if "stoppable settings d"
    using assms that by (cases t) (auto simp: daemon_tasks_def stoppable_request stop_loops(1))
  show "daemon_tasks (abort_task t d) = daemon_tasks d"
    using ends by (simp add: daemon_tasks_def ends_only_def)
qed

lemma stop_ends:
  assumes "stoppable settings d" "set order \<subseteq> daemon_tasks d"
  shows "stoppable settings (stop_daemon order d) \<and> ends_only d (stop_daemon order d)
    \<and> (\<forall>t \<in> set order. task_ended t (stop_daemon order d))"
  using assms
proof (induction order arbitrary: d)
  case Nil
  then show ?case by (simp add: stop_daemon_def ends_only_refl)
next
  case (Cons t order)
  then have t: "t \<in> daemon_tasks d" by simp
  note a = abort_task_ends [OF t]
  have stop: "stop_daemon (t # order) d = stop_daemon order (abort_task t d)" by (simp add: stop_daemon_def)
  from Cons.IH [OF a(3) [OF Cons.prems(1)]] Cons.prems(2) a(4)
  have rest: "stoppable settings (stop_daemon order (abort_task t d))"
    "ends_only (abort_task t d) (stop_daemon order (abort_task t d))"
    "\<forall>t' \<in> set order. task_ended t' (stop_daemon order (abort_task t d))" by simp_all
  show ?case
    unfolding stop using rest ends_only_trans [OF a(2) rest(2)] task_ended_kept [OF rest(2) a(1)] by simp
qed

lemma ended_daemon:
  assumes "stoppable settings e" "\<forall>t \<in> daemon_tasks e. task_ended t e"
  shows "\<forall>q \<in> set (dn_requests e). \<not> unfinished (rq_state q)" "\<forall>kind. nr_loops (dn_node e) kind = None"
    "\<forall>t \<in> set (rt_tasks (tasks_of e)). t = TaskDropped \<or> (\<exists>round x. t = Returned round x)"
    "RoundOpen \<notin> set (rt_rounds (tasks_of e))" "started (dn_processes e) = killed (dn_processes e)"
proof -
  show requests: "\<forall>q \<in> set (dn_requests e). \<not> unfinished (rq_state q)"
    using assms(2) by (auto simp: daemon_tasks_def in_set_conv_nth)
  show loops: "\<forall>kind. nr_loops (dn_node e) kind = None"
    using assms(2) by (simp add: daemon_tasks_def)
  have "\<not> awaits e j request (AwaitsRound i)" for j request i
    using requests awaits_bound [of e j request "AwaitsRound i"] awaits_state [of e j request "AwaitsRound i"]
      nth_mem [of j "dn_requests e"] by fastforce
  then have no_owner: "\<not> owned_by e i" for i using loops by (simp add: owned_by_def)
  show over: "\<forall>t \<in> set (rt_tasks (tasks_of e)). t = TaskDropped \<or> (\<exists>round x. t = Returned round x)"
  proof
    fix t assume t: "t \<in> set (rt_tasks (tasks_of e))"
    then have "\<not> live t"
      using assms(1) no_owner by (auto simp: stoppable_def inv_live_def in_set_conv_nth)
    then show "t = TaskDropped \<or> (\<exists>round x. t = Returned round x)"
      using t assms(1) by (cases t) (auto simp: stoppable_def publishing_def)
  qed
  show "RoundOpen \<notin> set (rt_rounds (tasks_of e))"
  proof
    assume "RoundOpen \<in> set (rt_rounds (tasks_of e))"
    then obtain r where "r < length (rt_rounds (tasks_of e))" "rt_rounds (tasks_of e) ! r = RoundOpen"
      by (auto simp: in_set_conv_nth)
    then obtain i kind where "leader (tasks_of e) i kind r"
      using roundsD(1) [OF reachable_inv(2)] assms(1) unfolding stoppable_def by blast
    then have "i < length (rt_tasks (tasks_of e))" "leads (rt_tasks (tasks_of e) ! i) = Some (kind, r)"
      by (simp_all add: leader_def)
    then show False using over nth_mem by fastforce
  qed
  have "groups_of q = {#}" if "q \<in> set (dn_requests e)" for q
    using requests that by (cases "rq_state q") (auto simp: groups_of_def ending_def split: request.split)
  then have "map groups_of (dn_requests e) = map (\<lambda>q. {#}) (dn_requests e)" by simp
  then have "running_groups e = {#}" unfolding running_groups_def by (simp only: sum_list_0)
  then show "started (dn_processes e) = killed (dn_processes e)"
    using assms(1) by (simp add: stoppable_def inv_processes_def)
qed

section \<open>Properties\<close>


text \<open>In the example a daemon is stopped that runs a probe round and a process.\<close>

definition sample_busy :: daemon_run where
  "sample_busy = begin_request 0 sample_env (Exec ''sleep'' [''9''] 5) sample_asked"

lemma sample_busy_facts:
  "serving cs world sample_config sample_busy" "\<not> publishing (tasks_of sample_busy)"
  "set [RequestTask 1, SchedulerTask, RequestTask 0] = daemon_tasks sample_busy"
proof -
  show "serving cs world sample_config sample_busy"
    unfolding sample_busy_def by (rule serving_steps [OF sample_asked_serving request_begins])
  have tasks: "rt_tasks (tasks_of sample_busy) = [Leading Peers 0]"
    by (simp add: sample_busy_def begin_request_def sample_asked_facts)
  then show "\<not> publishing (tasks_of sample_busy)" by (simp add: publishing_def)
  have "length (dn_requests sample_busy) = 2"
    by (simp add: sample_busy_def sample_asked_def begin_request_def add_request_def daemon_start_def)
  moreover have "{..<2 :: nat} = {0, 1}" by auto
  ultimately show "set [RequestTask 1, SchedulerTask, RequestTask 0] = daemon_tasks sample_busy"
    by (auto simp: daemon_tasks_def)
qed


end
