(* ===== verification/Workload.thy ===== *)
theory Workload
  imports Stopping Daemon
begin

text \<open>
  Admission and the requests it admits, together: \<open>serve_stream\<close> and \<open>serve_local\<close>
  (\<open>server.rs\<close>) take a permit of \<open>Daemon\<close>, run the request on the daemon of \<open>Requests\<close>, and give
  the permit back when the request has its answer. A step is one of admission, of the daemon, or of
  both at once.
\<close>

section \<open>State\<close>

text \<open>
  \<open>wl_streams\<close> and \<open>wl_locals\<close> say which request of the daemon a stream or a local connection
  runs; a local request that is forwarded to a peer runs none.
\<close>

record workload =
  wl_admission :: admission
  wl_daemon :: daemon_run
  wl_streams :: "nat \<Rightarrow> nat option"
  wl_locals :: "nat \<Rightarrow> nat option"

definition workload_new :: "config \<Rightarrow> string \<Rightarrow> instant \<Rightarrow> workload" where
  "workload_new cfg name now =
     \<lparr>wl_admission = admission_new (cf_daemon cfg), wl_daemon = daemon_start cfg name now,
      wl_streams = (\<lambda>_. None), wl_locals = (\<lambda>_. None)\<rparr>"

section \<open>Operations\<close>

text \<open>The request of a stream has been read: with a permit it is dispatched, without one refused.\<close>

definition stream_asks :: "nat \<Rightarrow> u64 \<Rightarrow> exec_env \<Rightarrow> request \<Rightarrow> workload \<Rightarrow> workload" where
  "stream_asks j now process request w =
     (case try_acquire (ad_peer_permits (wl_admission w)) of
        None \<Rightarrow> w\<lparr>wl_admission := peer_request j (wl_admission w)\<rparr>
      | Some _ \<Rightarrow>
          w\<lparr>wl_admission := peer_request j (wl_admission w),
            wl_daemon := begin_request now process request (wl_daemon w),
            wl_streams := (wl_streams w)(j := Some (length (dn_requests (wl_daemon w))))\<rparr>)"

definition local_connection_asks ::
  "nat \<Rightarrow> u64 \<Rightarrow> exec_env \<Rightarrow> local_request \<Rightarrow> workload \<Rightarrow> workload" where
  "local_connection_asks i now process message w =
     (case (try_acquire (ad_local_permits (wl_admission w)), lr_target message) of
        (Some _, None) \<Rightarrow>
          w\<lparr>wl_admission := admit_local_request i (wl_admission w),
            wl_daemon := begin_request now process (lr_request message) (wl_daemon w),
            wl_locals := (wl_locals w)(i := Some (length (dn_requests (wl_daemon w))))\<rparr>
      | _ \<Rightarrow> w\<lparr>wl_admission := admit_local_request i (wl_admission w)\<rparr>)"

text \<open>
  Between a start and a stop no request is added but by these two, and none is dropped.
\<close>

definition no_request_comes_or_goes :: "daemon_run \<Rightarrow> daemon_run \<Rightarrow> bool" where
  "no_request_comes_or_goes d d' \<longleftrightarrow>
     length (dn_requests d') = length (dn_requests d)
     \<and> (\<forall>k < length (dn_requests d). rq_state (dn_requests d' ! k) = Gone \<longrightarrow> rq_state (dn_requests d ! k) = Gone)"

text \<open>The other steps of admission acquire and release no permit.\<close>

definition same_permits :: "admission \<Rightarrow> admission \<Rightarrow> bool" where
  "same_permits a b \<longleftrightarrow> ad_peer_permits b = ad_peer_permits a \<and> ad_local_permits b = ad_local_permits a"

inductive work_step :: "codecs \<Rightarrow> ('f, 'c) world \<Rightarrow> workload \<Rightarrow> workload \<Rightarrow> bool" for cs world where
  stream_request: "j < length (ad_streams (wl_admission w)) \<Longrightarrow>
    snd (ad_streams (wl_admission w) ! j) = Receiving \<Longrightarrow> work_step cs world w (stream_asks j now process request w)"
| stream_answered: "j < length (ad_streams (wl_admission w)) \<Longrightarrow>
    snd (ad_streams (wl_admission w) ! j) = Running \<Longrightarrow> wl_streams w j = Some k \<Longrightarrow>
    awaits (wl_daemon w) k request (Answers x) \<Longrightarrow>
    work_step cs world w (w\<lparr>wl_admission := peer_request_done j (wl_admission w)\<rparr>)"
| local_request: "i < length (ad_locals (wl_admission w)) \<Longrightarrow> ad_locals (wl_admission w) ! i = Receiving \<Longrightarrow>
    work_step cs world w (local_connection_asks i now process message w)"
| local_answered: "i < length (ad_locals (wl_admission w)) \<Longrightarrow> ad_locals (wl_admission w) ! i = Running \<Longrightarrow>
    wl_locals w i = Some k \<Longrightarrow> awaits (wl_daemon w) k request (Answers x) \<Longrightarrow>
    work_step cs world w (w\<lparr>wl_admission := local_request_done i (wl_admission w)\<rparr>)"
| local_forwarded: "i < length (ad_locals (wl_admission w)) \<Longrightarrow> ad_locals (wl_admission w) ! i = Running \<Longrightarrow>
    wl_locals w i = None \<Longrightarrow>
    work_step cs world w (w\<lparr>wl_admission := local_request_done i (wl_admission w)\<rparr>)"
| network: "peer_step (wl_admission w) a \<Longrightarrow> same_permits (wl_admission w) a \<Longrightarrow>
    work_step cs world w (w\<lparr>wl_admission := a\<rparr>)"
| local_socket: "local_step (wl_admission w) a \<Longrightarrow> same_permits (wl_admission w) a \<Longrightarrow>
    work_step cs world w (w\<lparr>wl_admission := a\<rparr>)"
| daemon_works: "serving_step cs world (wl_daemon w) d \<Longrightarrow> no_request_comes_or_goes (wl_daemon w) d \<Longrightarrow>
    work_step cs world w (w\<lparr>wl_daemon := d\<rparr>)"

inductive working :: "codecs \<Rightarrow> ('f, 'c) world \<Rightarrow> config \<Rightarrow> workload \<Rightarrow> bool" for cs world cfg where
  work_starts: "working cs world cfg (workload_new cfg name now)"
| work_steps: "working cs world cfg w \<Longrightarrow> work_step cs world w w' \<Longrightarrow> working cs world cfg w'"

section \<open>The parts move as they do alone\<close>

lemma stream_asks_fields:
  "wl_admission (stream_asks j now process request w) = peer_request j (wl_admission w)"
  "wl_daemon (stream_asks j now process request w) =
     (if ad_peer_permits (wl_admission w) = 0 then wl_daemon w
      else begin_request now process request (wl_daemon w))"
  "wl_locals (stream_asks j now process request w) = wl_locals w"
  by (simp_all add: stream_asks_def try_acquire_None try_acquire_Some split: option.split)

lemma local_asks_fields:
  "wl_admission (local_connection_asks i now process message w) = admit_local_request i (wl_admission w)"
  "wl_daemon (local_connection_asks i now process message w) =
     (if ad_local_permits (wl_admission w) = 0 \<or> lr_target message \<noteq> None then wl_daemon w
      else begin_request now process (lr_request message) (wl_daemon w))"
  "wl_streams (local_connection_asks i now process message w) = wl_streams w"
  by (simp_all add: local_connection_asks_def split: option.split) (auto simp: try_acquire_Some try_acquire_None)

lemma work_step_parts:
  assumes "work_step cs world w w'"
  shows "wl_daemon w' = wl_daemon w \<or> serving_step cs world (wl_daemon w) (wl_daemon w')"
    and "wl_admission w' = wl_admission w \<or> peer_step (wl_admission w) (wl_admission w')
      \<or> local_step (wl_admission w) (wl_admission w')"
proof -
  show "wl_daemon w' = wl_daemon w \<or> serving_step cs world (wl_daemon w) (wl_daemon w')"
    using assms by (cases rule: work_step.cases) (auto simp: stream_asks_fields local_asks_fields intro: request_begins)
  show "wl_admission w' = wl_admission w \<or> peer_step (wl_admission w) (wl_admission w')
      \<or> local_step (wl_admission w) (wl_admission w')"
    using assms
    by (cases rule: work_step.cases)
      (auto simp: stream_asks_fields local_asks_fields intro: requests ran local_asks local_done)
qed

lemma working_parts:
  "working cs world cfg w \<Longrightarrow> serving cs world cfg (wl_daemon w) \<and> admitted (cf_daemon cfg) (wl_admission w)"
proof (induction rule: working.induct)
  case (work_starts name now)
  show ?case by (simp add: workload_new_def serving_starts starts)
next
  case (work_steps w w')
  show ?case
    using work_step_parts [OF work_steps.hyps(2)] work_steps.IH serving_steps by_peer by_local by metis
qed

section \<open>Every unfinished request holds a permit\<close>

definition stream_runs :: "workload \<Rightarrow> nat \<Rightarrow> bool" where
  "stream_runs w k \<longleftrightarrow> (\<exists>j < length (ad_streams (wl_admission w)).
     snd (ad_streams (wl_admission w) ! j) = Running \<and> wl_streams w j = Some k)"

definition local_runs :: "workload \<Rightarrow> nat \<Rightarrow> bool" where
  "local_runs w k \<longleftrightarrow> (\<exists>i < length (ad_locals (wl_admission w)).
     ad_locals (wl_admission w) ! i = Running \<and> wl_locals w i = Some k)"

abbreviation waiting :: "daemon_run \<Rightarrow> nat \<Rightarrow> bool" where
  "waiting d k \<equiv> k < length (dn_requests d) \<and> unfinished (rq_state (dn_requests d ! k))"

definition inv_held :: "workload \<Rightarrow> bool" where
  "inv_held w \<longleftrightarrow> (\<forall>k. waiting (wl_daemon w) k \<longrightarrow> stream_runs w k \<or> local_runs w k)"

lemma inv_heldI:
  assumes "inv_held w" "\<And>k. waiting (wl_daemon w') k \<Longrightarrow>
    stream_runs w' k \<or> local_runs w' k
    \<or> waiting (wl_daemon w) k \<and> (stream_runs w k \<longrightarrow> stream_runs w' k) \<and> (local_runs w k \<longrightarrow> local_runs w' k)"
  shows "inv_held w'"
  using assms unfolding inv_held_def by blast

lemma begin_request_waiting:
  "waiting (begin_request now process request d) k \<Longrightarrow> waiting d k \<or> k = length (dn_requests d)"
  by (cases rule: begin_request_cases [of request now process d])
    (auto simp: add_request_def nth_append less_Suc_eq)

lemma finished_stays:
  assumes "serving_step cs world d d'" "length (dn_requests d') = length (dn_requests d)" "waiting d' k"
  shows "waiting d k"
proof -
  have set: "unfinished (rq_state (dn_requests e ! k))"
    if "unfinished (rq_state (dn_requests (set_request j st e) ! k))" "\<not> unfinished st" for j st and e :: daemon_run
    using that by (auto simp: set_request_other split: if_splits)
  have "unfinished (rq_state (dn_requests d ! k))"
    using assms(1)
  proof (cases rule: serving_step.cases)
    case (request_begins now process request)
    have "length (dn_requests (begin_request now process request d)) = Suc (length (dn_requests d))"
      by (cases rule: begin_request_cases [of request now process d]) (simp_all add: add_request_def)
    then show ?thesis using assms(2) request_begins by simp
  next
    case (probe_answered j kind i round x)
    then show ?thesis using set [of j _ d] assms(3) by (auto simp: answer_probe_def)
  next
    case (exec_answered j program args secs process x)
    then show ?thesis
      using set [of j _ "note_effects (ending (dn_requests d ! j)) d"] assms(3) by (auto simp: answer_exec_def)
  next
    case (request_drops j request st)
    have gone: "unfinished (rq_state (dn_requests (drop_request j d) ! k))"
      using assms(3) request_drops(1) by simp
    from drop_request_effect [OF request_drops(2)] show ?thesis
    proof (elim disjE exE conjE)
      fix i assume "drop_request j d = set_request j Gone (with_tasks (sample_drop i (tasks_of d)) d)"
      then show ?thesis using gone set [of j Gone "with_tasks (sample_drop i (tasks_of d)) d"] by simp
    next
      assume "drop_request j d = set_request j Gone (note_effects (ending (dn_requests d ! j)) d)"
      then show ?thesis using gone set [of j Gone "note_effects (ending (dn_requests d ! j)) d"] by simp
    qed
  qed (use assms(3) in simp_all)
  then show ?thesis using assms(2,3) by simp
qed

text \<open>What the other steps of admission, and the end of a request, leave running.\<close>

lemma peer_step_runs:
  assumes "peer_step a b" "same_permits a b"
  shows "ad_locals b = ad_locals a
    \<and> (\<forall>j < length (ad_streams a). snd (ad_streams a ! j) = Running \<longrightarrow>
         j < length (ad_streams b) \<and> snd (ad_streams b ! j) = Running)"
  using assms
  by (cases rule: peer_step.cases)
    (auto simp: same_permits_def accept_connection_def end_connection_def peer_request_def peer_request_done_def
      set_stream_def nth_append nth_list_update_if split: option.splits)

lemma local_step_runs:
  assumes "local_step a b" "same_permits a b"
  shows "ad_streams b = ad_streams a
    \<and> (\<forall>i < length (ad_locals a). ad_locals a ! i = Running \<longrightarrow>
         i < length (ad_locals b) \<and> ad_locals b ! i = Running)"
  using assms
  by (cases rule: local_step.cases)
    (auto simp: same_permits_def accept_local_def admit_local_request_def local_request_done_def end_local_def
      set_local_def nth_append nth_list_update_if split: option.splits)

lemma runs_kept:
  assumes "\<And>j. j < length (ad_streams (wl_admission w)) \<Longrightarrow> snd (ad_streams (wl_admission w) ! j) = Running \<Longrightarrow>
      wl_streams w j = Some k \<Longrightarrow> j < length (ad_streams (wl_admission w'))
      \<and> snd (ad_streams (wl_admission w') ! j) = Running \<and> wl_streams w' j = Some k"
    and "\<And>i. i < length (ad_locals (wl_admission w)) \<Longrightarrow> ad_locals (wl_admission w) ! i = Running \<Longrightarrow>
      wl_locals w i = Some k \<Longrightarrow> i < length (ad_locals (wl_admission w'))
      \<and> ad_locals (wl_admission w') ! i = Running \<and> wl_locals w' i = Some k"
  shows "stream_runs w k \<longrightarrow> stream_runs w' k" "local_runs w k \<longrightarrow> local_runs w' k"
  using assms unfolding stream_runs_def local_runs_def by blast+

lemma held_stream_asks:
  assumes "inv_held w" "j < length (ad_streams (wl_admission w))" "snd (ad_streams (wl_admission w) ! j) = Receiving"
  shows "inv_held (stream_asks j now process request w)"
proof (cases "ad_peer_permits (wl_admission w)")
  case 0
  then have asks: "stream_asks j now process request w = w\<lparr>wl_admission := set_stream j Replying (wl_admission w)\<rparr>"
    by (simp add: stream_asks_def peer_request_def)
  show ?thesis
    unfolding asks
    by (rule inv_heldI [OF assms(1)], intro disjI2 conjI runs_kept)
      (use assms(3) in \<open>auto simp: set_stream_def nth_list_update_if\<close>)
next
  case (Suc n)
  let ?w = "stream_asks j now process request w" and ?n = "length (dn_requests (wl_daemon w))"
  have fields: "wl_admission ?w = set_stream j Running ((wl_admission w)\<lparr>ad_peer_permits := n\<rparr>)"
    "wl_daemon ?w = begin_request now process request (wl_daemon w)" "wl_locals ?w = wl_locals w"
    "wl_streams ?w = (wl_streams w)(j := Some ?n)"
    by (simp_all add: stream_asks_def peer_request_def Suc)
  show ?thesis
  proof (rule inv_heldI [OF assms(1)])
    fix k assume "waiting (wl_daemon ?w) k"
    then consider "k = ?n" | "waiting (wl_daemon w) k"
      unfolding fields using begin_request_waiting by blast
    then show "stream_runs ?w k \<or> local_runs ?w k
      \<or> waiting (wl_daemon w) k \<and> (stream_runs w k \<longrightarrow> stream_runs ?w k) \<and> (local_runs w k \<longrightarrow> local_runs ?w k)"
    proof cases
      case 1
      then have "stream_runs ?w k"
        using assms(2) unfolding stream_runs_def by (intro exI [of _ j]) (simp add: fields set_stream_def)
      then show ?thesis by simp
    next
      case 2
      have "(stream_runs w k \<longrightarrow> stream_runs ?w k) \<and> (local_runs w k \<longrightarrow> local_runs ?w k)"
        by (intro conjI runs_kept) (use assms(3) in \<open>auto simp: fields set_stream_def nth_list_update_if\<close>)
      then show ?thesis using 2 by simp
    qed
  qed
qed

lemma held_local_asks:
  assumes "inv_held w" "i < length (ad_locals (wl_admission w))" "ad_locals (wl_admission w) ! i = Receiving"
  shows "inv_held (local_connection_asks i now process message w)"
proof (cases "\<exists>n. ad_local_permits (wl_admission w) = Suc n \<and> lr_target message = None")
  case False
  then obtain t a where asks: "local_connection_asks i now process message w = w\<lparr>wl_admission := set_local i t a\<rparr>"
    "ad_streams a = ad_streams (wl_admission w)" "ad_locals a = ad_locals (wl_admission w)"
  proof (cases "ad_local_permits (wl_admission w)")
    case 0
    then show thesis
      by (intro that [of Replying "wl_admission w"]) (simp_all add: local_connection_asks_def admit_local_request_def)
  next
    case (Suc n)
    with False obtain name where "lr_target message = Some name" by (cases "lr_target message") auto
    then show thesis
      by (intro that [of Running "(wl_admission w)\<lparr>ad_local_permits := n\<rparr>"])
        (simp_all add: local_connection_asks_def admit_local_request_def Suc)
  qed
  show ?thesis
    unfolding asks(1)
    by (rule inv_heldI [OF assms(1)], intro disjI2 conjI runs_kept)
      (use assms(3) asks(2,3) in \<open>auto simp: set_local_def nth_list_update_if\<close>)
next
  case True
  let ?w = "local_connection_asks i now process message w" and ?n = "length (dn_requests (wl_daemon w))"
  from True obtain n where
    fields: "wl_admission ?w = set_local i Running ((wl_admission w)\<lparr>ad_local_permits := n\<rparr>)"
      "wl_daemon ?w = begin_request now process (lr_request message) (wl_daemon w)" "wl_streams ?w = wl_streams w"
      "wl_locals ?w = (wl_locals w)(i := Some ?n)"
    by (auto simp: local_connection_asks_def admit_local_request_def)
  show ?thesis
  proof (rule inv_heldI [OF assms(1)])
    fix k assume "waiting (wl_daemon ?w) k"
    then consider "k = ?n" | "waiting (wl_daemon w) k"
      unfolding fields using begin_request_waiting by blast
    then show "stream_runs ?w k \<or> local_runs ?w k
      \<or> waiting (wl_daemon w) k \<and> (stream_runs w k \<longrightarrow> stream_runs ?w k) \<and> (local_runs w k \<longrightarrow> local_runs ?w k)"
    proof cases
      case 1
      then have "local_runs ?w k"
        using assms(2) unfolding local_runs_def by (intro exI [of _ i]) (simp add: fields set_local_def)
      then show ?thesis by simp
    next
      case 2
      have "(stream_runs w k \<longrightarrow> stream_runs ?w k) \<and> (local_runs w k \<longrightarrow> local_runs ?w k)"
        by (intro conjI runs_kept) (use assms(3) in \<open>auto simp: fields set_local_def nth_list_update_if\<close>)
      then show ?thesis using 2 by simp
    qed
  qed
qed

lemma held_done:
  assumes "inv_held w" "awaits (wl_daemon w) k request (Answers x)" "wl_daemon w' = wl_daemon w"
    and "\<And>l. l \<noteq> k \<Longrightarrow> (stream_runs w l \<longrightarrow> stream_runs w' l) \<and> (local_runs w l \<longrightarrow> local_runs w' l)"
  shows "inv_held w'"
proof (rule inv_heldI [OF assms(1)])
  fix l assume l: "waiting (wl_daemon w') l"
  have "l \<noteq> k" using l awaits_state [OF assms(2)] by (auto simp: assms(3))
  then show "stream_runs w' l \<or> local_runs w' l
      \<or> waiting (wl_daemon w) l \<and> (stream_runs w l \<longrightarrow> stream_runs w' l) \<and> (local_runs w l \<longrightarrow> local_runs w' l)"
    using l assms(3,4) by simp
qed

lemma held_step:
  assumes "work_step cs world w w'" "inv_held w"
  shows "inv_held w'"
  using assms(1)
proof (cases rule: work_step.cases)
  case (stream_request j now process request)
  then show ?thesis using held_stream_asks [OF assms(2)] by simp
next
  case (local_request i now process message)
  then show ?thesis using held_local_asks [OF assms(2)] by simp
next
  case (stream_answered j k request x)
  show ?thesis
    unfolding stream_answered(1)
    by (rule held_done [OF assms(2) stream_answered(5)], simp, intro conjI runs_kept)
      (use stream_answered(4) in \<open>auto simp: peer_request_done_def set_stream_def nth_list_update_if\<close>)
next
  case (local_answered i k request x)
  show ?thesis
    unfolding local_answered(1)
    by (rule held_done [OF assms(2) local_answered(5)], simp, intro conjI runs_kept)
      (use local_answered(4) in \<open>auto simp: local_request_done_def set_local_def nth_list_update_if\<close>)
next
  case (local_forwarded i)
  show ?thesis
    unfolding local_forwarded(1)
    by (rule inv_heldI [OF assms(2)], intro disjI2 conjI runs_kept)
      (use local_forwarded(4) in \<open>auto simp: local_request_done_def set_local_def nth_list_update_if\<close>)
next
  case (network a)
  show ?thesis
    unfolding network(1)
    by (rule inv_heldI [OF assms(2)], intro disjI2 conjI runs_kept)
      (use peer_step_runs [OF network(2,3)] in auto)
next
  case (local_socket a)
  show ?thesis
    unfolding local_socket(1)
    by (rule inv_heldI [OF assms(2)], intro disjI2 conjI runs_kept)
      (use local_step_runs [OF local_socket(2,3)] in auto)
next
  case (daemon_works d)
  have "waiting (wl_daemon w) k" if "waiting d k" for k
    using finished_stays [OF daemon_works(2) _ that] daemon_works(3) by (simp add: no_request_comes_or_goes_def)
  then show ?thesis
    unfolding daemon_works(1)
    by (intro inv_heldI [OF assms(2)]) (simp add: stream_runs_def local_runs_def)
qed

lemma working_held: "working cs world cfg w \<Longrightarrow> inv_held w"
proof (induction rule: working.induct)
  case (work_starts name now)
  show ?case by (simp add: inv_held_def workload_new_def daemon_start_def)
next
  case (work_steps w w')
  then show ?case using held_step by blast
qed

section \<open>Counting\<close>

definition unfinished_requests :: "daemon_run \<Rightarrow> nat" where
  "unfinished_requests d = count_if (\<lambda>q. unfinished (rq_state q)) (dn_requests d)"

lemma count_if_card: "count_if P xs = card {i. i < length xs \<and> P (xs ! i)}"
  by (simp add: count_if_def length_filter_conv_card)

lemma card_partial_image:
  assumes "finite A" "\<And>k. k \<in> K \<Longrightarrow> \<exists>a \<in> A. f a = Some k"
  shows "finite K \<and> card K \<le> card A"
proof -
  have "K \<subseteq> (the \<circ> f) ` A" using assms(2) by force
  then show ?thesis
    using assms(1) by (meson card_image_le card_mono finite_imageI finite_subset le_trans)
qed

text \<open>Each permit that is held accounts for at most one unfinished request.\<close>

lemma unfinished_running:
  assumes "inv_held w"
  shows "unfinished_requests (wl_daemon w) \<le> running_streams (wl_admission w) + running_locals (wl_admission w)"
proof -
  let ?a = "wl_admission w"
  let ?S = "{j. j < length (ad_streams ?a) \<and> snd (ad_streams ?a ! j) = Running}"
  let ?L = "{i. i < length (ad_locals ?a) \<and> ad_locals ?a ! i = Running}"
  have s: "finite {k. stream_runs w k} \<and> card {k. stream_runs w k} \<le> card ?S"
    by (rule card_partial_image [where f = "wl_streams w"]) (auto simp: stream_runs_def)
  have l: "finite {k. local_runs w k} \<and> card {k. local_runs w k} \<le> card ?L"
    by (rule card_partial_image [where f = "wl_locals w"]) (auto simp: local_runs_def)
  have "{k. waiting (wl_daemon w) k} \<subseteq> {k. stream_runs w k} \<union> {k. local_runs w k}"
    using assms by (auto simp: inv_held_def)
  then have "card {k. waiting (wl_daemon w) k} \<le> card ({k. stream_runs w k} \<union> {k. local_runs w k})"
    using s l by (intro card_mono) simp_all
  also have "\<dots> \<le> card {k. stream_runs w k} + card {k. local_runs w k}" by (rule card_Un_le)
  finally show ?thesis
    using s l by (simp add: unfinished_requests_def running_streams_def running_locals_def count_if_card)
qed

lemma groups_of_size: "size (groups_of q) \<le> (if unfinished (rq_state q) then 1 else 0)"
  using execute_started(4) by (cases "rq_state q") (simp_all add: groups_of_def ending_def split: request.split)

lemma running_groups_size: "size (running_groups d) \<le> unfinished_requests d"
proof -
  have "size (sum_list (map groups_of qs)) \<le> count_if (\<lambda>q. unfinished (rq_state q)) qs" for qs
  proof (induction qs)
    case (Cons q qs)
    then show ?case using groups_of_size [of q] by (simp split: if_splits)
  qed simp
  then show ?thesis by (simp add: running_groups_def unfinished_requests_def)
qed

section \<open>Properties\<close>


text \<open>In the example a local connection asks for a process.\<close>

definition sample_message :: local_request where
  "sample_message = \<lparr>lr_target = None, lr_request = Exec ''sleep'' [''9''] 5\<rparr>"

definition sample_accepted :: workload where
  "sample_accepted =
     (let w = workload_new sample_config ''me'' 0
      in w\<lparr>wl_admission := accept_local (wl_admission w)\<rparr>)"

definition sample_admitted :: workload where
  "sample_admitted = local_connection_asks 0 0 sample_env sample_message sample_accepted"

lemma sample_admitted_working: "working cs world sample_config sample_admitted"
proof -
  let ?w = "workload_new sample_config ''me'' 0"
  have "same_permits (wl_admission ?w) (accept_local (wl_admission ?w))"
    by (simp add: same_permits_def accept_local_def split: option.split)
  with local_connects have "work_step cs world ?w (?w\<lparr>wl_admission := accept_local (wl_admission ?w)\<rparr>)"
    by (rule local_socket)
  then have "working cs world sample_config sample_accepted"
    unfolding sample_accepted_def Let_def by (rule work_steps [OF work_starts])
  moreover have "ad_locals (wl_admission sample_accepted) = [Receiving]"
    by (simp add: sample_accepted_def workload_new_def admission_new_def accept_local_def sample_config_def
        daemon_config_default_def try_acquire.simps(2) [of 31, simplified])
  ultimately show ?thesis
    unfolding sample_admitted_def by (intro work_steps [OF _ local_request]) simp_all
qed

lemma sample_admitted_facts:
  "unfinished_requests (wl_daemon sample_admitted) = 1" "dn_processes (wl_daemon sample_admitted) =
     [Spawned 41 ''sleep'' [''9'']]"
proof -
  have daemon: "wl_daemon sample_admitted =
      begin_request 0 sample_env (Exec ''sleep'' [''9''] 5) (daemon_start sample_config ''me'' 0)"
    by (simp add: sample_admitted_def sample_accepted_def local_asks_fields workload_new_def admission_new_def
        accept_local_def sample_message_def sample_config_def daemon_config_default_def Let_def
        try_acquire.simps(2) [of 31, simplified])
  show "unfinished_requests (wl_daemon sample_admitted) = 1"
    by (simp add: daemon unfinished_requests_def begin_request_def add_request_def daemon_start_def)
  show "dn_processes (wl_daemon sample_admitted) = [Spawned 41 ''sleep'' [''9'']]"
    by (simp add: daemon begin_request_def daemon_start_def execute_def sample_env_def MAX_EXEC_SECONDS_def)
qed


end
