(* ===== verification/Ssher_Config.thy ===== *)
theory Ssher_Config
  imports Rust_Map Rust_Text Rust_Io Rust_Path
begin

text \<open>
  The configuration of the address selector \<open>ssher\<close> (\<open>ssher/config.rs\<close>, \<open>ssher/args.rs\<close>,
  \<open>error.rs\<close>): its limits, how a host's settings are merged with the global ones, and where
  the configuration and the cache are found. Environment variables, the output of \<open>id -u\<close> and
  which files exist are arguments.
\<close>

datatype ssher_error =
    SsherIo string io_error
  | SsherParse string string
  | SsherSerialize string
  | SsherEnvironment string
  | SsherClock string
  | SsherUtf8 string
  | SsherInvalid string
  | SsherProbe string u16 ssher_error
  | SsherUnreachable "ssher_error list"

datatype selection_mode = LowestIcmpLatency | LowestTcpLatency

record global_config =
  gc_probe_timeout_ms :: "u64 option"
  gc_cache_ttl_sec :: "u64 option"
  gc_cache_path :: "string option"
  gc_selection_mode :: "selection_mode option"

record host_config =
  hc_probe_timeout_ms :: "u64 option"
  hc_selection_mode :: "selection_mode option"
  hc_endpoints :: "string list"

record ssher_config =
  sc_global :: "global_config option"
  sc_hosts :: "(string, host_config) btree_map"

record final_host_config =
  fh_probe_timeout_ms :: u64
  fh_selection_mode :: selection_mode
  fh_endpoints :: "string list"

record cache_config =
  cc_ttl_sec :: u64
  cc_path :: string

record final_config =
  fc_host_alias :: string
  fc_host :: final_host_config
  fc_cache :: cache_config

section \<open>Reading and validating\<close>

definition read_config_file ::
  "(string \<Rightarrow> (ssher_config, string) result) \<Rightarrow> string \<Rightarrow> (string, io_error) result
   \<Rightarrow> (ssher_config, ssher_error) result" where
  "read_config_file from_toml path content =
     and_then (map_err (SsherIo (''failed to read config file '' @ path)) content)
       (\<lambda>text. map_err (SsherParse (''failed to parse TOML config '' @ path)) (from_toml text))"

definition validate_host :: "string \<times> host_config \<Rightarrow> (unit, ssher_error) result" where
  "validate_host =
     (\<lambda>(name, host).
        if hc_probe_timeout_ms host = Some 0
        then Err (SsherInvalid (''host '' @ [CHR 0x27] @ name @ [CHR 0x27]
                    @ '' probe_timeout_ms must be greater than 0''))
        else if hc_endpoints host = []
        then Err (SsherInvalid (''host '' @ [CHR 0x27] @ name @ [CHR 0x27]
                    @ '' must have at least one endpoint''))
        else Ok ())"

definition validate_global :: "global_config \<Rightarrow> (unit, ssher_error) result" where
  "validate_global g =
     (if gc_probe_timeout_ms g = Some 0
      then Err (SsherInvalid ''global probe_timeout_ms must be greater than 0'')
      else if gc_cache_ttl_sec g = Some 0
      then Err (SsherInvalid ''global cache_ttl_sec must be greater than 0'')
      else Ok ())"

definition ssher_validate :: "ssher_config \<Rightarrow> (unit, ssher_error) result" where
  "ssher_validate cfg =
     and_then (case sc_global cfg of None \<Rightarrow> Ok () | Some g \<Rightarrow> validate_global g) (\<lambda>_.
       if sc_hosts cfg = []
       then Err (SsherInvalid ''at least one host configuration is required'')
       else try_each validate_host (sc_hosts cfg))"

section \<open>One host's settings\<close>

text \<open>\<open>or\<close> and \<open>unwrap_or\<close>.\<close>

fun opt_or :: "'a option \<Rightarrow> 'a option \<Rightarrow> 'a option" where
  "opt_or (Some x) y = Some x"
| "opt_or None y = y"

fun unwrap_or :: "'a option \<Rightarrow> 'a \<Rightarrow> 'a" where
  "unwrap_or (Some x) y = x"
| "unwrap_or None y = y"

definition merge_host_config :: "global_config option \<Rightarrow> host_config \<Rightarrow> final_host_config" where
  "merge_host_config global host =
     \<lparr>fh_probe_timeout_ms =
        unwrap_or (opt_or (hc_probe_timeout_ms host) (Option.bind global gc_probe_timeout_ms)) 500,
      fh_selection_mode =
        unwrap_or (opt_or (hc_selection_mode host) (Option.bind global gc_selection_mode)) LowestTcpLatency,
      fh_endpoints = hc_endpoints host\<rparr>"

type_synonym home_var = "(string, string) result"

definition expand_tilde :: "home_var \<Rightarrow> string \<Rightarrow> (string, ssher_error) result" where
  "expand_tilde home path =
     (if path = ''~'' then map_err SsherEnvironment home
      else case strip_prefix path ''~/'' of
        Some stripped \<Rightarrow> map_ok (\<lambda>h. h @ ''/'' @ stripped) (map_err SsherEnvironment home)
      | None \<Rightarrow> Ok path)"

text \<open>\<open>id -u\<close>: its output, or that it could not be run; then its bytes as text.\<close>

definition default_cache_path ::
  "(u8 list, io_error) result \<Rightarrow> (u8 list \<Rightarrow> (string, string) result) \<Rightarrow> (string, ssher_error) result" where
  "default_cache_path id_u from_utf8 =
     and_then (map_err (SsherIo ''failed to execute id -u'') id_u) (\<lambda>out.
     and_then (map_err SsherUtf8 (from_utf8 out)) (\<lambda>text.
       Ok (''/run/user/'' @ trim text @ ''/sshe/ssher_cache.toml'')))"

record ssher_env =
  en_home :: home_var
  en_id_u :: "(u8 list, io_error) result"
  en_from_utf8 :: "u8 list \<Rightarrow> (string, string) result"

definition resolve_cache_path :: "ssher_env \<Rightarrow> string option \<Rightarrow> (string, ssher_error) result" where
  "resolve_cache_path env path =
     (case path of
        Some p \<Rightarrow> expand_tilde (en_home env) p
      | None \<Rightarrow> default_cache_path (en_id_u env) (en_from_utf8 env))"

definition resolve_host :: "ssher_env \<Rightarrow> ssher_config \<Rightarrow> string \<Rightarrow> (final_config, ssher_error) result" where
  "resolve_host env cfg host =
     and_then (ok_or (bt_get (sc_hosts cfg) host)
        (SsherInvalid (''no configuration found for host '' @ [CHR 0x27] @ host @ [CHR 0x27]))) (\<lambda>hc.
     and_then (resolve_cache_path env (Option.bind (sc_global cfg) gc_cache_path)) (\<lambda>path.
       Ok \<lparr>fc_host_alias = host,
           fc_host = merge_host_config (sc_global cfg) hc,
           fc_cache = \<lparr>cc_ttl_sec = unwrap_or (Option.bind (sc_global cfg) gc_cache_ttl_sec) 300,
                       cc_path = path\<rparr>\<rparr>))"

section \<open>Finding the configuration (args.rs)\<close>

text \<open>\<open>home.join(p)\<close> for a relative \<open>p\<close>: a separator is added unless it is there or \<open>home\<close> is empty.\<close>

definition join_text :: "string \<Rightarrow> string \<Rightarrow> string" where
  "join_text home p = (if home = [] \<or> last home = CHR ''/'' then home @ p else home @ ''/'' @ p)"

definition default_config_paths :: "string \<Rightarrow> string list" where
  "default_config_paths home =
     map (join_text home)
       [''.ssh/ssher.toml'', ''.config/ssher.toml'', ''.config/sshe/ssher_config.toml'']"

fun join_with :: "string \<Rightarrow> string list \<Rightarrow> string" where
  "join_with sep [] = []"
| "join_with sep [x] = x"
| "join_with sep (x # y # ys) = x @ sep @ join_with sep (y # ys)"

definition resolve_config_path ::
  "home_var \<Rightarrow> (string \<Rightarrow> bool) \<Rightarrow> string option \<Rightarrow> (string, ssher_error) result" where
  "resolve_config_path home is_file config_file =
     (case config_file of
        Some path \<Rightarrow>
          if is_file path then Ok path
          else Err (SsherInvalid (''config file does not exist or is not a regular file: '' @ path))
      | None \<Rightarrow>
          (case home of
             Err _ \<Rightarrow> Err (SsherInvalid ''HOME is not set, cannot determine default config path'')
           | Ok h \<Rightarrow>
               (case find is_file (default_config_paths h) of
                  Some path \<Rightarrow> Ok path
                | None \<Rightarrow>
                    Err (SsherInvalid (''default config file does not exist: ''
                           @ join_with '', '' (default_config_paths h))))))"

section \<open>Lemmas\<close>

definition usable_host :: "host_config \<Rightarrow> bool" where
  "usable_host h \<longleftrightarrow> hc_probe_timeout_ms h \<noteq> Some 0 \<and> hc_endpoints h \<noteq> []"

definition usable_global :: "global_config \<Rightarrow> bool" where
  "usable_global g \<longleftrightarrow> gc_probe_timeout_ms g \<noteq> Some 0 \<and> gc_cache_ttl_sec g \<noteq> Some 0"

lemma validate_host_Ok_iff: "validate_host (name, h) = Ok u \<longleftrightarrow> usable_host h"
  by (simp add: validate_host_def usable_host_def)

lemma validate_global_Ok_iff: "validate_global g = Ok u \<longleftrightarrow> usable_global g"
  by (simp add: validate_global_def usable_global_def)

lemma validate_hosts_Ok_iff:
  "try_each validate_host hosts = Ok u \<longleftrightarrow> (\<forall>(name, h) \<in> set hosts. usable_host h)"
  using validate_host_Ok_iff by (auto simp: try_each_unit)

lemma ssher_validate_Ok_iff:
  "ssher_validate cfg = Ok u \<longleftrightarrow>
     (\<forall>g. sc_global cfg = Some g \<longrightarrow> usable_global g) \<and> sc_hosts cfg \<noteq> []
     \<and> (\<forall>(name, h) \<in> set (sc_hosts cfg). usable_host h)"
  by (simp add: ssher_validate_def and_then_Ok_iff validate_hosts_Ok_iff validate_global_Ok_iff
      split: option.split)

lemma bt_get_mem: "bt_get m k = Some v \<Longrightarrow> (k, v) \<in> set m"
  by (auto simp: bt_get_def dest: map_of_SomeD)

section \<open>Properties\<close>

text \<open>
  Settings that passed validation are usable: for every host that resolves, the timeout is
  positive, the cache lives for at least a second and there is an endpoint to try; the host's
  own settings win over the global ones and those over the defaults (500 ms, TCP, 300 s);
  endpoints are the host's, and a missing host, and nothing else in a valid configuration with
  a readable environment, is refused.
\<close>

theorem resolved_hosts_are_usable:
  assumes "ssher_validate cfg = Ok ()"
  shows "case resolve_host env cfg host of
      Ok fc \<Rightarrow> fc_host_alias fc = host \<and> 0 < fh_probe_timeout_ms (fc_host fc)
        \<and> 0 < cc_ttl_sec (fc_cache fc) \<and> fh_endpoints (fc_host fc) \<noteq> []
        \<and> (\<exists>h. bt_get (sc_hosts cfg) host = Some h
            \<and> fh_endpoints (fc_host fc) = hc_endpoints h
            \<and> (case (hc_probe_timeout_ms h, Option.bind (sc_global cfg) gc_probe_timeout_ms) of
                 (Some t, _) \<Rightarrow> fh_probe_timeout_ms (fc_host fc) = t
               | (None, Some t) \<Rightarrow> fh_probe_timeout_ms (fc_host fc) = t
               | (None, None) \<Rightarrow> fh_probe_timeout_ms (fc_host fc) = 500))
    | Err e \<Rightarrow> bt_get (sc_hosts cfg) host = None
        \<or> (\<exists>e'. resolve_cache_path env (Option.bind (sc_global cfg) gc_cache_path) = Err e')"
proof (cases "resolve_host env cfg host")
  case (Err e)
  then show ?thesis by (auto simp: resolve_host_def result_simps)
next
  case (Ok fc)
  then obtain h path where h: "bt_get (sc_hosts cfg) host = Some h"
    and fc: "fc = \<lparr>fc_host_alias = host, fc_host = merge_host_config (sc_global cfg) h,
      fc_cache = \<lparr>cc_ttl_sec = unwrap_or (Option.bind (sc_global cfg) gc_cache_ttl_sec) 300, cc_path = path\<rparr>\<rparr>"
    by (auto simp: resolve_host_def result_simps)
  have "usable_host h" and "\<And>g. sc_global cfg = Some g \<Longrightarrow> usable_global g"
    using assms bt_get_mem [OF h] by (auto simp: ssher_validate_Ok_iff)
  then show ?thesis
    using h Ok
    by (cases "sc_global cfg"; cases "hc_probe_timeout_ms h")
      (auto simp: fc merge_host_config_def usable_host_def usable_global_def word_neq_0_conv [symmetric]
        elim!: opt_or.elims unwrap_or.elims split: option.splits)
qed

definition sample_ssher_config :: ssher_config where
  "sample_ssher_config =
     \<lparr>sc_global = Some \<lparr>gc_probe_timeout_ms = Some 400, gc_cache_ttl_sec = None,
                        gc_cache_path = Some ''/run/cache'', gc_selection_mode = None\<rparr>,
      sc_hosts = [(''pc'', \<lparr>hc_probe_timeout_ms = Some 500, hc_selection_mode = None,
                            hc_endpoints = [''a'', ''b'']\<rparr>)]\<rparr>"

lemma sample_ssher_config_valid: "ssher_validate sample_ssher_config = Ok ()"
  by (simp add: ssher_validate_def sample_ssher_config_def validate_global_def validate_host_def)

theorem resolved_hosts_are_usable_witness:
  "\<forall>env. case resolve_host env sample_ssher_config ''pc'' of
      Ok fc \<Rightarrow> fh_probe_timeout_ms (fc_host fc) = 500
    | Err e \<Rightarrow> \<exists>e'. resolve_cache_path env (Some ''/run/cache'') = Err e'"
proof
  fix env
  from resolved_hosts_are_usable [where env = env and host = "''pc''", OF sample_ssher_config_valid]
  show "case resolve_host env sample_ssher_config ''pc'' of
      Ok fc \<Rightarrow> fh_probe_timeout_ms (fc_host fc) = 500
    | Err e \<Rightarrow> \<exists>e'. resolve_cache_path env (Some ''/run/cache'') = Err e'"
    by (cases "resolve_host env sample_ssher_config ''pc''")
      (auto simp: sample_ssher_config_def bt_get_def)
qed

end
