(* ===== verification/Ssher_Select.thy ===== *)
theory Ssher_Select
  imports Ssher_Config
begin

text \<open>
  Choosing an endpoint by probing all of them at once (\<open>ssher/selector.rs\<close>). What the network
  and \<open>ping\<close> answer for an endpoint is an environment per endpoint, with the instants at which
  its name was resolved and its probe ended; the order in which the probes end, which the
  runtime decides, is an argument. Floating-point numbers are opaque: \<open>parse_f64\<close> stands for
  \<open>str::parse::<f64>\<close> and \<open>round_f64\<close> for rounding and converting to \<open>u128\<close>.
\<close>

datatype probe_source = FromCache | FromProbe

record probe_result =
  pr_endpoint :: string
  pr_latency_ms :: u128
  pr_source :: probe_source

record ping_output =
  po_success :: bool
  po_stdout :: string
  po_stderr :: string

record endpoint_env =
  ee_lookup :: "string \<Rightarrow> (string list, io_error) result"
  ee_resolved_at :: instant
  ee_connect :: "string \<Rightarrow> (unit, io_error) result timed"
  ee_ping :: "string list \<Rightarrow> (ping_output, io_error) result"
  ee_done_at :: instant

section \<open>One endpoint\<close>

definition from_millis :: "u64 \<Rightarrow> duration" where
  "from_millis ms = unat ms"

definition host_port :: "string \<Rightarrow> u16 \<Rightarrow> string" where
  "host_port host port = host @ '':'' @ show_nat (unat port)"

definition resolve_socket_addr ::
  "endpoint_env \<Rightarrow> string \<Rightarrow> u16 \<Rightarrow> (string, ssher_error) result" where
  "resolve_socket_addr env host port =
     and_then (map_err (SsherIo (''resolve failed for '' @ host_port host port)) (ee_lookup env (host_port host port)))
       (\<lambda>addrs. case addrs of
          [] \<Rightarrow> Err (SsherInvalid ''no socket address resolved'')
        | a # _ \<Rightarrow> Ok a)"

text \<open>The clock starts once the name is resolved, and only the connection is bounded.\<close>

definition probe_tcp ::
  "endpoint_env \<Rightarrow> string \<Rightarrow> u16 \<Rightarrow> (u128, ssher_error) result" where
  "probe_tcp env host port =
     and_then (resolve_socket_addr env host port) (\<lambda>addr.
       case ee_connect env addr of
         Elapsed \<Rightarrow> Err (SsherInvalid ''connect timeout'')
       | Completed answer \<Rightarrow>
           and_then (map_err (SsherIo ''connect failed'') answer)
             (\<lambda>_. Ok (of_nat (ee_done_at env - ee_resolved_at env))))"

definition parse_ping_latency ::
  "(string \<Rightarrow> 'f option) \<Rightarrow> ('f \<Rightarrow> u128) \<Rightarrow> string \<Rightarrow> u128 option" where
  "parse_ping_latency parse_f64 round_f64 stdout =
     (case find_sub stdout ''time='' of
        None \<Rightarrow> None
      | Some i \<Rightarrow>
          let rest = drop (i + length ''time='') stdout
          in case (case find_sub rest '' ms'' of Some j \<Rightarrow> Some j | None \<Rightarrow> find_sub rest ''ms'') of
               None \<Rightarrow> None
             | Some j \<Rightarrow> map_option round_f64 (parse_f64 (trim (take j rest))))"

definition ping_args :: "string \<Rightarrow> duration \<Rightarrow> string list" where
  "ping_args host timeout = [''-c'', ''1'', ''-W'', show_nat (max (as_secs timeout) 1), host]"

definition probe_icmp ::
  "(string \<Rightarrow> 'f option) \<Rightarrow> ('f \<Rightarrow> u128) \<Rightarrow> endpoint_env \<Rightarrow> string \<Rightarrow> duration \<Rightarrow> (u128, ssher_error) result" where
  "probe_icmp parse_f64 round_f64 env host timeout =
     and_then (map_err (SsherIo (''failed to execute ping for '' @ host)) (ee_ping env (ping_args host timeout)))
       (\<lambda>output.
          if \<not> po_success output
          then (let message = trim (po_stderr output)
                in if message = [] then Err (SsherInvalid ''ping failed'')
                   else Err (SsherInvalid (''ping failed: '' @ message)))
          else ok_or (parse_ping_latency parse_f64 round_f64 (po_stdout output))
                 (SsherInvalid ''unable to parse ping latency''))"

definition probe_endpoint ::
  "(string \<Rightarrow> 'f option) \<Rightarrow> ('f \<Rightarrow> u128) \<Rightarrow> endpoint_env \<Rightarrow> string \<Rightarrow> u16 \<Rightarrow> duration \<Rightarrow> selection_mode
   \<Rightarrow> (probe_result, ssher_error) result" where
  "probe_endpoint parse_f64 round_f64 env endpoint port timeout mode =
     and_then (map_err (SsherProbe endpoint port)
        (case mode of
           LowestTcpLatency \<Rightarrow> probe_tcp env endpoint port
         | LowestIcmpLatency \<Rightarrow> probe_icmp parse_f64 round_f64 env endpoint timeout))
       (\<lambda>latency. Ok \<lparr>pr_endpoint = endpoint, pr_latency_ms = latency, pr_source = FromProbe\<rparr>)"

section \<open>All endpoints\<close>

text \<open>The loop over the probes in the order they end: the first success wins, errors pile up.\<close>

fun first_success ::
  "(probe_result, ssher_error) result list \<Rightarrow> ssher_error list \<Rightarrow> (probe_result, ssher_error) result" where
  "first_success [] errors = Err (SsherUnreachable errors)"
| "first_success (Ok best # rs) errors = Ok best"
| "first_success (Err e # rs) errors = first_success rs (errors @ [e])"

definition probe_at ::
  "(string \<Rightarrow> 'f option) \<Rightarrow> ('f \<Rightarrow> u128) \<Rightarrow> (nat \<Rightarrow> endpoint_env) \<Rightarrow> final_host_config \<Rightarrow> u16 \<Rightarrow> nat
   \<Rightarrow> (probe_result, ssher_error) result" where
  "probe_at parse_f64 round_f64 envs host port i =
     probe_endpoint parse_f64 round_f64 (envs i) (fh_endpoints host ! i) port
       (from_millis (fh_probe_timeout_ms host)) (fh_selection_mode host)"

definition select_best_endpoint ::
  "(string \<Rightarrow> 'f option) \<Rightarrow> ('f \<Rightarrow> u128) \<Rightarrow> (nat \<Rightarrow> endpoint_env) \<Rightarrow> nat list \<Rightarrow> final_host_config \<Rightarrow> u16
   \<Rightarrow> (probe_result, ssher_error) result" where
  "select_best_endpoint parse_f64 round_f64 envs order host port =
     first_success (map (probe_at parse_f64 round_f64 envs host port) order) []"

text \<open>
  What the runtime promises of the order: every probe ends exactly once, and they come in the
  order of the instants at which they end.
\<close>

definition completion_order :: "(nat \<Rightarrow> endpoint_env) \<Rightarrow> final_host_config \<Rightarrow> nat list \<Rightarrow> bool" where
  "completion_order envs host order \<longleftrightarrow>
     distinct order \<and> set order = {..<length (fh_endpoints host)}
     \<and> sorted (map (\<lambda>i. ee_done_at (envs i)) order)"

section \<open>Lemmas\<close>

lemma first_success_Ok_iff:
  "first_success rs errors = Ok r \<longleftrightarrow>
     (\<exists>fs rest. rs = fs @ Ok r # rest \<and> (\<forall>f \<in> set fs. \<not> is_ok f))"
proof (induction rs errors rule: first_success.induct)
  case (2 best rs errors)
  then show ?case by (auto simp: Cons_eq_append_conv)
next
  case (3 e rs errors)
  have "(\<exists>fs rest. Err e # rs = fs @ Ok r # rest \<and> (\<forall>f \<in> set fs. \<not> is_ok f))
      \<longleftrightarrow> (\<exists>fs rest. rs = fs @ Ok r # rest \<and> (\<forall>f \<in> set fs. \<not> is_ok f))" (is "?L \<longleftrightarrow> ?R")
  proof
    assume ?R
    then obtain fs rest where "rs = fs @ Ok r # rest" "\<forall>f \<in> set fs. \<not> is_ok f" by blast
    then show ?L by (intro exI [of _ "Err e # fs"] exI [of _ rest]) auto
  qed (auto simp: Cons_eq_append_conv)
  with 3 show ?case by simp
qed simp

fun err_of :: "('a, 'e) result \<Rightarrow> 'e list" where
  "err_of (Ok x) = []"
| "err_of (Err e) = [e]"

lemma first_success_Err_iff:
  "first_success rs errors = Err e \<longleftrightarrow>
     (\<forall>r \<in> set rs. \<not> is_ok r) \<and> e = SsherUnreachable (errors @ concat (map err_of rs))"
  by (induction rs errors rule: first_success.induct) auto

lemma first_success_is_ok: "is_ok (first_success rs errors) \<longleftrightarrow> (\<exists>r \<in> set rs. is_ok r)"
  by (induction rs errors rule: first_success.induct) auto

lemma probe_endpoint_endpoint:
  "probe_endpoint parse_f64 round_f64 env endpoint port timeout mode = Ok r
     \<Longrightarrow> pr_endpoint r = endpoint \<and> pr_source r = FromProbe"
  by (auto simp: probe_endpoint_def result_simps)

lemma probe_endpoint_error:
  "probe_endpoint parse_f64 round_f64 env endpoint port timeout mode = Err e
     \<Longrightarrow> \<exists>e'. e = SsherProbe endpoint port e'"
  by (auto simp: probe_endpoint_def result_simps)

lemma probe_tcp_latency:
  assumes "probe_tcp env host port = Ok ms"
  shows "ms = of_nat (ee_done_at env - ee_resolved_at env)"
proof -
  from assms obtain addr where "(case ee_connect env addr of
      Elapsed \<Rightarrow> Err (SsherInvalid ''connect timeout'')
    | Completed answer \<Rightarrow> and_then (map_err (SsherIo ''connect failed'') answer)
        (\<lambda>_. Ok (of_nat (ee_done_at env - ee_resolved_at env)))) = Ok ms"
    unfolding probe_tcp_def and_then_Ok_iff by blast
  then show ?thesis by (cases "ee_connect env addr") (simp_all add: and_then_Ok_iff)
qed

lemma select_Ok:
  assumes "select_best_endpoint parse_f64 round_f64 envs order host port = Ok r"
  obtains before i after where "order = before @ i # after"
    "probe_at parse_f64 round_f64 envs host port i = Ok r"
    "\<forall>j \<in> set before. \<not> is_ok (probe_at parse_f64 round_f64 envs host port j)"
proof -
  let ?probe = "probe_at parse_f64 round_f64 envs host port"
  from assms obtain fs rest where fs: "map ?probe order = fs @ Ok r # rest" "\<forall>f \<in> set fs. \<not> is_ok f"
    unfolding select_best_endpoint_def first_success_Ok_iff by blast
  from fs(1) obtain before tail where tail: "order = before @ tail" "map ?probe before = fs"
    "map ?probe tail = Ok r # rest" by (auto simp: map_eq_append_conv)
  from tail(3) obtain i after where "tail = i # after" "?probe i = Ok r"
    by (cases tail) auto
  moreover have "\<forall>j \<in> set before. \<not> is_ok (?probe j)" using fs(2) tail(2) by auto
  ultimately show ?thesis using tail(1) that by blast
qed

text \<open>
  Where a configured endpoint comes from: a source that offers none but the host's own. Both
  the cache and the probes are one; the program takes the first that offers something.
\<close>

locale endpoint_source =
  fixes offer :: "'e \<Rightarrow> final_host_config \<Rightarrow> probe_result option"
    and legal :: "'e \<Rightarrow> final_host_config \<Rightarrow> bool"
  assumes offered: "legal e host \<Longrightarrow> offer e host = Some r \<Longrightarrow> pr_endpoint r \<in> set (fh_endpoints host)"
begin

lemma offered_opt:
  "legal e host \<Longrightarrow> pred_option (\<lambda>r. pr_endpoint r \<in> set (fh_endpoints host)) (offer e host)"
  by (cases "offer e host") (auto dest: offered)

text \<open>Another source behind this one offers the host's endpoints too.\<close>

lemma fallback:
  assumes "legal e host" "pred_option (\<lambda>r. pr_endpoint r \<in> set (fh_endpoints host)) other"
    "(case offer e host of Some r \<Rightarrow> Some r | None \<Rightarrow> other) = Some r"
  shows "pr_endpoint r \<in> set (fh_endpoints host)"
  using assms offered by (cases "offer e host") auto

end

lemma select_endpoint_index:
  assumes "select_best_endpoint parse_f64 round_f64 envs order host port = Ok r"
    "set order \<subseteq> {..<length (fh_endpoints host)}"
  shows "pr_endpoint r \<in> set (fh_endpoints host) \<and> pr_source r = FromProbe"
proof -
  from assms(1) obtain before i after where i: "order = before @ i # after"
    "probe_at parse_f64 round_f64 envs host port i = Ok r" by (rule select_Ok)
  then have "pr_endpoint r = fh_endpoints host ! i" "pr_source r = FromProbe"
    by (auto simp: probe_at_def dest: probe_endpoint_endpoint)
  with i(1) assms(2) show ?thesis by auto
qed

interpretation probing: endpoint_source
  "\<lambda>(envs, order, port) host. ok_opt (select_best_endpoint parse_f64 round_f64 envs order host port)"
  "\<lambda>(envs, order, port) host. set order \<subseteq> {..<length (fh_endpoints host)}"
proof (unfold_locales, goal_cases)
  case (1 e host r)
  have "ok_opt x = Some r \<longleftrightarrow> x = Ok r" for x :: "(probe_result, ssher_error) result"
    by (cases x) auto
  with 1 show ?case
    using select_endpoint_index [of parse_f64 round_f64 _ _ host _ r]
    by (cases e rule: prod_cases3) simp
qed

section \<open>What ping printed\<close>

lemma find_sub_first:
  assumes "\<forall>i < length pre. \<not> starts_with (drop i (pre @ p @ post)) p"
  shows "find_sub (pre @ p @ post) p = Some (length pre)"
  using assms
proof (induction pre)
  case Nil
  have "starts_with (p @ post) p" by (simp add: starts_with_def)
  then show ?case by (cases "p @ post") simp_all
next
  case (Cons c pre)
  have "\<not> starts_with (c # pre @ p @ post) p"
    using Cons.prems by (elim allE [of _ 0]) simp
  moreover have "\<forall>i < length pre. \<not> starts_with (drop i (pre @ p @ post)) p"
    using Cons.prems by (auto dest: spec [of _ "Suc _"])
  ultimately show ?case using Cons.IH by simp
qed

lemma no_occurrence:
  assumes "\<forall>c \<in> set pre. c \<noteq> hd p" "p \<noteq> []"
  shows "\<forall>i < length pre. \<not> starts_with (drop i (pre @ rest)) p"
proof (intro allI impI)
  fix i assume i: "i < length pre"
  then have "drop i (pre @ rest) = pre ! i # drop (Suc i) (pre @ rest)"
    using Cons_nth_drop_Suc [of i "pre @ rest"] by (simp add: nth_append)
  then show "\<not> starts_with (drop i (pre @ rest)) p"
    using assms i by (cases p) (auto simp: starts_with_def)
qed

text \<open>
  The latency is the number between the first \<open>time=\<close> and the unit after it, when the number
  holds no white space and \<open>time=\<close> does not occur before.
\<close>

lemma parse_ping_latency_printed:
  assumes "\<forall>i < length pre. \<not> starts_with (drop i (pre @ ''time='' @ num @ '' ms'' @ post)) ''time=''"
    and "\<forall>c \<in> set num. \<not> is_whitespace c"
  shows "parse_ping_latency parse_f64 round_f64 (pre @ ''time='' @ num @ '' ms'' @ post)
     = map_option round_f64 (parse_f64 num)"
proof -
  let ?rest = "num @ '' ms'' @ post"
  have "find_sub (pre @ ''time='' @ ?rest) ''time='' = Some (length pre)"
    using assms(1) by (rule find_sub_first)
  moreover have "find_sub ?rest '' ms'' = Some (length num)"
  proof (rule find_sub_first, rule no_occurrence)
    show "\<forall>c \<in> set num. c \<noteq> hd '' ms''"
      using assms(2) by (auto simp: is_whitespace_def)
  qed simp
  moreover have "trim num = num"
    using assms(2) hd_in_set last_in_set by (intro trim_none) blast
  ultimately show ?thesis by (simp add: parse_ping_latency_def)
qed

text \<open>
  Without the space the unit is still found, but any later \<open> ms\<close> takes precedence over it: the
  number and everything up to that later place is then read as one number.
\<close>

lemma parse_ping_latency_later_unit:
  "parse_ping_latency (\<lambda>t. if t = ''12'' then Some (12 :: nat) else None) of_nat ''time=12ms'' = Some 12"
  "parse_ping_latency (\<lambda>t. if t = ''12'' then Some (12 :: nat) else None) of_nat ''time=12ms, rtt 12 ms'' = None"
  by (simp_all add: parse_ping_latency_def starts_with_def trim_def is_whitespace_def)

section \<open>Properties\<close>

lemma sorted_map_split:
  "sorted (map f (before @ i # after)) \<Longrightarrow> j \<in> set after \<Longrightarrow> f i \<le> f j"
  by (simp add: sorted_append)

lemma select_first:
  assumes "completion_order envs host order"
    "select_best_endpoint parse_f64 round_f64 envs order host port = Ok r"
  obtains i where "i < length (fh_endpoints host)" "probe_at parse_f64 round_f64 envs host port i = Ok r"
    "\<And>j. j < length (fh_endpoints host) \<Longrightarrow> is_ok (probe_at parse_f64 round_f64 envs host port j)
       \<Longrightarrow> ee_done_at (envs i) \<le> ee_done_at (envs j)"
proof -
  from assms(2) obtain before i after where i: "order = before @ i # after"
    "probe_at parse_f64 round_f64 envs host port i = Ok r"
    "\<forall>j \<in> set before. \<not> is_ok (probe_at parse_f64 round_f64 envs host port j)" by (rule select_Ok)
  have set: "set order = {..<length (fh_endpoints host)}" and
    sorted: "sorted (map (\<lambda>i. ee_done_at (envs i)) (before @ i # after))"
    using assms(1) i(1) by (simp_all add: completion_order_def)
  show ?thesis
  proof (rule that [OF _ i(2)])
    show "i < length (fh_endpoints host)" using set i(1) by auto
  next
    fix j assume "j < length (fh_endpoints host)" "is_ok (probe_at parse_f64 round_f64 envs host port j)"
    then have "j \<in> set order" "j \<notin> set before" using set i(3) by auto
    then have "j = i \<or> j \<in> set after" using i(1) by auto
    then show "ee_done_at (envs i) \<le> ee_done_at (envs j)"
      using sorted_map_split [OF sorted] by auto
  qed
qed

lemma probe_at_tcp:
  assumes "fh_selection_mode host = LowestTcpLatency" "probe_at parse_f64 round_f64 envs host port i = Ok r"
  shows "pr_latency_ms r = of_nat (ee_done_at (envs i) - ee_resolved_at (envs i))"
  using assms by (auto simp: probe_at_def probe_endpoint_def result_simps dest: probe_tcp_latency)

lemma select_error:
  assumes "select_best_endpoint parse_f64 round_f64 envs order host port = Err e" "completion_order envs host order"
  shows "(\<forall>j < length (fh_endpoints host). \<not> is_ok (probe_at parse_f64 round_f64 envs host port j))
     \<and> e = SsherUnreachable (concat (map (\<lambda>j. err_of (probe_at parse_f64 round_f64 envs host port j)) order))"
  using assms
  by (auto simp: select_best_endpoint_def first_success_Err_iff completion_order_def comp_def)

text \<open>
  C37. The selected endpoint is a configured one whose probe succeeded, no other successful probe
  ended before it, and selection fails only if every probe failed, naming each endpoint's
  error. In TCP mode, when all names resolved at the same moment, no reachable endpoint has a
  smaller latency than the selected one.
\<close>

theorem selection_takes_the_first_to_answer:
  assumes "completion_order envs host order"
    and "\<forall>i < length (fh_endpoints host). ee_done_at (envs i) < 2 ^ 128"
  shows "case select_best_endpoint parse_f64 round_f64 envs order host port of
      Ok r \<Rightarrow> pr_endpoint r \<in> set (fh_endpoints host) \<and> pr_source r = FromProbe
        \<and> (\<exists>i < length (fh_endpoints host). probe_at parse_f64 round_f64 envs host port i = Ok r
            \<and> (\<forall>j < length (fh_endpoints host). is_ok (probe_at parse_f64 round_f64 envs host port j)
                 \<longrightarrow> ee_done_at (envs i) \<le> ee_done_at (envs j)))
        \<and> (fh_selection_mode host = LowestTcpLatency \<and> (\<exists>t. \<forall>i. ee_resolved_at (envs i) = t)
            \<longrightarrow> (\<forall>j < length (fh_endpoints host). \<forall>r'. probe_at parse_f64 round_f64 envs host port j = Ok r'
                  \<longrightarrow> pr_latency_ms r \<le> pr_latency_ms r'))
    | Err e \<Rightarrow> (\<forall>j < length (fh_endpoints host). \<not> is_ok (probe_at parse_f64 round_f64 envs host port j))
        \<and> e = SsherUnreachable (concat (map (\<lambda>j. err_of (probe_at parse_f64 round_f64 envs host port j)) order))"
proof (cases "select_best_endpoint parse_f64 round_f64 envs order host port")
  case (Err e)
  then show ?thesis using select_error [OF Err assms(1)] by simp
next
  case (Ok r)
  obtain i where i: "i < length (fh_endpoints host)" "probe_at parse_f64 round_f64 envs host port i = Ok r"
    "\<And>j. j < length (fh_endpoints host) \<Longrightarrow> is_ok (probe_at parse_f64 round_f64 envs host port j)
       \<Longrightarrow> ee_done_at (envs i) \<le> ee_done_at (envs j)"
    using select_first [OF assms(1) Ok] by blast
  have least: "pr_latency_ms r \<le> pr_latency_ms r'"
    if "fh_selection_mode host = LowestTcpLatency" "\<forall>i. ee_resolved_at (envs i) = t"
      "j < length (fh_endpoints host)" "probe_at parse_f64 round_f64 envs host port j = Ok r'" for j r' t
  proof -
    have "ee_done_at (envs i) \<le> ee_done_at (envs j)"
      using i(3) [OF that(3)] that(4) by simp
    moreover have "ee_done_at (envs i) < 2 ^ 128" "ee_done_at (envs j) < 2 ^ 128"
      using assms(2) i(1) that(3) by blast+
    ultimately show ?thesis
      using probe_at_tcp [OF that(1) i(2)] probe_at_tcp [OF that(1,4)] that(2)
      by (simp add: word_le_nat_alt unsigned_of_nat take_bit_nat_eq_self less_imp_diff_less)
  qed
  have "pr_endpoint r \<in> set (fh_endpoints host) \<and> pr_source r = FromProbe"
    using select_endpoint_index [OF Ok] assms(1) by (simp add: completion_order_def)
  with Ok i least show ?thesis by auto
qed

definition sample_endpoint_env :: "instant \<Rightarrow> instant \<Rightarrow> endpoint_env" where
  "sample_endpoint_env resolved done =
     \<lparr>ee_lookup = (\<lambda>name. Ok [name]), ee_resolved_at = resolved, ee_connect = (\<lambda>_. Completed (Ok ())),
      ee_ping = (\<lambda>_. Err (plain_io NotFound)), ee_done_at = done\<rparr>"

definition sample_host :: final_host_config where
  "sample_host = \<lparr>fh_probe_timeout_ms = 500, fh_selection_mode = LowestTcpLatency, fh_endpoints = [''a'', ''b'']\<rparr>"

lemma sample_selection:
  "select_best_endpoint (\<lambda>_. None :: nat option) of_nat envs [1, 0] sample_host 22
     = Ok \<lparr>pr_endpoint = ''b'', pr_latency_ms = of_nat (ee_done_at (envs 1) - ee_resolved_at (envs 1)), pr_source = FromProbe\<rparr>"
  if "ee_lookup (envs 1) = (\<lambda>name. Ok [name])" "ee_connect (envs 1) = (\<lambda>_. Completed (Ok ()))" for envs
  using that by (simp add: select_best_endpoint_def probe_at_def probe_endpoint_def probe_tcp_def
      resolve_socket_addr_def sample_host_def)

definition sample_envs :: "nat \<Rightarrow> endpoint_env" where
  "sample_envs i = sample_endpoint_env 0 (if i = 0 then 30 else 10)"

theorem selection_takes_the_first_to_answer_witness:
  "case select_best_endpoint (\<lambda>_. None :: nat option) of_nat sample_envs [1, 0] sample_host 22 of
     Ok r \<Rightarrow> pr_endpoint r \<in> {''a'', ''b''}
       \<and> (\<forall>j < 2. \<forall>r'. probe_at (\<lambda>_. None :: nat option) of_nat sample_envs sample_host 22 j = Ok r'
            \<longrightarrow> pr_latency_ms r \<le> pr_latency_ms r')
   | Err e \<Rightarrow> False"
proof -
  have order: "completion_order sample_envs sample_host [1, 0]"
    by (auto simp: completion_order_def sample_envs_def sample_endpoint_env_def sample_host_def)
  have bounds: "\<forall>i < length (fh_endpoints sample_host). ee_done_at (sample_envs i) < 2 ^ 128"
    by (simp add: sample_envs_def sample_endpoint_env_def)
  have facts: "length (fh_endpoints sample_host) = 2" "fh_selection_mode sample_host = LowestTcpLatency"
    "set (fh_endpoints sample_host) = {''a'', ''b''}" "\<exists>t. \<forall>i. ee_resolved_at (sample_envs i) = t"
    by (auto simp: sample_host_def sample_envs_def sample_endpoint_env_def)
  have "ee_lookup (sample_envs 1) = (\<lambda>name. Ok [name])" "ee_connect (sample_envs 1) = (\<lambda>_. Completed (Ok ()))"
    by (simp_all add: sample_envs_def sample_endpoint_env_def)
  from sample_selection [of sample_envs, OF this]
    selection_takes_the_first_to_answer [OF order bounds, of "\<lambda>_. None :: nat option" of_nat 22]
  show ?thesis by (simp only: facts result.case) blast
qed

text \<open>
  The name is resolved before the clock starts, so an endpoint with the larger latency is
  selected when the other name resolves slowly.
\<close>

lemma slow_resolution_loses:
  "\<exists>envs r. completion_order envs sample_host [1, 0]
     \<and> select_best_endpoint (\<lambda>_. None :: nat option) of_nat envs [1, 0] sample_host 22 = Ok r
     \<and> (\<exists>r'. probe_at (\<lambda>_. None :: nat option) of_nat envs sample_host 22 0 = Ok r'
          \<and> pr_latency_ms r' < pr_latency_ms r)"
proof -
  define envs where "envs = (\<lambda>i. if i = (0 :: nat) then sample_endpoint_env 100 105 else sample_endpoint_env 0 50)"
  have "completion_order envs sample_host [1, 0]"
    by (auto simp: completion_order_def envs_def sample_endpoint_env_def sample_host_def)
  moreover have "probe_at (\<lambda>_. None :: nat option) of_nat envs sample_host 22 0
      = Ok \<lparr>pr_endpoint = ''a'', pr_latency_ms = 5, pr_source = FromProbe\<rparr>"
    by (simp add: probe_at_def probe_endpoint_def probe_tcp_def resolve_socket_addr_def sample_host_def
        envs_def sample_endpoint_env_def)
  moreover have "select_best_endpoint (\<lambda>_. None :: nat option) of_nat envs [1, 0] sample_host 22
      = Ok \<lparr>pr_endpoint = ''b'', pr_latency_ms = 50, pr_source = FromProbe\<rparr>"
    by (simp add: sample_selection [unfolded One_nat_def] envs_def sample_endpoint_env_def)
  ultimately show ?thesis
    by (intro exI [of _ envs] exI conjI) (assumption | simp)+
qed

end
