(* ===== verification/Ssher_Cache.thy ===== *)
theory Ssher_Cache
  imports Ssher_Select
begin

text \<open>
  The endpoint cache of \<open>ssher\<close> (\<open>ssher/cache.rs\<close>): a TOML file with one entry per host
  alias. TOML is a pair of functions, the file system the answers of its calls; a failed
  write leaves the file as the environment says, truncated or not.
\<close>

record cache_entry =
  ent_endpoint :: string
  ent_latency_ms :: u64
  ent_expires_at_unix :: u64
  ent_port :: u16
  ent_selection_mode :: selection_mode

record cache_file =
  cache_entries :: "(string, cache_entry) btree_map"

definition cache_file_default :: cache_file where
  "cache_file_default = \<lparr>cache_entries = bt_empty\<rparr>"

text \<open>The calls: the clock, the directory, and the write with what it leaves if it fails.\<close>

type_synonym clock = "(u64, string) result"

datatype write_answer = Written | NotWritten "(string, io_error) result" io_error

record cache_env =
  cv_from_toml :: "string \<Rightarrow> (cache_file, string) result"
  cv_to_toml :: "cache_file \<Rightarrow> (string, string) result"
  cv_clock :: clock
  cv_create_dir :: "(unit, io_error) result"
  cv_write :: write_answer

definition current_unix_ts :: "clock \<Rightarrow> (u64, ssher_error) result" where
  "current_unix_ts clock = map_err SsherClock clock"

definition read_cache_file :: "cache_env \<Rightarrow> files \<Rightarrow> string \<Rightarrow> (cache_file, ssher_error) result" where
  "read_cache_file env files path =
     (case files (path_of path) of
        Ok content \<Rightarrow> map_err (SsherParse (''failed to parse cache file '' @ path)) (cv_from_toml env content)
      | Err e \<Rightarrow>
          if io_kind e = NotFound then Ok cache_file_default
          else Err (SsherIo (''failed to read cache file '' @ path) e))"

definition load_cached_result ::
  "cache_env \<Rightarrow> files \<Rightarrow> cache_config \<Rightarrow> string \<Rightarrow> final_host_config \<Rightarrow> u16
   \<Rightarrow> (probe_result option, ssher_error) result" where
  "load_cached_result env files cache host_alias host port =
     and_then (read_cache_file env files (cc_path cache)) (\<lambda>cache_file.
     and_then (current_unix_ts (cv_clock env)) (\<lambda>now.
       case bt_get (cache_entries cache_file) host_alias of
         None \<Rightarrow> Ok None
       | Some entry \<Rightarrow>
           if ent_expires_at_unix entry \<le> now then Ok None
           else if ent_port entry \<noteq> port \<or> ent_selection_mode entry \<noteq> fh_selection_mode host then Ok None
           else if \<not> list_ex (\<lambda>endpoint. endpoint = ent_endpoint entry) (fh_endpoints host) then Ok None
           else Ok (Some \<lparr>pr_endpoint = ent_endpoint entry, pr_latency_ms = ucast (ent_latency_ms entry),
                          pr_source = FromCache\<rparr>)))"

definition write_cache_file ::
  "cache_env \<Rightarrow> string \<Rightarrow> cache_file \<Rightarrow> files \<Rightarrow> (unit, ssher_error) result \<times> files" where
  "write_cache_file env path cache files =
     (case and_then (ok_or (path_parent (path_of path)) (SsherInvalid (''cache path has no parent: '' @ path))) (\<lambda>_.
           and_then (map_err (SsherIo ''create cache directory'') (cv_create_dir env)) (\<lambda>_.
             map_err SsherSerialize (cv_to_toml env cache))) of
        Err e \<Rightarrow> (Err e, files)
      | Ok content \<Rightarrow>
          (case cv_write env of
             Written \<Rightarrow> (Ok (), files(path_of path := Ok content))
           | NotWritten left_over e \<Rightarrow>
               (Err (SsherIo (''write cache '' @ path) e), files(path_of path := left_over))))"

definition new_entry :: "cache_config \<Rightarrow> final_host_config \<Rightarrow> u16 \<Rightarrow> probe_result \<Rightarrow> u64 \<Rightarrow> cache_entry" where
  "new_entry cache host port result now =
     \<lparr>ent_endpoint = pr_endpoint result,
      ent_latency_ms = ucast (min (pr_latency_ms result) (ucast (- 1 :: u64))),
      ent_expires_at_unix = saturating_add now (cc_ttl_sec cache),
      ent_port = port,
      ent_selection_mode = fh_selection_mode host\<rparr>"

definition store_cached_result ::
  "cache_env \<Rightarrow> files \<Rightarrow> cache_config \<Rightarrow> string \<Rightarrow> final_host_config \<Rightarrow> u16 \<Rightarrow> probe_result
   \<Rightarrow> (unit, ssher_error) result \<times> files" where
  "store_cached_result env files cache host_alias host port result =
     (case and_then (read_cache_file env files (cc_path cache)) (\<lambda>cache_file.
           and_then (current_unix_ts (cv_clock env)) (\<lambda>now.
             Ok (cache_file\<lparr>cache_entries :=
                   bt_insert host_alias (new_entry cache host port result now) (cache_entries cache_file)\<rparr>))) of
        Err e \<Rightarrow> (Err e, files)
      | Ok cache_file \<Rightarrow> write_cache_file env (cc_path cache) cache_file files)"

section \<open>Lemmas\<close>

lemma load_cached_hit:
  assumes "load_cached_result env files cache host_alias host port = Ok (Some r)"
  obtains cache_file entry now where "read_cache_file env files (cc_path cache) = Ok cache_file"
    "cv_clock env = Ok now" "bt_get (cache_entries cache_file) host_alias = Some entry"
    "now < ent_expires_at_unix entry" "ent_port entry = port" "ent_selection_mode entry = fh_selection_mode host"
    "ent_endpoint entry \<in> set (fh_endpoints host)"
    "r = \<lparr>pr_endpoint = ent_endpoint entry, pr_latency_ms = ucast (ent_latency_ms entry), pr_source = FromCache\<rparr>"
proof -
  from assms obtain cache_file now where cf: "read_cache_file env files (cc_path cache) = Ok cache_file"
    "cv_clock env = Ok now"
    and rest: "(case bt_get (cache_entries cache_file) host_alias of
         None \<Rightarrow> Ok None
       | Some entry \<Rightarrow>
           if ent_expires_at_unix entry \<le> now then Ok None
           else if ent_port entry \<noteq> port \<or> ent_selection_mode entry \<noteq> fh_selection_mode host then Ok None
           else if \<not> list_ex (\<lambda>endpoint. endpoint = ent_endpoint entry) (fh_endpoints host) then Ok None
           else Ok (Some \<lparr>pr_endpoint = ent_endpoint entry, pr_latency_ms = ucast (ent_latency_ms entry),
                          pr_source = FromCache\<rparr>)) = (Ok (Some r) :: (_, ssher_error) result)"
    by (auto simp: load_cached_result_def current_unix_ts_def result_simps)
  from rest obtain entry where "bt_get (cache_entries cache_file) host_alias = Some entry"
    by (cases "bt_get (cache_entries cache_file) host_alias") simp_all
  with rest cf that [of cache_file now entry] show ?thesis
    by (auto simp: list_ex_iff split: if_splits)
qed

interpretation cached: endpoint_source
  "\<lambda>(env, files, cache, host_alias, port) host.
     case load_cached_result env files cache host_alias host port of Ok hit \<Rightarrow> hit | Err _ \<Rightarrow> None"
  "\<lambda>_ _. True"
proof (unfold_locales, goal_cases)
  case (1 e host r)
  obtain env files cache host_alias port where e: "e = (env, files, cache, host_alias, port)"
    by (metis prod_cases5)
  with 1 have "load_cached_result env files cache host_alias host port = Ok (Some r)"
    by (simp split: result.splits)
  then obtain entry :: cache_entry where "ent_endpoint entry \<in> set (fh_endpoints host)"
    "r = \<lparr>pr_endpoint = ent_endpoint entry, pr_latency_ms = ucast (ent_latency_ms entry), pr_source = FromCache\<rparr>"
    by (rule load_cached_hit) blast
  then show ?case by simp
qed

text \<open>A latency survives the cache up to the largest \<open>u64\<close>.\<close>

lemma unat_widen: "unat (ucast (w :: u64) :: u128) = unat w"
proof -
  have "unat w < 2 ^ 64" using unsigned_less [of w] by simp
  then have "unat w < 2 ^ 128" by (rule less_trans) simp
  then show ?thesis by (simp add: unsigned_ucast_eq take_bit_nat_eq_self)
qed

lemma unat_clamp:
  "unat (ucast (min l (ucast (- 1 :: u64))) :: u64) = min (unat l) (2 ^ 64 - 1)" for l :: u128
proof -
  have m: "unat (ucast (- 1 :: u64) :: u128) = 2 ^ 64 - 1"
    by (simp only: unat_widen) (simp add: unsigned_minus_1_eq_mask mask_eq_exp_minus_1)
  have "unat (min l (ucast (- 1 :: u64))) = min (unat l) (2 ^ 64 - 1)"
    by (simp only: min_def word_le_nat_alt m split: if_split) simp
  moreover have "min (unat l) (2 ^ 64 - 1) < 2 ^ 64" by simp
  ultimately show ?thesis
    by (simp add: unsigned_ucast_eq take_bit_nat_eq_self)
qed

lemma widened_clamp:
  "ucast (ucast (min l (ucast (- 1 :: u64))) :: u64) = (of_nat (min (unat l) (2 ^ 64 - 1)) :: u128)"
  for l :: u128
proof -
  have "min (unat l) (2 ^ 64 - 1) < 2 ^ 128"
    by (rule le_less_trans [OF min.cobounded2]) simp
  then show ?thesis
    by (simp only: word_unat_eq_iff unat_widen unat_clamp) (simp add: unsigned_of_nat take_bit_nat_eq_self)
qed

lemma write_cache_file_Ok_iff:
  "write_cache_file env path cache files = (Ok u, files') \<longleftrightarrow>
     path_parent (path_of path) \<noteq> None \<and> cv_create_dir env = Ok () \<and> cv_write env = Written
     \<and> (\<exists>content. cv_to_toml env cache = Ok content \<and> files' = files(path_of path := Ok content))"
  by (auto simp: write_cache_file_def result_simps split: result.splits write_answer.splits)

lemma store_cached_result_Ok:
  assumes "store_cached_result env files cache host_alias host port result = (Ok u, files')"
  obtains cache_file now content where "read_cache_file env files (cc_path cache) = Ok cache_file"
    "cv_clock env = Ok now"
    "cv_to_toml env (cache_file\<lparr>cache_entries := bt_insert host_alias (new_entry cache host port result now)
        (cache_entries cache_file)\<rparr>) = Ok content"
    "files' = files(path_of (cc_path cache) := Ok content)"
  using assms
  by (auto simp: store_cached_result_def current_unix_ts_def result_simps write_cache_file_Ok_iff
      split: result.splits)

lemma read_after_store:
  assumes "files' = files(path_of path := Ok content)" "cv_from_toml env content = Ok cache_file"
  shows "read_cache_file env files' path = Ok cache_file"
  using assms by (simp add: read_cache_file_def)

lemma read_cache_file_clock [simp]:
  "read_cache_file (env\<lparr>cv_clock := c\<rparr>) files path = read_cache_file env files path"
  by (simp add: read_cache_file_def split: result.split)

lemma load_after_read:
  assumes "read_cache_file env files (cc_path cache) = Ok cache_file"
  shows "load_cached_result (env\<lparr>cv_clock := Ok now\<rparr>) files cache host_alias host port =
     (case bt_get (cache_entries cache_file) host_alias of
        None \<Rightarrow> Ok None
      | Some entry \<Rightarrow>
          Ok (if now < ent_expires_at_unix entry \<and> ent_port entry = port
                 \<and> ent_selection_mode entry = fh_selection_mode host
                 \<and> ent_endpoint entry \<in> set (fh_endpoints host)
              then Some \<lparr>pr_endpoint = ent_endpoint entry, pr_latency_ms = ucast (ent_latency_ms entry),
                         pr_source = FromCache\<rparr>
              else None))"
  using assms
  by (auto simp: load_cached_result_def current_unix_ts_def list_ex_iff not_less split: option.split)

text \<open>
  An unreadable cache file is never replaced: storing reads it first and fails the same way, so
  every later run finds it unreadable again, with \<open>--refresh-cache\<close> too.
\<close>

lemma unreadable_cache_is_kept:
  assumes "read_cache_file env files (cc_path cache) = Err e"
  shows "store_cached_result env files cache host_alias host port result = (Err e, files)"
  using assms by (simp add: store_cached_result_def)

section \<open>Properties\<close>

text \<open>
  C40. What was stored is what is loaded, and only while it applies. After a successful store,
  the alias yields the stored endpoint and latency (up to the largest \<open>u64\<close>) until the time of
  storing plus the time to live, saturating, and nothing afterwards; for another port, another
  selection mode or a host that no longer lists the endpoint it yields nothing; and every other
  alias yields what it did before. TOML is assumed to read back what it printed.
\<close>

theorem stored_result_is_loaded:
  assumes "store_cached_result env files cache host_alias host port result = (Ok (), files')"
    and "cv_clock env = Ok stored_at"
    and toml: "\<forall>cf content. cv_to_toml env cf = Ok content \<longrightarrow> cv_from_toml env content = Ok cf"
    and "pr_endpoint result \<in> set (fh_endpoints host)"
  shows "(\<forall>now. load_cached_result (env\<lparr>cv_clock := Ok now\<rparr>) files' cache host_alias host port =
            Ok (if unat now < min (unat stored_at + unat (cc_ttl_sec cache)) (2 ^ 64 - 1)
                then Some \<lparr>pr_endpoint = pr_endpoint result,
                           pr_latency_ms = of_nat (min (unat (pr_latency_ms result)) (2 ^ 64 - 1)),
                           pr_source = FromCache\<rparr>
                else None))
     \<and> (\<forall>now host' port'. port' \<noteq> port \<or> fh_selection_mode host' \<noteq> fh_selection_mode host
            \<or> pr_endpoint result \<notin> set (fh_endpoints host') \<longrightarrow>
          load_cached_result (env\<lparr>cv_clock := Ok now\<rparr>) files' cache host_alias host' port' = Ok None)
     \<and> (\<forall>now other host' port'. other \<noteq> host_alias \<longrightarrow>
          load_cached_result (env\<lparr>cv_clock := Ok now\<rparr>) files' cache other host' port'
            = load_cached_result (env\<lparr>cv_clock := Ok now\<rparr>) files cache other host' port')"
proof -
  obtain cf content where read: "read_cache_file env files (cc_path cache) = Ok cf"
    and stored: "cv_to_toml env (cf\<lparr>cache_entries := bt_insert host_alias (new_entry cache host port result stored_at)
        (cache_entries cf)\<rparr>) = Ok content" "files' = files(path_of (cc_path cache) := Ok content)"
    using assms(1,2) by (auto elim!: store_cached_result_Ok)
  define cf' where "cf' = cf\<lparr>cache_entries := bt_insert host_alias (new_entry cache host port result stored_at)
        (cache_entries cf)\<rparr>"
  have read': "read_cache_file env files' (cc_path cache) = Ok cf'"
    using read_after_store [OF stored(2)] toml stored(1) by (simp add: cf'_def)
  have get: "bt_get (cache_entries cf') j = (if j = host_alias
      then Some (new_entry cache host port result stored_at) else bt_get (cache_entries cf) j)" for j
    by (simp add: cf'_def bt_get_def bt_get_insert)
  have latency: "ucast (ent_latency_ms (new_entry cache host port result stored_at))
      = (of_nat (min (unat (pr_latency_ms result)) (2 ^ 64 - 1)) :: u128)"
    by (simp add: new_entry_def widened_clamp)
  show ?thesis
    using assms(4)
    by (simp add: load_after_read [OF read'] load_after_read [OF read] get latency)
      (auto simp: new_entry_def word_less_nat_alt int_simps)
qed

definition sample_cache_config :: cache_config where
  "sample_cache_config = \<lparr>cc_ttl_sec = 300, cc_path = ''/run/cache''\<rparr>"

definition sample_probed :: probe_result where
  "sample_probed = \<lparr>pr_endpoint = ''a'', pr_latency_ms = 7, pr_source = FromProbe\<rparr>"

definition sample_cache :: cache_file where
  "sample_cache = \<lparr>cache_entries = [(''pc'', new_entry sample_cache_config sample_host 22 sample_probed 1000)]\<rparr>"

definition sample_cache_env :: cache_env where
  "sample_cache_env =
     \<lparr>cv_from_toml = (\<lambda>t. if t = ''cached'' then Ok sample_cache else Err ''invalid''),
      cv_to_toml = (\<lambda>cf. if cf = sample_cache then Ok ''cached'' else Err ''unexpected''),
      cv_clock = Ok 1000, cv_create_dir = Ok (), cv_write = Written\<rparr>"

definition no_files :: files where
  "no_files = (\<lambda>_. Err (plain_io NotFound))"

lemma sample_store:
  "store_cached_result sample_cache_env no_files sample_cache_config ''pc'' sample_host 22 sample_probed
     = (Ok (), no_files(path_of ''/run/cache'' := Ok ''cached''))"
  by (simp add: store_cached_result_def read_cache_file_def no_files_def plain_io_def current_unix_ts_def
      sample_cache_env_def cache_file_default_def bt_empty_def write_cache_file_def sample_cache_def
      sample_cache_config_def path_of_def path_parent_def)

theorem stored_result_is_loaded_witness:
  "load_cached_result (sample_cache_env\<lparr>cv_clock := Ok 1299\<rparr>) (no_files(path_of ''/run/cache'' := Ok ''cached''))
      sample_cache_config ''pc'' sample_host 22
     = Ok (Some \<lparr>pr_endpoint = ''a'', pr_latency_ms = 7, pr_source = FromCache\<rparr>)
   \<and> load_cached_result (sample_cache_env\<lparr>cv_clock := Ok 1300\<rparr>) (no_files(path_of ''/run/cache'' := Ok ''cached''))
      sample_cache_config ''pc'' sample_host 22 = Ok None"
proof -
  have "cv_clock sample_cache_env = Ok 1000"
    "\<forall>cf content. cv_to_toml sample_cache_env cf = Ok content \<longrightarrow> cv_from_toml sample_cache_env content = Ok cf"
    "pr_endpoint sample_probed \<in> set (fh_endpoints sample_host)"
    by (auto simp: sample_cache_env_def sample_probed_def sample_host_def)
  note loaded = stored_result_is_loaded [OF sample_store this, THEN conjunct1]
  show ?thesis
    using loaded [THEN spec, of 1299] loaded [THEN spec, of 1300]
    by (simp add: sample_cache_config_def sample_probed_def)
qed

end
