(* ===== verification/Ssher_App.thy ===== *)
theory Ssher_App
  imports Ssher_Cache
begin

text \<open>
  The program \<open>ssher\<close> (\<open>app.rs\<close>, \<open>proxy.rs\<close>): from the arguments to the connection whose bytes
  it relays. What the system answers is one environment; warnings and the verbose report go to
  standard error and are values here.
\<close>

record ssher_args =
  ar_config_file :: "string option"
  ar_refresh_cache :: bool
  ar_verbose :: bool
  ar_host :: string
  ar_port :: u16

text \<open>The errors of \<open>anyhow\<close>: a message, an error of the program, either with context added.\<close>

datatype app_error =
    Bail string
  | Failed ssher_error
  | FailedIo io_error
  | Context string app_error

section \<open>Relaying (proxy.rs)\<close>

text \<open>
  Both directions run to their end before either result is looked at; a direction that copied
  everything then shuts its sink down. What copying answers belongs to the runtime.
\<close>

record proxy_env =
  px_connect :: "string \<Rightarrow> duration \<Rightarrow> (unit, io_error) result timed"
  px_copy_in :: "(unit, io_error) result"
  px_shutdown :: "(unit, io_error) result"
  px_copy_out :: "(unit, io_error) result"
  px_flush :: "(unit, io_error) result"

definition stdin_to_socket :: "proxy_env \<Rightarrow> (unit, app_error) result" where
  "stdin_to_socket env =
     and_then (map_err (Context ''stdin->socket copy failed'' \<circ> FailedIo) (px_copy_in env))
       (\<lambda>_. map_err (Context ''socket shutdown failed'' \<circ> FailedIo) (px_shutdown env))"

definition socket_to_stdout :: "proxy_env \<Rightarrow> (unit, app_error) result" where
  "socket_to_stdout env =
     and_then (map_err (Context ''socket->stdout copy failed'' \<circ> FailedIo) (px_copy_out env))
       (\<lambda>_. map_err (Context ''stdout flush failed'' \<circ> FailedIo) (px_flush env))"

definition proxy_tcp_stdio :: "proxy_env \<Rightarrow> string \<Rightarrow> u16 \<Rightarrow> u64 \<Rightarrow> (unit, app_error) result" where
  "proxy_tcp_stdio env endpoint port timeout_ms =
     (let address = host_port endpoint port
      in case px_connect env address (from_millis timeout_ms) of
           Elapsed \<Rightarrow> Err (Bail (''connect timeout: '' @ address))
         | Completed answer \<Rightarrow>
             and_then (map_err (Context (''connect failed for '' @ address) \<circ> FailedIo) answer) (\<lambda>_.
               case (stdin_to_socket env, socket_to_stdout env) of (left, right) \<Rightarrow>
                 and_then left (\<lambda>_. and_then right (\<lambda>_. Ok ()))))"

section \<open>Choosing (app.rs)\<close>

record app_env =
  av_home :: home_var
  av_is_file :: "string \<Rightarrow> bool"
  av_config_from_toml :: "string \<Rightarrow> (ssher_config, string) result"
  av_id_u :: "(u8 list, io_error) result"
  av_from_utf8 :: "u8 list \<Rightarrow> (string, string) result"
  av_load :: cache_env
  av_store :: cache_env
  av_endpoints :: "nat \<Rightarrow> endpoint_env"
  av_order :: "nat list"
  av_proxy :: proxy_env

datatype warning = CacheUnreadable ssher_error | CacheNotUpdated ssher_error

text \<open>What a run did: the connection it asked for, its result, its warnings and the files after.\<close>

record app_run =
  ru_target :: "(string \<times> u16) option"
  ru_result :: "(unit, app_error) result"
  ru_warnings :: "warning list"
  ru_files :: files

definition probe_and_store ::
  "(string \<Rightarrow> 'f option) \<Rightarrow> ('f \<Rightarrow> u128) \<Rightarrow> app_env \<Rightarrow> files \<Rightarrow> final_config \<Rightarrow> u16
   \<Rightarrow> (probe_result, app_error) result \<times> warning list \<times> files" where
  "probe_and_store parse_f64 round_f64 env files config port =
     (case select_best_endpoint parse_f64 round_f64 (av_endpoints env) (av_order env) (fc_host config) port of
        Err e \<Rightarrow> (Err (Context ''failed to select endpoint'' (Failed e)), [], files)
      | Ok probed \<Rightarrow>
          (case store_cached_result (av_store env) files (fc_cache config) (fc_host_alias config)
                  (fc_host config) port probed of
             (Err e, files') \<Rightarrow> (Ok probed, [CacheNotUpdated e], files')
           | (Ok _, files') \<Rightarrow> (Ok probed, [], files')))"

definition pick_endpoint ::
  "(string \<Rightarrow> 'f option) \<Rightarrow> ('f \<Rightarrow> u128) \<Rightarrow> app_env \<Rightarrow> files \<Rightarrow> ssher_args \<Rightarrow> final_config
   \<Rightarrow> (probe_result, app_error) result \<times> warning list \<times> files" where
  "pick_endpoint parse_f64 round_f64 env files args config =
     (if ar_refresh_cache args then probe_and_store parse_f64 round_f64 env files config (ar_port args)
      else case load_cached_result (av_load env) files (fc_cache config) (fc_host_alias config)
                  (fc_host config) (ar_port args) of
        Ok (Some result) \<Rightarrow> (Ok result, [], files)
      | Ok None \<Rightarrow> probe_and_store parse_f64 round_f64 env files config (ar_port args)
      | Err e \<Rightarrow>
          (case probe_and_store parse_f64 round_f64 env files config (ar_port args) of
             (best, warnings, files') \<Rightarrow> (best, CacheUnreadable e # warnings, files')))"

definition configure :: "app_env \<Rightarrow> files \<Rightarrow> ssher_args \<Rightarrow> (final_config, app_error) result" where
  "configure env files args =
     (if ar_port args = 0 then Err (Bail ''--port must be between 1 and 65535'')
      else and_then (map_err Failed (resolve_config_path (av_home env) (av_is_file env) (ar_config_file args))) (\<lambda>path.
           and_then (map_err Failed (read_config_file (av_config_from_toml env) path (files (path_of path)))) (\<lambda>cfg.
           and_then (map_err (Context ''invalid config'' \<circ> Failed) (ssher_validate cfg)) (\<lambda>_.
             map_err Failed (resolve_host
               \<lparr>en_home = av_home env, en_id_u = av_id_u env, en_from_utf8 = av_from_utf8 env\<rparr>
               cfg (ar_host args))))))"

definition ssher_run ::
  "(string \<Rightarrow> 'f option) \<Rightarrow> ('f \<Rightarrow> u128) \<Rightarrow> app_env \<Rightarrow> files \<Rightarrow> ssher_args \<Rightarrow> app_run" where
  "ssher_run parse_f64 round_f64 env files args =
     (case configure env files args of
        Err e \<Rightarrow> \<lparr>ru_target = None, ru_result = Err e, ru_warnings = [], ru_files = files\<rparr>
      | Ok config \<Rightarrow>
          (case pick_endpoint parse_f64 round_f64 env files args config of
             (Err e, warnings, files') \<Rightarrow>
               \<lparr>ru_target = None, ru_result = Err e, ru_warnings = warnings, ru_files = files'\<rparr>
           | (Ok best, warnings, files') \<Rightarrow>
               \<lparr>ru_target = Some (pr_endpoint best, ar_port args),
                ru_result = map_err (Context ''failed to proxy TCP stream'')
                  (proxy_tcp_stdio (av_proxy env) (pr_endpoint best) (ar_port args) (fh_probe_timeout_ms (fc_host config))),
                ru_warnings = warnings, ru_files = files'\<rparr>))"

text \<open>\<open>main\<close>: success is 0, and any error is printed and is 1.\<close>

fun ssher_status :: "(unit, app_error) result \<Rightarrow> u8" where
  "ssher_status (Ok _) = 0"
| "ssher_status (Err e) = 1"

section \<open>Lemmas\<close>

lemma probe_and_store_result:
  assumes "probe_and_store parse_f64 round_f64 env files config port = (r, warnings, files')"
  shows "r = map_err (\<lambda>e. Context ''failed to select endpoint'' (Failed e))
     (select_best_endpoint parse_f64 round_f64 (av_endpoints env) (av_order env) (fc_host config) port)"
  using assms by (auto simp: probe_and_store_def split: result.splits prod.splits)

text \<open>The cache's offer comes first, then the probes': the two sources of an endpoint.\<close>

definition cached_offer :: "app_env \<Rightarrow> files \<Rightarrow> ssher_args \<Rightarrow> final_config \<Rightarrow> probe_result option" where
  "cached_offer env files args config =
     (if ar_refresh_cache args then None
      else case load_cached_result (av_load env) files (fc_cache config) (fc_host_alias config)
                  (fc_host config) (ar_port args) of Ok hit \<Rightarrow> hit | Err _ \<Rightarrow> None)"

lemma pick_endpoint_result:
  assumes "pick_endpoint parse_f64 round_f64 env files args config = (r, warnings, files')"
  shows "r = (case cached_offer env files args config of
       Some hit \<Rightarrow> Ok hit
     | None \<Rightarrow> map_err (\<lambda>e. Context ''failed to select endpoint'' (Failed e))
         (select_best_endpoint parse_f64 round_f64 (av_endpoints env) (av_order env) (fc_host config) (ar_port args)))"
proof -
  obtain q ws fs where probed: "probe_and_store parse_f64 round_f64 env files config (ar_port args) = (q, ws, fs)"
    by (metis prod_cases3)
  let ?load = "load_cached_result (av_load env) files (fc_cache config) (fc_host_alias config)
      (fc_host config) (ar_port args)"
  have "r = (case cached_offer env files args config of Some hit \<Rightarrow> Ok hit | None \<Rightarrow> q)"
  proof (cases "ar_refresh_cache args")
    case True
    then show ?thesis using assms probed by (simp add: pick_endpoint_def cached_offer_def)
  next
    case False
    then show ?thesis using assms probed
      by (cases ?load) (simp_all add: pick_endpoint_def cached_offer_def split: option.splits)
  qed
  then show ?thesis by (simp only: probe_and_store_result [OF probed])
qed

lemma cached_offer_endpoint:
  "cached_offer env files args config = Some r \<Longrightarrow> pr_endpoint r \<in> set (fh_endpoints (fc_host config))"
  using cached.offered [of "(av_load env, files, fc_cache config, fc_host_alias config, ar_port args)" "fc_host config" r]
  by (auto simp: cached_offer_def split: if_splits)

lemma pick_endpoint_configured:
  assumes "pick_endpoint parse_f64 round_f64 env files args config = (Ok best, warnings, files')"
    "completion_order (av_endpoints env) (fc_host config) (av_order env)"
  shows "pr_endpoint best \<in> set (fh_endpoints (fc_host config))"
proof (cases "cached_offer env files args config")
  case (Some hit)
  then have "best = hit" using pick_endpoint_result [OF assms(1)] by simp
  then show ?thesis using cached_offer_endpoint [OF Some] by simp
next
  case None
  then have "select_best_endpoint parse_f64 round_f64 (av_endpoints env) (av_order env) (fc_host config)
      (ar_port args) = Ok best"
    using pick_endpoint_result [OF assms(1), symmetric] by (simp add: map_err_Ok_iff)
  from select_endpoint_index [OF this] assms(2) show ?thesis by (simp add: completion_order_def)
qed

lemma configure_Ok:
  assumes "configure env files args = Ok config"
  obtains cfg h where "ssher_validate cfg = Ok ()" "bt_get (sc_hosts cfg) (ar_host args) = Some h"
    "fh_endpoints (fc_host config) = hc_endpoints h" "ar_port args \<noteq> 0"
  using assms
  by (auto simp: configure_def resolve_host_def merge_host_config_def result_simps comp_def split: if_splits)

section \<open>Properties\<close>


definition sample_args :: ssher_args where
  "sample_args = \<lparr>ar_config_file = Some ''conf'', ar_refresh_cache = False, ar_verbose = False,
                  ar_host = ''pc'', ar_port = 22\<rparr>"

definition sample_app_env :: app_env where
  "sample_app_env =
     \<lparr>av_home = Err ''unset'', av_is_file = (\<lambda>_. True), av_config_from_toml = (\<lambda>_. Ok sample_ssher_config),
      av_id_u = Err (plain_io NotFound), av_from_utf8 = (\<lambda>_. Err ''invalid''),
      av_load = sample_cache_env\<lparr>cv_clock := Err ''before the epoch''\<rparr>,
      av_store = sample_cache_env\<lparr>cv_create_dir := Err (plain_io OtherKind)\<rparr>,
      av_endpoints = sample_envs, av_order = [1, 0],
      av_proxy = \<lparr>px_connect = (\<lambda>_ _. Completed (Ok ())), px_copy_in = Ok (), px_shutdown = Ok (),
                  px_copy_out = Ok (), px_flush = Ok ()\<rparr>\<rparr>"

definition sample_final :: final_config where
  "sample_final = \<lparr>fc_host_alias = ''pc'', fc_host = sample_host,
                   fc_cache = \<lparr>cc_ttl_sec = 300, cc_path = ''/run/cache''\<rparr>\<rparr>"

lemma sample_configure:
  "configure sample_app_env (no_files(path_of ''conf'' := Ok [])) sample_args = Ok sample_final"
  by (simp add: configure_def sample_app_env_def sample_args_def resolve_config_path_def read_config_file_def
      sample_ssher_config_valid)
    (simp add: sample_ssher_config_def resolve_host_def bt_get_def resolve_cache_path_def expand_tilde_def
      strip_prefix_def starts_with_def merge_host_config_def sample_final_def sample_host_def)


end
