(* ===== verification/Spec2Isabelle.thy ===== *)
theory Spec2Isabelle
  imports Cli Dialing Lifecycle Workload Ssher_App
begin

text \<open>
  Verification of \<open>sshe\<close>, a tool for diagnosing and controlling Linux machines that know each
  other as peers, and of \<open>ssher\<close>, a separate address selector for OpenSSH. This root theory
  imports every other theory and holds the properties that span them all. Paths below are
  relative to \<open>src/crates\<close>.

  \<^bold>\<open>The program.\<close> A node has a configuration (a list of peers, what to probe, the daemon's
  limits) and a private key. Its daemon accepts connections of the peers it lists and of the
  local command over a Unix socket; each request is one frame of JSON, answered by one frame.
  A request asks for the node's health, a probe round, recorded probe results, or the execution
  of a program. Probe rounds are shared between callers and repeated by a scheduler; their
  records go into a bounded history. A command runs its request in its own process, through the
  daemon, or over a temporary endpoint. \<open>ssher\<close> probes the configured addresses of a host,
  caches the winner and relays a TCP stream to it.

  \<^bold>\<open>Theories, from the bottom.\<close>
  \<^item> \<open>Prelude\<close>: results with the question-mark operator, machine words with their saturating
    operations, time, the answer of a bounded wait; the collections \<open>result_simps\<close> and
    \<open>int_simps\<close>. \<open>Rust_Map\<close>: the ordered map, as the locale \<open>ordered_map\<close> interpreted on sorted
    association lists. \<open>Rust_Text\<close>, \<open>Rust_Path\<close>, \<open>Rust_Io\<close>: what the code uses of the string,
    path and I/O libraries. In these the standard library is modelled, not assumed.
  \<^item> \<open>Protocol\<close>, \<open>Codec\<close> (\<open>sshe-protocol\<close>): limits, messages, framing.
  \<^item> \<open>Measure\<close>, \<open>Exec\<close>, \<open>Checks\<close> (\<open>sshe-core\<close>): one measured check and its record, with the
    locale \<open>classify\<close> for the two error types that are classified, and the clock (\<open>time.rs\<close>);
    bounded command execution; the network, service and host checks.
  \<^item> \<open>Node_Error\<close>, \<open>Node_Config\<close>, \<open>Identity\<close> (\<open>sshe-node/src/error.rs\<close>, \<open>config.rs\<close>, \<open>layout.rs\<close>,
    \<open>identity.rs\<close>): error classes, the configuration and the files derived from its path,
    the key.
  \<^item> \<open>Transport\<close> (\<open>transport.rs\<close>): what an endpoint is built with (\<open>endpoint\<close>, \<open>fixed_port\<close>),
    the connection cache, one RPC with its deadline and its retry. The locale \<open>exec_caller\<close> is the promise that an exec is handed over at most once
    and that an error other than \<open>OutcomeUnknown\<close> means it was not; it is interpreted on the
    dialer here and on the whole command in \<open>Client\<close>. \<open>Dialing\<close>: concurrent callers of
    \<open>Dialer::connection\<close> behind the mutex of each peer, as a step relation that refines the
    one call of \<open>Transport\<close>.
  \<^item> \<open>History\<close> (\<open>history.rs\<close>): the bounded history with the locale \<open>record_store\<close>, refined from
    the log of everything inserted. \<open>Sampling\<close> (\<open>sampling.rs\<close>, \<open>sampling/log.rs\<close>): shared rounds
    as a step relation over the critical sections of \<open>sample\<close>. \<open>Sampler_Calls\<close>: \<open>run\<close> and
    \<open>run_due\<close>, a whole call with a probe round as its work. \<open>Scheduler\<close> (\<open>scheduler.rs\<close>): the
    wait for a relay, and its loops composed with the sampler.
  \<^item> \<open>Probing\<close>, \<open>Dispatch\<close>, \<open>Server\<close>, \<open>Client\<close> (\<open>probe.rs\<close>, \<open>dispatch.rs\<close>, \<open>server.rs\<close> and \<open>ipc.rs\<close>,
    \<open>client.rs\<close>): one round and its concurrent peer checks, one request, the serving side, the
    asking side.
  \<^item> \<open>Requests\<close> (\<open>dispatch.rs\<close>, \<open>daemon.rs\<close>): the requests of a running daemon as tasks that share
    the sampler and its history with each other and with the scheduler, as a step relation that
    refines \<open>dispatch\<close>; it also logs every process group that is started or killed. \<open>Stopping\<close>
    (\<open>daemon.rs\<close>): who owns those groups and the calls of \<open>sample\<close>, and the tasks that are aborted
    at the end.
  \<^item> \<open>Daemon\<close>, \<open>Lifecycle\<close> (\<open>daemon.rs\<close>): the socket, the admission of connections and
    requests as step relations, and the tasks of connections; what a daemon takes hold of, its
    loop, and what it gives back. \<open>Workload\<close> (\<open>server.rs\<close>, \<open>daemon.rs\<close>): the admission of \<open>Daemon\<close> and
    the requests of \<open>Requests\<close> in one step relation, where a permit is held while a request runs.
  \<^item> \<open>Cli\<close> (\<open>sshe-cli\<close>): arguments, the address book, rendering, the process with its log
    settings and exit status.
  \<^item> \<open>Ssher_Config\<close>, \<open>Ssher_Select\<close>, \<open>Ssher_Cache\<close>, \<open>Ssher_App\<close> (\<open>ssher\<close>): configuration,
    selection, cache, program. The locale \<open>endpoint_source\<close> is what the program relies on:
    a source of endpoints, the cache or the probes, offers only configured ones.

  \<^bold>\<open>How code becomes definitions.\<close> A struct is a record whose fields have a prefix, an enum a
  datatype, a \<open>Result\<close> the type \<open>result\<close>; an early return is a branch. Functions carry the
  code's names where the name is free. An asynchronous function is a function of what its awaits
  answered; where tasks interleave, each stretch between two awaits is one step of a step
  relation. What a definition did besides returning is a list of effects or events in its
  result, so that properties can count submissions, processes or removals. \<open>usize\<close> is \<open>nat\<close>,
  durations and instants are milliseconds on \<open>nat\<close>; other integers keep their width, and
  arithmetic wraps or saturates as it does in a release build.

  \<^bold>\<open>What is assumed.\<close> Everything outside the repository is an argument: JSON and TOML are pairs
  of functions, and a theorem that needs them to invert each other says so for the value at
  hand; the runtime's timeouts, the transport library's connections, child processes, files,
  clocks and parsed floating-point numbers are environments that answer each call. No
  definition bounds a loop by fuel: loops over lists are structural, and the loops that wait
  (\<open>sample\<close>, \<open>run_kind\<close>, the daemon) are step relations or run over a list of events.

  \<^bold>\<open>What the theorems show.\<close>
  \<^item> Execution: an exec runs at most once, whichever way the command takes and however often it
    is repeated on errors that are safe to repeat; process groups are always killed; output
    is complete or refused, and the concurrent wait agrees with a sequential one; the exit
    status is passed on.
  \<^item> Sampling: one round per kind, the same answer for all who share it, records inserted once,
    every call ends after at most two steps, the interval is kept, a request on an idle daemon
    records one result per configured target, the scheduler neither oversleeps nor runs kinds
    that are not configured.
  \<^item> A daemon at work: concurrent requests are answered as \<open>dispatch\<close> answers one, a probe answer
    is complete and stays in the history until newer results replace it, and no probe request
    hangs whatever other requests are dropped. What runs is bounded by the permits: each
    unfinished request and each running process group is held by one. A daemon that stops
    leaves no request, loop, round or process group behind, in whatever order its tasks end.
  \<^item> History: the store refines the log of insertions; queries return the most recent matches;
    outages are reported once at each end.
  \<^item> Communication: frames round trip and are bounded; an RPC and a command end to end return
    what \<open>dispatch\<close> answered, also through the daemon or a temporary endpoint to the node of a
    peer; calls keep their deadline; only dead connections are replaced. Concurrent callers of
    one peer share a single dial, only dials to the same peer make a caller wait, and each call
    does what it does alone; the peer checks of a round are independent of each other.
  \<^item> Access and admission: strangers are not served, refused requests are not executed, the
    limits hold in every interleaving and peers cannot lock the local command out.
  \<^item> Files: a configuration that was read is within its limits, saving is all or nothing and
    reads back, \<open>init\<close> and the socket take-over destroy nothing, the daemon gives back what it
    took, adding and removing a peer cancel out.
  \<^item> \<open>ssher\<close>: the selected endpoint is configured and first to answer, the cache returns what
    was stored while it applies, and no cache failure keeps a run from connecting.

  \<^bold>\<open>Not modelled.\<close> Module lists have no content; what the runtime does when it copies bytes and
  what the logging library does with a line are their own. Splitting the command line is the argument
  parser's work; the ranges it enforces are the definition \<open>accepted\<close>. Strings are lists of
  bytes, and white space is ASCII white space, as in the texts the code trims and splits.
  The peer checks of one round run at the same time in the code and one after the other in
  \<open>check_peers\<close>; \<open>peer_checks_are_independent\<close> shows that the order does not matter. Exchanges
  on one connection are separate streams and are not interleaved step by step. While a
  daemon serves, a task that panics is not modelled; \<open>Requests\<close> allows requests to be dropped at
  any time, \<open>Workload\<close> only lets them complete.
\<close>

section \<open>A command through the daemon\<close>

text \<open>What the daemon answers a local request that it admits: the peer's answer, or its own.\<close>

definition daemon_answer ::
  "codecs \<Rightarrow> 'c node \<Rightarrow> ('f, 'c) local_env \<Rightarrow> string option \<Rightarrow> request
   \<Rightarrow> (response, node_error) result option" where
  "daemon_answer cs node env target request =
     (case target of
        Some name \<Rightarrow> Some (fst (forward cs (ll_now env) (ll_attempts env) node name request))
      | None \<Rightarrow> fst (dispatch (ll_dispatch env) node request))"

lemma serve_local_answered:
  assumes "fst (read_frame (ll_from_json env) (ll_reader env)) = Ok \<lparr>lr_target = target, lr_request = request\<rparr>"
    and "\<not> ll_read_expired env" "ll_permit env" "daemon_answer cs node env target request = Some result"
    and "to_json_response cs (respond (source_text_of cs) result) = Ok bytes" "length bytes \<le> MAX_FRAME"
    and "ll_writer env = open_writer" "\<not> ll_write_expired env"
  shows "sv_sent (serve_local cs node env) = frame_bytes bytes \<and> sv_result (serve_local cs node env) = Some (Ok ())"
  using assms
  by (cases target)
    (auto simp: serve_local_def daemon_answer_def write_frame_open open_writer_def split: prod.splits)

text \<open>A command whose message and reply travel gets what the daemon answered.\<close>

lemma command_answered:
  assumes config: "read_config from_toml files path = Ok cfg" "route (target_of target) request \<noteq> InProcess"
    and client: "socket_fits (layout_new path)" "ce_connect env = Ok ()" "\<not> ce_expired env" "ce_writer env = open_writer"
    and request: "serialises (ce_to_json_local env) (ll_from_json lenv)
      \<lparr>lr_target = target_of target, lr_request = request\<rparr> q"
    and server: "ll_reader lenv = reader_of (frame_bytes q @ rest)" "\<not> ll_read_expired lenv" "ll_permit lenv"
      "ll_writer lenv = open_writer" "\<not> ll_write_expired lenv"
    and answer: "daemon_answer cs node lenv (target_of target) request = Some result"
    and reply: "serialises (to_json_response cs) (from_json_response cs) (respond (source_text_of cs) result) a"
    and returned: "ce_reader env = reader_of (sv_sent (serve_local cs node lenv))"
  shows "invoke cs from_toml files env path target request =
     \<lparr>oc_result = Some (Ok (respond (source_text_of cs) result)), oc_via = 1, oc_trace = [], oc_work = []\<rparr>"
proof -
  have "fst (read_frame (ll_from_json lenv) (ll_reader lenv)) = Ok \<lparr>lr_target = target_of target, lr_request = request\<rparr>"
    using request server(1)
    by (simp add: serialises_def reader_of_def read_frame_bytes [where bytes = q and rest = rest])
  then have sent: "sv_sent (serve_local cs node lenv) = frame_bytes a"
    using serve_local_answered [OF _ server(2,3) answer _ _ server(4,5)] reply by (simp add: serialises_def)
  have written: "fst (write_frame (ce_to_json_local env) \<lparr>lr_target = target_of target, lr_request = request\<rparr>
      (ce_writer env)) = Ok ()"
    using request client(4) by (simp add: serialises_def write_frame_open open_writer_def)
  have "fst (read_frame (from_json_response cs) (ce_reader env)) = Ok (respond (source_text_of cs) result)"
    using reply
    by (simp add: returned sent reader_of_def serialises_def read_frame_bytes [where bytes = a and rest = "[]", simplified])
  then have "via_daemon cs env (layout_new path) (target_of target) request
      = (Ok (Some (respond (source_text_of cs) result)), 1)"
    using client(1-3) written by (simp add: via_daemon_def unknown_if_exec_def)
  then show ?thesis using config by (simp add: invoke_def Let_def)
qed

text \<open>
  C13. A command end to end: when a command finds its daemon listening, its frame arrives, the
  daemon has a permit, and the daemon's frame comes back in time, the command's result is
  exactly what the daemon answered to the very request and target it sent, errors as an
  \<open>Error\<close> response, and the request was handed over once and tried in no other way. Both sides'
  serialisers are assumed to invert each other on this message and this reply.
\<close>

theorem command_end_to_end:
  assumes config: "read_config from_toml files path = Ok cfg" "route (target_of target) request \<noteq> InProcess"
    and client: "socket_fits (layout_new path)" "ce_connect env = Ok ()" "\<not> ce_expired env" "ce_writer env = open_writer"
    and request: "serialises (ce_to_json_local env) (ll_from_json lenv)
      \<lparr>lr_target = target_of target, lr_request = request\<rparr> q"
    and server: "ll_reader lenv = reader_of (frame_bytes q @ rest)" "\<not> ll_read_expired lenv" "ll_permit lenv"
      "ll_writer lenv = open_writer" "\<not> ll_write_expired lenv"
    and answer: "daemon_answer cs node lenv (target_of target) request = Some result"
    and reply: "serialises (to_json_response cs) (from_json_response cs) (respond (source_text_of cs) result) a"
    and returned: "ce_reader env = reader_of (sv_sent (serve_local cs node lenv))"
  shows "invoke cs from_toml files env path target request =
     \<lparr>oc_result = Some (Ok (respond (source_text_of cs) result)), oc_via = 1, oc_trace = [], oc_work = []\<rparr>"
  by (rule command_answered [OF assms])

text \<open>The history of a new node, asked for through its daemon.\<close>

definition empty_history :: response where
  "empty_history = HistoryResponse \<lparr>hr_observer = ''me'', hr_queried_at = 0, hr_records = []\<rparr>"

definition history_node :: "nat node" where
  "history_node = sample_node\<lparr>nd_id := ''me'', nd_sampler := Some (sampler_new daemon_config_default)\<rparr>"

definition history_codecs :: codecs where
  "history_codecs = sample_codecs\<lparr>from_json_response := (\<lambda>_. Ok empty_history)\<rparr>"

definition local_side :: "(nat, nat) dispatch_env \<Rightarrow> (nat, nat) local_env" where
  "local_side de =
     \<lparr>ll_from_json = (\<lambda>_. Ok \<lparr>lr_target = None, lr_request = History None None 5\<rparr>),
      ll_reader = reader_of (frame_bytes [0] @ []), ll_read_expired = False, ll_permit = True,
      ll_dispatch = de\<lparr>de_now := 0\<rparr>, ll_now = 0, ll_attempts = (sample_attempt, sample_attempt),
      ll_writer = open_writer, ll_write_expired = False\<rparr>"

definition command_side :: "(nat, nat) client_env \<Rightarrow> (nat, nat) dispatch_env \<Rightarrow> (nat, nat) client_env" where
  "command_side env de = env\<lparr>ce_connect := Ok (), ce_expired := False, ce_to_json_local := (\<lambda>_. Ok [0]),
     ce_writer := open_writer,
     ce_reader := reader_of (sv_sent (serve_local history_codecs history_node (local_side de)))\<rparr>"

theorem command_end_to_end_witness:
  "\<forall>env de. invoke history_codecs (\<lambda>_. Ok sample_config) (\<lambda>_. Ok []) (command_side env de) sample_path
       (Some ''self'') (History None None 5)
     = \<lparr>oc_result = Some (Ok (respond (source_text_of history_codecs) (Ok empty_history))), oc_via = 1,
        oc_trace = [], oc_work = []\<rparr>"
proof (intro allI)
  fix env :: "(nat, nat) client_env" and de :: "(nat, nat) dispatch_env"
  have "read_config (\<lambda>_. Ok sample_config) (\<lambda>_. Ok []) sample_path = Ok sample_config"
    using sample_config_valid by (simp add: read_config_def sample_config_def)
  moreover have "socket_fits (layout_new sample_path)"
    by (simp add: socket_fits_def layout_new_def sample_path_def with_extension_def path_file_name_def
        file_stem_def path_text_def)
  moreover have "daemon_answer history_codecs history_node (local_side de) (target_of (Some ''self''))
      (History None None 5) = Some (Ok empty_history)"
    by (simp add: daemon_answer_def target_of_def dispatch_def history_node_def local_side_def empty_history_def
        sampler_new_def history_query_def matching_records_def history_new_def bt_empty_def)
  ultimately show "invoke history_codecs (\<lambda>_. Ok sample_config) (\<lambda>_. Ok []) (command_side env de) sample_path
       (Some ''self'') (History None None 5)
     = \<lparr>oc_result = Some (Ok (respond (source_text_of history_codecs) (Ok empty_history))), oc_via = 1,
        oc_trace = [], oc_work = []\<rparr>"
    by (intro command_end_to_end [where cfg = sample_config and q = "[0]" and a = "[1]" and rest = "[]"
        and lenv = "local_side de" and node = history_node])
      (simp_all add: command_side_def local_side_def target_of_def serialises_def history_codecs_def
        sample_codecs_def MAX_FRAME_def respond_def)
qed

section \<open>A command on a peer\<close>

text \<open>
  The network and a peer that work together for one call: the peer can be reached within the
  call's time, lists the caller, has a permit, and both frames arrive in time.
\<close>

definition peer_answers ::
  "codecs \<Rightarrow> instant \<Rightarrow> 'c attempt \<Rightarrow> 'd node \<Rightarrow> endpoint_id \<Rightarrow> ('f, 'd) stream_env \<Rightarrow> request \<Rightarrow> bool" where
  "peer_answers cs now env there caller senv request \<longleftrightarrow>
     at_start env < now + CALL_TIMEOUT \<and> at_locked env \<and> (\<exists>c. at_dial env = Completed (Ok c))
     \<and> at_open_start env < now + CALL_TIMEOUT \<and> at_open env = Completed (Ok ())
     \<and> at_rpc_start env < now + CALL_TIMEOUT \<and> \<not> at_rpc_expired env
     \<and> at_writer env = open_writer \<and> at_finish env = Ok ()
     \<and> caller \<in> peer_id ` set (bt_values (cf_peers (nd_config there)))
     \<and> (\<exists>q rest. serialises (to_json_request cs) (from_json_request cs) request q
          \<and> ss_reader senv = reader_of (frame_bytes q @ rest))
     \<and> \<not> ss_read_expired senv \<and> ss_permit senv \<and> ss_writer senv = open_writer
     \<and> \<not> ss_write_expired senv \<and> ss_finish senv = Ok ()
     \<and> at_reader env = reader_of (sv_sent (hd (snd (serve_peer cs there caller [senv]))))"

lemma connection_reached:
  assumes "at_start env < deadline" "d_peers d (ea_id addr) \<noteq> None" "at_locked env" "at_dial env = Completed (Ok c)"
  shows "\<exists>conn reused d' tr. connection deadline env addr d = (Ok (conn, reused), d', tr)"
  using assms by (auto simp: connection_def Let_def split: option.split)

lemma call_answered_by_peer:
  assumes peer: "peer_answers cs now env there caller senv request" "d_peers d (ea_id addr) \<noteq> None"
    and work: "dispatch (ss_dispatch senv) there request = (Some answer, work)"
    and reply: "serialises (to_json_response cs) (from_json_response cs) (respond (source_text_of cs) answer) a"
  shows "\<exists>d' tr. call (to_json_request cs) (from_json_response cs) now (env, retry) addr request d
      = (Ok (respond (source_text_of cs) answer), d', tr) \<and> submissions tr = 1"
    and "sv_work (hd (snd (serve_peer cs there caller [senv]))) = work"
proof -
  obtain q rest c where q: "serialises (to_json_request cs) (from_json_request cs) request q"
    "ss_reader senv = reader_of (frame_bytes q @ rest)" "at_dial env = Completed (Ok c)"
    using peer(1) unfolding peer_answers_def by blast
  have frames: "rpc_frames (to_json_request cs) (from_json_response cs) env request
      = Ok (respond (source_text_of cs) answer)
    \<and> wr_sent (snd (write_frame (to_json_request cs) request (at_writer env))) = frame_bytes q
    \<and> sv_work (hd (snd (serve_peer cs there caller [senv]))) = work"
    by (rule rpc_end_to_end [OF _ _ _ q(1,2) _ _ _ _ _ work reply])
      (use peer(1) in \<open>simp_all add: peer_answers_def\<close>)
  then show "sv_work (hd (snd (serve_peer cs there caller [senv]))) = work" by simp
  obtain conn reused d' tr1 where conn:
    "connection (now + CALL_TIMEOUT) env addr d = (Ok (conn, reused), d', tr1)"
    using connection_reached [of env "now + CALL_TIMEOUT" d addr c] peer q(3)
    unfolding peer_answers_def by blast
  obtain tr2 where x: "exchange (to_json_request cs) (from_json_response cs) (now + CALL_TIMEOUT) env conn request
      = (Ok (respond (source_text_of cs) answer), tr2)"
    using exchange_answered [of env "now + CALL_TIMEOUT" "to_json_request cs" "from_json_response cs" request]
      peer(1) frames unfolding peer_answers_def by blast
  have "submissions (tr1 @ tr2) = 1"
    using connection_trace(1) [OF conn] exchange_trace(4) [OF x refl] by simp
  then show "\<exists>d' tr. call (to_json_request cs) (from_json_response cs) now (env, retry) addr request d
      = (Ok (respond (source_text_of cs) answer), d', tr) \<and> submissions tr = 1"
    using conn x by (simp add: call_def call_until_def)
qed

text \<open>The command's daemon listens, admits the request, and answers in time.\<close>

definition daemon_relays ::
  "codecs \<Rightarrow> ('f, 'c) client_env \<Rightarrow> ('g, 'c) local_env \<Rightarrow> 'c node \<Rightarrow> path \<Rightarrow> string option \<Rightarrow> request \<Rightarrow> bool" where
  "daemon_relays cs env lenv node path target request \<longleftrightarrow>
     socket_fits (layout_new path) \<and> ce_connect env = Ok () \<and> \<not> ce_expired env \<and> ce_writer env = open_writer
     \<and> (\<exists>q rest. serialises (ce_to_json_local env) (ll_from_json lenv) \<lparr>lr_target = target, lr_request = request\<rparr> q
          \<and> ll_reader lenv = reader_of (frame_bytes q @ rest))
     \<and> \<not> ll_read_expired lenv \<and> ll_permit lenv \<and> ll_writer lenv = open_writer \<and> \<not> ll_write_expired lenv
     \<and> ce_reader env = reader_of (sv_sent (serve_local cs node lenv))"

text \<open>No daemon listens, and the command can open an endpoint of its own.\<close>

definition endpoint_of_its_own :: "('f, 'c) client_env \<Rightarrow> bool" where
  "endpoint_of_its_own env \<longleftrightarrow>
     (\<exists>e. ce_connect env = Err e \<and> (io_kind e = NotFound \<or> io_kind e = ConnectionRefused))
     \<and> ce_lock_opened env = Ok () \<and> ce_locked env = Ok () \<and> (\<exists>key. load_key (ce_key env) = Ok key
          \<and> endpoint (ce_endpoint env) key None = Ok ())"

lemma forwarded_to_peer:
  assumes "config_peer (nd_config node) name = Ok p" "nd_dialer node = Some d" "d_peers d (peer_id p) \<noteq> None"
    and "peer_answers cs now aenv there caller senv request"
    and "dispatch (ss_dispatch senv) there request = (Some answer, work)"
    and "serialises (to_json_response cs) (from_json_response cs) (respond (source_text_of cs) answer) a"
  shows "\<exists>d' tr. forward cs now (aenv, retry) node name request
      = (Ok (respond (source_text_of cs) answer), Some d', tr) \<and> submissions tr = 1"
  using call_answered_by_peer(1) [of cs now aenv there caller senv request d "peer_addr p" answer work a retry] assms
  by (auto simp: forward_def)

lemma own_endpoint_reaches_peer:
  assumes "endpoint_of_its_own env" "config_peer cfg name = Ok p" "ce_attempts env = (aenv, retry)"
    and "peer_answers cs (ce_now env) aenv there caller senv request"
    and "dispatch (ss_dispatch senv) there request = (Some answer, work)"
    and "serialises (to_json_response cs) (from_json_response cs) (respond (source_text_of cs) answer) a"
  shows "\<exists>tr. with_endpoint cs env cfg (Some name) request
      = \<lparr>oc_result = Some (Ok (respond (source_text_of cs) answer)), oc_via = 0, oc_trace = tr, oc_work = []\<rparr>
      \<and> submissions tr = 1"
proof -
  let ?d = "dialer_new (map peer_id (bt_values (cf_peers cfg)))"
  have "p \<in> set (bt_values (cf_peers cfg))"
    using assms(2) by (intro bt_get_in_values [where k = name]) (simp add: config_peer_def result_simps)
  then have "d_peers ?d (ea_id (peer_addr p)) \<noteq> None" by (simp add: dialer_new_def)
  from call_answered_by_peer(1) [OF assms(4) this assms(5,6), of retry]
  show ?thesis
    using assms(1-3) by (auto simp: with_endpoint_def endpoint_of_its_own_def lock_identity_def)
qed

text \<open>
  C14. A command on a peer end to end, with and without a daemon: when the peer is configured and
  answers, the command's result is exactly the response of \<open>dispatch\<close> on the peer to the very
  request that was given, errors as an \<open>Error\<close> response; the command handed it over once, a
  daemon in between handed it on once, and the peer did exactly the work of that one dispatch.
  All serialisers are assumed to invert each other on these messages.
\<close>

theorem remote_command_end_to_end:
  assumes config: "read_config from_toml files path = Ok cfg" "name \<noteq> ''self''" "config_peer cfg name = Ok p"
    and peer: "peer_answers cs now aenv there caller senv request"
    and work: "dispatch (ss_dispatch senv) there request = (Some answer, work)"
    and reply: "serialises (to_json_response cs) (from_json_response cs) (respond (source_text_of cs) answer) a"
    and way: "if running then daemon_relays cs env lenv node path (Some name) request \<and> nd_config node = cfg
        \<and> nd_dialer node = Some d \<and> d_peers d (peer_id p) \<noteq> None \<and> ll_now lenv = now \<and> ll_attempts lenv = (aenv, retry)
      else endpoint_of_its_own env \<and> ce_now env = now \<and> ce_attempts env = (aenv, retry)"
  defines "out \<equiv> invoke cs from_toml files env path (Some name) request"
  shows "oc_result out = Some (Ok (respond (source_text_of cs) answer)) \<and> handed_over out = 1
    \<and> (running \<longrightarrow> submissions (ls_trace (serve_local cs node lenv)) = 1)
    \<and> sv_work (hd (snd (serve_peer cs there caller [senv]))) = work"
proof -
  have target: "target_of (Some name) = Some name" using config(2) by (simp add: target_of_def)
  have there: "sv_work (hd (snd (serve_peer cs there caller [senv]))) = work"
    by (rule call_answered_by_peer(2) [OF peer _ work reply, of "\<lparr>d_peers = (\<lambda>_. Some None)\<rparr>" undefined]) simp
  show ?thesis
  proof (cases running)
    case True
    then have relay: "daemon_relays cs env lenv node path (Some name) request" "nd_config node = cfg"
      "nd_dialer node = Some d" "d_peers d (peer_id p) \<noteq> None" "ll_now lenv = now" "ll_attempts lenv = (aenv, retry)"
      using way by simp_all
    then obtain q rest where q:
      "serialises (ce_to_json_local env) (ll_from_json lenv) \<lparr>lr_target = Some name, lr_request = request\<rparr> q"
      "ll_reader lenv = reader_of (frame_bytes q @ rest)" unfolding daemon_relays_def by blast
    obtain d' tr where forwarded: "forward cs now (aenv, retry) node name request
      = (Ok (respond (source_text_of cs) answer), Some d', tr)" "submissions tr = 1"
      using forwarded_to_peer [OF _ relay(3,4) peer work reply] config(3) relay(2) by blast
    let ?answer = "Ok (respond (source_text_of cs) answer)"
    have relayed: "daemon_answer cs node lenv (Some name) request = Some ?answer"
      using forwarded(1) by (simp add: daemon_answer_def relay(5,6))
    have "invoke cs from_toml files env path (Some name) request =
      \<lparr>oc_result = Some (Ok (respond (source_text_of cs) ?answer)), oc_via = 1, oc_trace = [], oc_work = []\<rparr>"
      by (rule command_answered [OF config(1) _ _ _ _ _ _ q(2), where a = a and target = "Some name", unfolded target])
        (use relay(1) q(1) relayed reply in \<open>simp_all add: daemon_relays_def respond_def\<close>)
    moreover have "fst (read_frame (ll_from_json lenv) (ll_reader lenv)) = Ok \<lparr>lr_target = Some name, lr_request = request\<rparr>"
      using q by (simp add: serialises_def reader_of_def read_frame_bytes [where bytes = q and rest = rest])
    then have "submissions (ls_trace (serve_local cs node lenv)) = 1"
      using relay(1,5,6) forwarded by (simp add: daemon_relays_def serve_local_def split: prod.split)
    ultimately show ?thesis using there by (simp add: out_def respond_def handed_over_def)
  next
    case False
    then have own: "endpoint_of_its_own env" "ce_now env = now" "ce_attempts env = (aenv, retry)"
      using way by simp_all
    obtain tr where "with_endpoint cs env cfg (Some name) request
      = \<lparr>oc_result = Some (Ok (respond (source_text_of cs) answer)), oc_via = 0, oc_trace = tr, oc_work = []\<rparr>"
      "submissions tr = 1"
      using own_endpoint_reaches_peer [OF own(1) config(3) own(3) _ work reply] peer own(2) by blast
    moreover have "via_daemon cs env (layout_new path) (Some name) request = (Ok None, 0)"
      using own(1) by (auto simp: via_daemon_def endpoint_of_its_own_def)
    ultimately show ?thesis
      using config(1) target there False by (simp add: out_def invoke_def Let_def handed_over_def)
  qed
qed

text \<open>A program run on the peer \<open>vps\<close> without a daemon here.\<close>

definition ran :: exec_result where
  "ran = \<lparr>x_stdout = [104, 105], x_stderr = [], x_exit_code = Some 7, x_signal = None, x_duration_ms = 3\<rparr>"

definition exec_codecs :: codecs where
  "exec_codecs = sample_codecs\<lparr>from_json_request := (\<lambda>_. Ok (Exec ''sh'' [] 2)),
     from_json_response := (\<lambda>_. Ok (ExecResponse ran))\<rparr>"

definition exec_stream :: "(nat, nat) dispatch_env \<Rightarrow> (nat, nat) stream_env" where
  "exec_stream de = sample_stream (de\<lparr>de_exec := sample_env\<rparr>) True"

definition exec_attempt :: "(nat, nat) dispatch_env \<Rightarrow> nat attempt" where
  "exec_attempt de = sample_attempt\<lparr>at_reader :=
     reader_of (sv_sent (hd (snd (serve_peer exec_codecs sample_node ''k'' [exec_stream de]))))\<rparr>"

theorem remote_command_end_to_end_witness:
  "\<forall>env de. oc_result (invoke exec_codecs (\<lambda>_. Ok sample_config) (\<lambda>_. Ok [])
       ((daemonless_env env)\<lparr>ce_attempts := (exec_attempt de, sample_attempt)\<rparr>) sample_path
       (Some ''vps'') (Exec ''sh'' [] 2)) = Some (Ok (ExecResponse ran))
     \<and> sv_work (hd (snd (serve_peer exec_codecs sample_node ''k'' [exec_stream de])))
       = [Process (Spawned 41 ''sh'' []), Process (KillGroup 41)]"
proof (intro allI)
  fix env :: "(nat, nat) client_env" and de :: "(nat, nat) dispatch_env"
  let ?env = "(daemonless_env env)\<lparr>ce_attempts := (exec_attempt de, sample_attempt)\<rparr>"
  have config: "read_config (\<lambda>_. Ok sample_config) (\<lambda>_. Ok []) sample_path = Ok sample_config"
    using sample_config_valid by (simp add: read_config_def sample_config_def)
  have peer: "config_peer sample_config ''vps'' = Ok \<lparr>peer_id = ''k'', peer_addrs = []\<rparr>"
    by (simp add: config_peer_def sample_config_def bt_get_def)
  have request: "serialises (to_json_request exec_codecs) (from_json_request exec_codecs) (Exec ''sh'' [] 2) [0]
      \<and> ss_reader (exec_stream de) = reader_of (frame_bytes [0] @ [])"
    by (simp add: serialises_def exec_codecs_def sample_codecs_def exec_stream_def sample_stream_def MAX_FRAME_def)
  have answers: "peer_answers exec_codecs 0 (exec_attempt de) sample_node ''k'' (exec_stream de) (Exec ''sh'' [] 2)"
    unfolding peer_answers_def using request
    by (intro conjI; (blast)?)
      (simp_all add: exec_attempt_def sample_attempt_def exec_stream_def sample_stream_def timeout_defs
        sample_node_def sample_config_def bt_values_def)
  have work: "dispatch (ss_dispatch (exec_stream de)) sample_node (Exec ''sh'' [] 2)
      = (Some (Ok (ExecResponse ran)), [Process (Spawned 41 ''sh'' []), Process (KillGroup 41)])"
    by (simp add: exec_stream_def sample_stream_def dispatch_def sample_execute ran_def)
  have reply: "serialises (to_json_response exec_codecs) (from_json_response exec_codecs)
      (respond (source_text_of exec_codecs) (Ok (ExecResponse ran))) [1]"
    by (simp add: serialises_def exec_codecs_def sample_codecs_def respond_def MAX_FRAME_def)
  have own: "endpoint_of_its_own ?env" "ce_now ?env = 0" "ce_attempts ?env = (exec_attempt de, sample_attempt)"
    by (simp_all add: endpoint_of_its_own_def daemonless_env_def plain_io_def load_key_def)
  from remote_command_end_to_end [OF config _ peer answers work reply, where running = False and env = ?env] own
  show "oc_result (invoke exec_codecs (\<lambda>_. Ok sample_config) (\<lambda>_. Ok []) ?env sample_path
       (Some ''vps'') (Exec ''sh'' [] 2)) = Some (Ok (ExecResponse ran))
     \<and> sv_work (hd (snd (serve_peer exec_codecs sample_node ''k'' [exec_stream de])))
       = [Process (Spawned 41 ''sh'' []), Process (KillGroup 41)]"
    by (simp add: respond_def)
qed

end
